(* ===== verification/Prelude.thy ===== *)
theory Prelude
  imports Main "HOL-Library.Word" "HOL-Library.Monad_Syntax"
begin

text \<open>
  Shared ground of the development: how C memory, pointers and integers are represented, the
  named collections the component theories add their simplification rules to, and the generic
  lemmas on checked reads and writes and on scanning a buffer.

  \<^item> A C object of type \<open>char[n]\<close> is a \<open>char list\<close> of length \<open>n\<close>; a pointer into it is an
    offset. Every read and write goes through the checked operations below.
  \<^item> A computation that may have undefined behaviour (a read or write outside its object, a
    null dereference, a signed overflow, a failed \<open>assert\<close>) has an \<open>option\<close> result, \<open>None\<close> being
    the undefined behaviour. The \<open>do\<close> syntax of \<open>Monad_Syntax\<close> sequences such computations.
  \<^item> A C \<open>int\<close> is an \<open>int\<close>; the conversions of wider types to \<open>int\<close> are written out
    (\<open>c_int\<close>).
\<close>

named_theorems mem_simps
named_theorems scan_simps

section \<open>Characters and strings\<close>

abbreviation NUL :: char where "NUL \<equiv> CHR 0x00"
abbreviation TAB :: char where "TAB \<equiv> CHR 0x09"
abbreviation LF :: char where "LF \<equiv> CHR 0x0A"
abbreviation CR :: char where "CR \<equiv> CHR 0x0D"
abbreviation SP :: char where "SP \<equiv> CHR '' ''"

abbreviation crlf :: string where "crlf \<equiv> [CR, LF]"

text \<open>The byte value of a character, and back (reduced modulo 256 as a store to \<open>char\<close> does).\<close>

abbreviation byte_of :: "char \<Rightarrow> nat" where "byte_of c \<equiv> of_char c"

abbreviation char_at :: "nat \<Rightarrow> char" where "char_at n \<equiv> char_of n"

lemma byte_mem_iff: "c \<in> A \<longleftrightarrow> byte_of c \<in> byte_of ` A"
  by (auto simp: image_iff)

section \<open>Checked memory accesses\<close>

definition nth_opt :: "'a list \<Rightarrow> nat \<Rightarrow> 'a option" where
  "nth_opt xs i = (if i < length xs then Some (xs ! i) else None)"

definition put :: "'a list \<Rightarrow> nat \<Rightarrow> 'a \<Rightarrow> 'a list option" where
  "put xs i x = (if i < length xs then Some (xs[i := x]) else None)"

text \<open>The same accesses at a signed offset, as pointer arithmetic on \<open>off_t\<close> gives it.\<close>

definition rd :: "'a list \<Rightarrow> int \<Rightarrow> 'a option" where
  "rd xs i = (if 0 \<le> i then nth_opt xs (nat i) else None)"

definition wr :: "'a list \<Rightarrow> int \<Rightarrow> 'a \<Rightarrow> 'a list option" where
  "wr xs i x = (if 0 \<le> i then put xs (nat i) x else None)"

text \<open>The memory from a pointer to the end of its object: what a C string function may read.\<close>

definition mem_from :: "'a list \<Rightarrow> int \<Rightarrow> 'a list option" where
  "mem_from xs i = (if 0 \<le> i \<and> i \<le> int (length xs) then Some (drop (nat i) xs) else None)"

lemma nth_opt_Some [mem_simps]: "i < length xs \<Longrightarrow> nth_opt xs i = Some (xs ! i)"
  by (simp add: nth_opt_def)

lemma nth_opt_None [mem_simps]: "length xs \<le> i \<Longrightarrow> nth_opt xs i = None"
  by (simp add: nth_opt_def)

lemma nth_opt_eq_Some: "nth_opt xs i = Some x \<longleftrightarrow> i < length xs \<and> xs ! i = x"
  by (auto simp: nth_opt_def)

lemma put_Some [mem_simps]: "i < length xs \<Longrightarrow> put xs i x = Some (xs[i := x])"
  by (simp add: put_def)

lemma put_eq_Some: "put xs i x = Some ys \<longleftrightarrow> i < length xs \<and> ys = xs[i := x]"
  by (auto simp: put_def)

lemma put_length: "put xs i x = Some ys \<Longrightarrow> length ys = length xs"
  by (auto simp: put_eq_Some)

lemma rd_eq_Some: "rd xs i = Some x \<longleftrightarrow> 0 \<le> i \<and> nat i < length xs \<and> xs ! nat i = x"
  by (auto simp: rd_def nth_opt_eq_Some)

lemma rd_Some [mem_simps]: "0 \<le> i \<Longrightarrow> i < int (length xs) \<Longrightarrow> rd xs i = Some (xs ! nat i)"
  by (simp add: rd_eq_Some nat_less_iff)

lemma wr_eq_Some:
  "wr xs i x = Some ys \<longleftrightarrow> 0 \<le> i \<and> nat i < length xs \<and> ys = xs[nat i := x]"
  by (auto simp: wr_def put_eq_Some)

lemma wr_Some [mem_simps]:
  "0 \<le> i \<Longrightarrow> i < int (length xs) \<Longrightarrow> wr xs i x = Some (xs[nat i := x])"
  by (simp add: wr_eq_Some nat_less_iff)

lemma mem_from_eq_Some:
  "mem_from xs i = Some ys \<longleftrightarrow> 0 \<le> i \<and> i \<le> int (length xs) \<and> ys = drop (nat i) xs"
  by (auto simp: mem_from_def)

lemma mem_from_Some [mem_simps]:
  "0 \<le> i \<Longrightarrow> i \<le> int (length xs) \<Longrightarrow> mem_from xs i = Some (drop (nat i) xs)"
  by (simp add: mem_from_def)

lemma nth_opt_append [mem_simps]: "nth_opt (xs @ ys) (length xs) = nth_opt ys 0"
  by (auto simp: nth_opt_def nth_append)

lemma nth_opt_Cons_0 [mem_simps]: "nth_opt (x # xs) 0 = Some x"
  by (simp add: nth_opt_def)

section \<open>Conversions to C int\<close>

text \<open>
  Assigning a wider signed integer to an \<open>int\<close> keeps the low 32 bits (the behaviour of every
  compiler the program is built with).
\<close>

definition c_int :: "int \<Rightarrow> int" where
  "c_int x = (x + 2 ^ 31) mod 2 ^ 32 - 2 ^ 31"

definition int_ok :: "int \<Rightarrow> bool" where
  "int_ok x \<longleftrightarrow> - (2 ^ 31) \<le> x \<and> x < 2 ^ 31"

lemma c_int_id [simp]: "int_ok x \<Longrightarrow> c_int x = x"
  by (simp add: c_int_def int_ok_def)

lemma c_int_range: "int_ok (c_int x)"
proof -
  have "0 \<le> (x + 2 ^ 31) mod 2 ^ 32" and "(x + 2 ^ 31) mod 2 ^ 32 < (2 ^ 32 :: int)"
    by simp_all
  then show ?thesis unfolding c_int_def int_ok_def by simp
qed

lemma c_int_cong: "(x - y) mod 2 ^ 32 = 0 \<Longrightarrow> c_int x = c_int y"
  unfolding c_int_def by (metis diff_add_cancel mod_add_left_eq add_0)

lemma int_okI [intro]: "0 \<le> x \<Longrightarrow> x < 2 ^ 31 \<Longrightarrow> int_ok x"
  by (simp add: int_ok_def)

section \<open>Scanning memory\<close>

text \<open>
  The number of leading characters that satisfy \<open>P\<close>; \<open>None\<close> when the scan runs off the end of
  the object before it finds one that does not.
\<close>

fun scan_while :: "('a \<Rightarrow> bool) \<Rightarrow> 'a list \<Rightarrow> nat option" where
  "scan_while P [] = None"
| "scan_while P (c # cs) = (if P c then map_option Suc (scan_while P cs) else Some 0)"

lemma scan_while_append [scan_simps]:
  "list_all P xs \<Longrightarrow> \<not> P y \<Longrightarrow> scan_while P (xs @ y # ys) = Some (length xs)"
  by (induction xs) auto

lemma scan_while_SomeD:
  "scan_while P xs = Some n \<Longrightarrow> n < length xs \<and> \<not> P (xs ! n) \<and> list_all P (take n xs)"
proof (induction xs arbitrary: n)
  case (Cons x xs)
  then show ?case by (cases n) (auto split: if_splits)
qed simp

lemma scan_while_NoneD: "scan_while P xs = None \<Longrightarrow> list_all P xs"
  by (induction xs) (auto split: if_splits)

section \<open>Loops that may not end\<close>

text \<open>
  A \<open>while\<close> loop whose rounds may wait for the outside world is a step function: a round is
  undefined (\<open>None\<close>), leaves the loop with a result (\<open>Inr\<close>) or goes on from a new state
  (\<open>Inl\<close>). \<open>run_steps n\<close> runs at most \<open>n\<close> rounds.
\<close>

datatype ('s, 'r) outcome = Undefined | Running 's | Returned 'r

fun run_steps :: "nat \<Rightarrow> ('s \<Rightarrow> ('s + 'r) option) \<Rightarrow> 's \<Rightarrow> ('s, 'r) outcome" where
  "run_steps 0 f s = Running s"
| "run_steps (Suc n) f s =
     (case f s of
        None \<Rightarrow> Undefined
      | Some (Inl s') \<Rightarrow> run_steps n f s'
      | Some (Inr r) \<Rightarrow> Returned r)"

text \<open>
  The loop ends (by returning, or in undefined behaviour) when every round keeps an invariant
  and every round that goes on descends in a well-founded order.
\<close>

lemma run_steps_ends:
  assumes "wf desc"
    and "\<And>s s'. P s \<Longrightarrow> f s = Some (Inl s') \<Longrightarrow> P s' \<and> (s', s) \<in> desc"
    and "P s"
  shows "\<exists>n. \<forall>s'. run_steps n f s \<noteq> Running s'"
  using assms(1,3)
proof (induction s rule: wf_induct_rule)
  case (less s)
  have 1: "run_steps (Suc 0) f s \<noteq> Running s'" if "\<forall>s'. f s \<noteq> Some (Inl s')" for s'
    using that by (cases "f s") (auto split: sum.split)
  show ?case
  proof (cases "\<exists>s'. f s = Some (Inl s')")
    case True
    then obtain s' where s': "f s = Some (Inl s')" by blast
    then obtain n where "\<forall>s''. run_steps n f s' \<noteq> Running s''"
      using less assms(2) by blast
    then have "\<forall>s''. run_steps (Suc n) f s \<noteq> Running s''" using s' by simp
    then show ?thesis by blast
  qed (use 1 in blast)
qed

lemma run_steps_trans:
  "run_steps m f s = Running s' \<Longrightarrow> run_steps (m + n) f s = run_steps n f s'"
  by (induction m f s rule: run_steps.induct) (auto split: option.splits sum.splits)

lemma run_steps_more:
  "run_steps n f s = Returned r \<Longrightarrow> n \<le> k \<Longrightarrow> run_steps k f s = Returned r"
proof (induction n arbitrary: s k)
  case (Suc n)
  obtain k' where "k = Suc k'" "n \<le> k'" using Suc.prems(2) by (cases k) auto
  with Suc.prems(1) Suc.IH [of _ k'] show ?case by (simp split: option.splits sum.splits)
qed simp

text \<open>What a loop with an invariant returns, and that it returns when its rounds also descend.\<close>

lemma run_steps_keeps:
  assumes "\<And>s r. I s \<Longrightarrow> f s = Some r \<Longrightarrow> (\<exists>s'. r = Inl s' \<and> I s') \<or> (\<exists>x. r = Inr x \<and> R x)"
    and "I s" and "run_steps n f s = Returned x"
  shows "R x"
  using assms(2,3)
proof (induction n arbitrary: s)
  case (Suc n)
  then show ?case using assms(1) [of s] by (auto split: option.split_asm sum.split_asm)
qed simp

lemma run_steps_total:
  assumes "wf desc"
    and "\<And>s. I s \<Longrightarrow> (\<exists>s'. f s = Some (Inl s') \<and> I s' \<and> (s', s) \<in> desc) \<or> (\<exists>x. f s = Some (Inr x) \<and> R x)"
    and "I s"
  shows "\<exists>n x. run_steps n f s = Returned x \<and> R x"
  using assms(1,3)
proof (induction s rule: wf_induct_rule)
  case (less s)
  consider s' where "f s = Some (Inl s')" "I s'" "(s', s) \<in> desc" | x where "f s = Some (Inr x)" "R x"
    using assms(2) [OF less.prems] by blast
  then show ?case
  proof cases
    case 1
    then obtain n x where "run_steps n f s' = Returned x" "R x" using less.IH by blast
    with 1 have "run_steps (Suc n) f s = Returned x" by simp
    with \<open>R x\<close> show ?thesis by blast
  next
    case 2
    then have "run_steps (Suc 0) f s = Returned x" by simp
    with 2 show ?thesis by blast
  qed
qed

lemma run_steps_loop:
  assumes "wf desc"
    and "\<And>s. I s \<Longrightarrow> (\<exists>s'. f s = Some (Inl s') \<and> I s' \<and> (s', s) \<in> desc) \<or> (\<exists>x. f s = Some (Inr x) \<and> R x)"
    and "I s"
  shows "run_steps n f s \<noteq> Undefined"
    and "run_steps n f s = Returned x \<Longrightarrow> R x"
    and "\<exists>n x. run_steps n f s = Returned x"
proof -
  show "run_steps n f s \<noteq> Undefined"
    using assms(3)
  proof (induction n arbitrary: s)
    case (Suc n)
    then show ?case using assms(2) [of s] by auto
  qed simp
  show "R x" if "run_steps n f s = Returned x"
  proof (rule run_steps_keeps [of I f R, OF _ assms(3) that])
    show "(\<exists>s'. r = Inl s' \<and> I s') \<or> (\<exists>x. r = Inr x \<and> R x)" if "I a" "f a = Some r" for a r
      using assms(2) [OF that(1)] that(2) by auto
  qed
  show "\<exists>n x. run_steps n f s = Returned x"
    using run_steps_total [of desc I f R s, OF assms] by blast
qed

end
