(* ===== verification/CLib.thy ===== *)
theory CLib
  imports Prelude
begin

text \<open>
  The functions of the C library the program calls, in the C locale, over the memory model of
  Prelude: character classes, searching and comparing strings, \<open>strtol\<close> with its end pointer
  and its range errors, and the \<open>%d\<close> conversion of \<open>printf\<close>. Functions that read memory take
  the bytes from their pointer to the end of the object and give \<open>None\<close> when they would read
  past it. The last section proves the facts the parsers and writers rest on, among them that
  \<open>strtol\<close> reads back what \<open>%d\<close> prints.
\<close>

section \<open>Character classes\<close>

definition c_isspace :: "char \<Rightarrow> bool" where
  "c_isspace c \<longleftrightarrow> c = SP \<or> c = TAB \<or> c = LF \<or> c = CHR 0x0B \<or> c = CHR 0x0C \<or> c = CR"

definition c_isdigit :: "char \<Rightarrow> bool" where
  "c_isdigit c \<longleftrightarrow> 48 \<le> byte_of c \<and> byte_of c \<le> (57 :: nat)"

definition c_isupper :: "char \<Rightarrow> bool" where
  "c_isupper c \<longleftrightarrow> 65 \<le> byte_of c \<and> byte_of c \<le> (90 :: nat)"

definition c_islower :: "char \<Rightarrow> bool" where
  "c_islower c \<longleftrightarrow> 97 \<le> byte_of c \<and> byte_of c \<le> (122 :: nat)"

definition c_isalnum :: "char \<Rightarrow> bool" where
  "c_isalnum c \<longleftrightarrow> c_isdigit c \<or> c_isupper c \<or> c_islower c"

definition c_tolower :: "char \<Rightarrow> char" where
  "c_tolower c = (if c_isupper c then char_at (byte_of c + 32) else c)"

section \<open>Searching and comparing\<close>

text \<open>The index of the first occurrence of a (non-null) character in a C string's content.\<close>

fun strchr :: "string \<Rightarrow> char \<Rightarrow> nat option" where
  "strchr [] c = None"
| "strchr (x # xs) c = (if x = c then Some 0 else map_option Suc (strchr xs c))"

text \<open>The index of the first occurrence of a string.\<close>

fun strstr :: "string \<Rightarrow> string \<Rightarrow> nat option" where
  "strstr xs ys =
     (if take (length ys) xs = ys then Some 0
      else case xs of [] \<Rightarrow> None | _ # xs' \<Rightarrow> map_option Suc (strstr xs' ys))"

declare strstr.simps [simp del]

text \<open>\<open>strcmp(p, lit) == 0\<close> and \<open>strcasecmp(p, lit) == 0\<close> for a literal without null characters.\<close>

fun strcmp_eq :: "char list \<Rightarrow> string \<Rightarrow> bool option" where
  "strcmp_eq [] ds = None"
| "strcmp_eq (c # cs) [] = Some (c = NUL)"
| "strcmp_eq (c # cs) (d # ds) = (if c = d then strcmp_eq cs ds else Some False)"

fun strcasecmp_eq :: "char list \<Rightarrow> string \<Rightarrow> bool option" where
  "strcasecmp_eq [] ds = None"
| "strcasecmp_eq (c # cs) [] = Some (c = NUL)"
| "strcasecmp_eq (c # cs) (d # ds) =
     (if c_tolower c = c_tolower d then strcasecmp_eq cs ds else Some False)"

text \<open>\<open>strncasecmp(p, lit, n) == 0\<close>: at most \<open>n\<close> characters, up to the literal's terminator.\<close>

fun strncasecmp_eq :: "char list \<Rightarrow> string \<Rightarrow> nat \<Rightarrow> bool option" where
  "strncasecmp_eq cs ds 0 = Some True"
| "strncasecmp_eq [] ds (Suc n) = None"
| "strncasecmp_eq (c # cs) [] (Suc n) = Some (c = NUL)"
| "strncasecmp_eq (c # cs) (d # ds) (Suc n) =
     (if c_tolower c = c_tolower d then strncasecmp_eq cs ds n else Some False)"

text \<open>\<open>memchr(p, c, n)\<close> at offset \<open>p\<close> of an object: it reads up to the first match only.\<close>

definition memchr :: "char list \<Rightarrow> int \<Rightarrow> char \<Rightarrow> int \<Rightarrow> int option option" where
  "memchr m p c n = do {
     mm \<leftarrow> mem_from m p;
     case strchr (take (nat n) mm) c of
       Some i \<Rightarrow> Some (Some (p + int i))
     | None \<Rightarrow> if n \<le> int (length mm) then Some None else None
   }"

text \<open>The content of the C string at a pointer.\<close>

definition cstring :: "char list \<Rightarrow> string option" where
  "cstring m = map_option (\<lambda>n. take n m) (scan_while (\<lambda>c. c \<noteq> NUL) m)"

section \<open>strtol\<close>

datatype c_errno = EINVAL | ERANGE | E_OTHER int

datatype conv = Conv | NoConv | OutOfRange

definition LONG_MAX :: int where "LONG_MAX = 2 ^ 63 - 1"

definition LONG_MIN :: int where "LONG_MIN = - (2 ^ 63)"

definition digit_val :: "nat \<Rightarrow> char \<Rightarrow> nat option" where
  "digit_val b c =
     (let v = (if c_isdigit c then byte_of c - 48
               else if c_islower c then byte_of c - 87
               else if c_isupper c then byte_of c - 55 else b)
      in if v < b then Some v else None)"

definition is_digit :: "nat \<Rightarrow> char \<Rightarrow> bool" where
  "is_digit b c \<longleftrightarrow> digit_val b c \<noteq> None"

definition digits_val :: "nat \<Rightarrow> string \<Rightarrow> nat" where
  "digits_val b cs = foldl (\<lambda>a c. a * b + the (digit_val b c)) 0 cs"

text \<open>An optional \<open>0x\<close> before hexadecimal digits: the number of characters it takes.\<close>

definition hex_prefix :: "nat \<Rightarrow> char list \<Rightarrow> nat option" where
  "hex_prefix b m =
     (if b \<noteq> 16 then Some 0
      else do {
        c0 \<leftarrow> nth_opt m 0;
        if c0 \<noteq> CHR ''0'' then Some 0
        else do {
          c1 \<leftarrow> nth_opt m 1;
          if c1 \<noteq> CHR ''x'' \<and> c1 \<noteq> CHR ''X'' then Some 0
          else do {
            c2 \<leftarrow> nth_opt m 2;
            Some (if is_digit 16 c2 then 2 else 0)
          }
        }
      })"

text \<open>
  \<open>strtol(p, &end, b)\<close> on the memory from \<open>p\<close>: the value, the distance from \<open>p\<close> to \<open>end\<close> and
  how the conversion ended.
\<close>

definition strtol :: "nat \<Rightarrow> char list \<Rightarrow> (int \<times> nat \<times> conv) option" where
  "strtol b m = do {
     w \<leftarrow> scan_while c_isspace m;
     s \<leftarrow> nth_opt m w;
     let k = (if s = CHR ''-'' \<or> s = CHR ''+'' then 1 else 0);
     p \<leftarrow> hex_prefix b (drop (w + k) m);
     n \<leftarrow> scan_while (is_digit b) (drop (w + k + p) m);
     let u = int (digits_val b (take n (drop (w + k + p) m)));
     let v = (if s = CHR ''-'' then - u else u);
     Some (if n = 0 then (0, 0, NoConv)
           else if v < LONG_MIN then (LONG_MIN, w + k + p + n, OutOfRange)
           else if LONG_MAX < v then (LONG_MAX, w + k + p + n, OutOfRange)
           else (v, w + k + p + n, Conv))
   }"

text \<open>
  \<open>errno\<close> after \<open>strtol\<close>: \<open>ERANGE\<close> when the value is out of range; POSIX lets an implementation
  set \<open>EINVAL\<close> when nothing is converted (\<open>einval\<close>); otherwise it is left as it was.
\<close>

definition strtol_errno :: "bool \<Rightarrow> conv \<Rightarrow> c_errno \<Rightarrow> c_errno" where
  "strtol_errno einval r e =
     (case r of Conv \<Rightarrow> e | OutOfRange \<Rightarrow> ERANGE | NoConv \<Rightarrow> (if einval then EINVAL else e))"

section \<open>printf conversions\<close>

fun show_nat :: "nat \<Rightarrow> string" where
  "show_nat n = (if n < 10 then [char_at (48 + n)]
                 else show_nat (n div 10) @ [char_at (48 + n mod 10)])"

declare show_nat.simps [simp del]

definition show_int :: "int \<Rightarrow> string" where
  "show_int i = (if i < 0 then CHR ''-'' # show_nat (nat (- i)) else show_nat (nat i))"

section \<open>Facts about searching and comparing\<close>

lemma c_tolower_NUL [simp]: "c_tolower NUL = NUL"
  by (simp add: c_tolower_def c_isupper_def)

lemma c_tolower_eq_NUL [simp]: "c_tolower c = NUL \<longleftrightarrow> c = NUL"
proof (cases "c_isupper c")
  case True
  then have "65 \<le> byte_of c" "byte_of c \<le> 90" by (auto simp: c_isupper_def)
  then have "byte_of (c_tolower c) = byte_of c + 32" using True by (simp add: c_tolower_def)
  then show ?thesis using \<open>65 \<le> byte_of c\<close> by auto
qed (simp add: c_tolower_def)

lemma strcasecmp_eq_map:
  "NUL \<notin> set s \<Longrightarrow> NUL \<notin> set lit \<Longrightarrow> strcasecmp_eq (s @ NUL # rest) lit = Some (map c_tolower s = map c_tolower lit)"
proof (induction s arbitrary: lit)
  case Nil
  then show ?case by (cases lit) (auto dest: sym)
next
  case (Cons c s)
  then show ?case by (cases lit) auto
qed

lemma strchr_SomeD:
  "strchr s c = Some i \<Longrightarrow> i < length s \<and> s ! i = c \<and> c \<notin> set (take i s)"
proof (induction s arbitrary: i)
  case (Cons x xs)
  then show ?case by (cases i) (auto split: if_splits)
qed simp

lemma strchr_None_iff: "strchr s c = None \<longleftrightarrow> c \<notin> set s"
  by (induction s) auto

lemma strchr_append [scan_simps]:
  "c \<notin> set xs \<Longrightarrow> strchr (xs @ c # ys) c = Some (length xs)"
  by (induction xs) auto

lemma strchr_append2:
  "c \<notin> set xs \<Longrightarrow> strchr (xs @ ys) c = map_option (\<lambda>i. length xs + i) (strchr ys c)"
  by (cases "strchr ys c"; induction xs) auto

lemma strchr_not_in [scan_simps]: "c \<notin> set xs \<Longrightarrow> strchr xs c = None"
  by (simp add: strchr_None_iff)

lemma strstr_0_iff: "strstr xs ys = Some 0 \<longleftrightarrow> (\<exists>zs. xs = ys @ zs)"
proof -
  have "strstr xs ys = Some 0 \<longleftrightarrow> take (length ys) xs = ys"
    by (subst strstr.simps) (auto split: list.split)
  also have "\<dots> \<longleftrightarrow> (\<exists>zs. xs = ys @ zs)"
    by (metis append_eq_conv_conj)
  finally show ?thesis .
qed

lemma strncasecmp_eq_None_iff:
  "strncasecmp_eq m ds n = None \<longleftrightarrow>
     length m < n \<and> length m \<le> length ds \<and>
     (\<forall>i < length m. c_tolower (m ! i) = c_tolower (ds ! i))"
proof (induction m ds n rule: strncasecmp_eq.induct)
  case (4 c cs d ds n)
  then show ?case by (auto simp: nth_Cons split: nat.split)
qed auto

lemma cstring_append [scan_simps]: "NUL \<notin> set xs \<Longrightarrow> cstring (xs @ NUL # ys) = Some xs"
proof -
  assume "NUL \<notin> set xs"
  then have "scan_while (\<lambda>c. c \<noteq> NUL) (xs @ NUL # ys) = Some (length xs)"
    by (intro scan_while_append) (auto simp: list_all_iff)
  then show ?thesis by (simp add: cstring_def)
qed

section \<open>Facts about strtol and printing\<close>

lemma is_digit_10 [simp]: "is_digit 10 c = c_isdigit c"
  by (auto simp: is_digit_def digit_val_def c_isdigit_def c_isupper_def c_islower_def Let_def)

lemma c_isdigit_not_space: "c_isdigit c \<Longrightarrow> \<not> c_isspace c"
  by (auto simp: c_isdigit_def c_isspace_def)

lemma is_digit_16_not_space: "is_digit 16 c \<Longrightarrow> \<not> c_isspace c"
  by (auto simp: is_digit_def digit_val_def c_isspace_def c_isdigit_def c_isupper_def
      c_islower_def Let_def)

lemma is_digit_16_not_x: "is_digit 16 c \<Longrightarrow> c \<notin> set ''xX+-''"
  by (auto simp: is_digit_def digit_val_def c_isdigit_def c_isupper_def c_islower_def Let_def)

lemma scan_digits [scan_simps]:
  "list_all (is_digit b) ds \<Longrightarrow> \<not> is_digit b e \<Longrightarrow>
     scan_while (is_digit b) (ds @ e # rest) = Some (length ds)"
  by (rule scan_while_append)

lemma scan_space_0: "m \<noteq> [] \<Longrightarrow> \<not> c_isspace (hd m) \<Longrightarrow> scan_while c_isspace m = Some 0"
  by (cases m) auto

lemma strtol_10:
  assumes "ds \<noteq> []" and "list_all c_isdigit ds" and "\<not> c_isdigit e"
    and "int (digits_val 10 ds) \<le> LONG_MAX"
  shows "strtol 10 (ds @ e # rest) = Some (int (digits_val 10 ds), length ds, Conv)"
proof -
  from assms(1) obtain d ds' where ds: "ds = d # ds'" by (cases ds) auto
  with assms(2) have d: "c_isdigit d" by simp
  have "scan_while c_isspace (ds @ e # rest) = Some 0"
    using d by (simp add: ds c_isdigit_not_space)
  moreover have "scan_while (is_digit 10) (ds @ e # rest) = Some (length ds)"
    using assms by (intro scan_while_append) (auto simp: list_all_iff)
  moreover have "d \<noteq> CHR ''-'' \<and> d \<noteq> CHR ''+''" using d by (auto simp: c_isdigit_def)
  ultimately show ?thesis
    using assms(1,4)
    by (simp add: strtol_def hex_prefix_def ds nth_opt_def LONG_MIN_def del: scan_while.simps)
qed

lemma hex_prefix_16:
  assumes "list_all (is_digit 16) ds" and "ds \<noteq> []" and "e \<notin> set ''xX''"
  shows "hex_prefix 16 (ds @ e # rest) = Some 0"
proof -
  obtain d ds' where ds: "ds = d # ds'" using assms(2) by (cases ds) auto
  have "(ds' @ e # rest) ! 0 \<notin> set ''xX''"
    using assms(1,3) is_digit_16_not_x ds by (cases ds') auto
  then show ?thesis by (simp add: hex_prefix_def nth_opt_def ds)
qed

lemma strtol_16:
  assumes "ds \<noteq> []" and "list_all (is_digit 16) ds" and "\<not> is_digit 16 e" and "e \<notin> set ''xX''"
    and "int (digits_val 16 ds) \<le> LONG_MAX"
  shows "strtol 16 (ds @ e # rest) = Some (int (digits_val 16 ds), length ds, Conv)"
proof -
  from assms(1) obtain d ds' where ds: "ds = d # ds'" by (cases ds) auto
  with assms(2) have d: "is_digit 16 d" by simp
  have "scan_while c_isspace (ds @ e # rest) = Some 0"
    using d by (simp add: ds is_digit_16_not_space)
  moreover have "scan_while (is_digit 16) (ds @ e # rest) = Some (length ds)"
    using assms by (intro scan_while_append) auto
  moreover have "d \<noteq> CHR ''-'' \<and> d \<noteq> CHR ''+''" using is_digit_16_not_x [OF d] by simp
  moreover have "hex_prefix 16 (ds @ e # rest) = Some 0"
    using assms by (intro hex_prefix_16) auto
  ultimately show ?thesis
    using assms(1,5)
    by (simp add: strtol_def ds nth_opt_def LONG_MIN_def del: scan_while.simps)
qed

lemma c_isdigit_char_of: "n < 10 \<Longrightarrow> c_isdigit (char_at (48 + n))"
  by (simp add: c_isdigit_def of_char_of)

lemma digit_val_char_of: "n < 10 \<Longrightarrow> digit_val 10 (char_at (48 + n)) = Some n"
  using c_isdigit_char_of [of n] by (simp add: digit_val_def of_char_of)

lemma show_nat_digits: "list_all c_isdigit (show_nat n) \<and> show_nat n \<noteq> []"
proof (induction n rule: show_nat.induct)
  case (1 n)
  show ?case
  proof (cases "n < 10")
    case True
    then show ?thesis by (subst (1 2) show_nat.simps) (simp add: c_isdigit_char_of)
  next
    case False
    with 1 show ?thesis
      by (subst (1 2) show_nat.simps) (simp add: c_isdigit_char_of)
  qed
qed

lemma digits_val_append:
  "digits_val b (xs @ [c]) = digits_val b xs * b + the (digit_val b c)"
  by (simp add: digits_val_def)

lemma digits_val_show_nat [simp]: "digits_val 10 (show_nat n) = n"
proof (induction n rule: show_nat.induct)
  case (1 n)
  show ?case
  proof (cases "n < 10")
    case True
    then show ?thesis by (subst show_nat.simps) (simp add: digits_val_def digit_val_char_of)
  next
    case False
    with 1 show ?thesis
      by (subst show_nat.simps) (simp add: digits_val_append digit_val_char_of)
  qed
qed

lemma length_show_nat_le: "n < 10 ^ k \<Longrightarrow> 0 < k \<Longrightarrow> length (show_nat n) \<le> k"
proof (induction k arbitrary: n)
  case (Suc k)
  show ?case
  proof (cases "n < 10")
    case True
    then show ?thesis by (subst show_nat.simps) simp
  next
    case False
    with Suc.prems have "n div 10 < 10 ^ k" and "0 < k"
      by (auto simp: less_mult_imp_div_less mult.commute intro: gr0I)
    then have "length (show_nat (n div 10)) \<le> k" by (rule Suc.IH)
    with False show ?thesis by (subst show_nat.simps) simp
  qed
qed simp

text \<open>Reading back a printed non-negative number.\<close>

lemma strtol_show_nat:
  assumes "int n \<le> LONG_MAX" and "\<not> c_isdigit e"
  shows "strtol 10 (show_nat n @ e # rest) = Some (int n, length (show_nat n), Conv)"
  using strtol_10 [of "show_nat n" e rest] show_nat_digits [of n] assms by simp

end
