(* ===== verification/UrlCodec.thy ===== *)
theory UrlCodec
  imports CLib
begin

text \<open>
  The URL codec of src/src/mnhttp.c: the character table \<open>charflags\<close>, the encoder
  \<open>http_urlencode_reserved\<close> and the in-place decoder \<open>http_urldecode\<close>. Both are modelled as the
  loops the code has, over explicit buffers with checked accesses and, in the encoder, the
  32-bit counters. The list functions \<open>enc\<close> and \<open>dec\<close> say what they compute; the theorems
  show that the loops compute it inside their buffers and that decoding undoes encoding.
\<close>

unbundle bit_operations_syntax

section \<open>The code\<close>

definition RFC3986_RESEVED :: nat where "RFC3986_RESEVED = 0x01"
definition RFC3986_OTHERS :: nat where "RFC3986_OTHERS = 0x02"
definition RFC3986_UNRESERVED :: nat where "RFC3986_UNRESERVED = 0x04"

definition charflags :: "nat list" where
  "charflags =
    [2,2,2,2,2,2,2,2,2,2,2,2,2,2,2,2,2,2,2,2,2,2,2,2,2,2,2,2,2,2,2,2,
     2,1,2,1,1,2,1,1,1,1,1,1,1,4,4,1,2,2,2,2,2,2,2,2,2,2,1,1,2,1,2,1,
     1,4,4,4,4,4,4,4,4,4,4,4,4,4,4,4,4,4,4,4,4,4,4,4,4,4,4,1,2,1,2,4,
     2,4,4,4,4,4,4,4,4,4,4,4,4,4,4,4,4,4,4,4,4,4,4,4,4,4,4,2,2,2,4,2]
     @ replicate 128 2"

definition is_unreserved :: "char \<Rightarrow> bool" where
  "is_unreserved c \<longleftrightarrow> (charflags ! byte_of c) AND RFC3986_UNRESERVED \<noteq> 0"

text \<open>The character of one hexadecimal digit, as the encoder computes it.\<close>

definition hexchar :: "nat \<Rightarrow> char" where
  "hexchar cc = (if cc < 10 then char_at (48 + cc) else char_at (65 + cc - 10))"

text \<open>
  The encoder's loop. \<open>i\<close> and \<open>j\<close> are \<open>unsigned int\<close>, \<open>sz\<close> is a \<open>size_t\<close>; \<open>s\<close> is the memory
  the source pointer may read, \<open>res\<close> the allocated result.
\<close>

partial_function (option) urlencode_loop ::
  "char list \<Rightarrow> nat \<Rightarrow> 32 word \<Rightarrow> 32 word \<Rightarrow> char list \<Rightarrow> (32 word \<times> char list) option" where
  "urlencode_loop s sz i j res =
     (if unat i < sz then do {
        c \<leftarrow> nth_opt s (unat i);
        if \<not> is_unreserved c then do {
          res1 \<leftarrow> put res (unat j) (CHR ''%'');
          res2 \<leftarrow> put res1 (unat (j + 1)) (hexchar (byte_of c div 16));
          res3 \<leftarrow> put res2 (unat (j + 2)) (hexchar (byte_of c mod 16));
          urlencode_loop s sz (i + 1) (j + 3) res3
        } else do {
          res1 \<leftarrow> put res (unat j) c;
          urlencode_loop s sz (i + 1) (j + 1) res1
        }
      } else Some (j, res))"

text \<open>
  \<open>fresh n\<close> is what \<open>malloc(n)\<close> returns: \<open>n\<close> bytes of unknown content. (When \<open>malloc\<close> fails
  the program stops.)
\<close>

definition http_urlencode_reserved ::
  "(nat \<Rightarrow> char list) \<Rightarrow> char list \<Rightarrow> nat \<Rightarrow> char list option" where
  "http_urlencode_reserved fresh s sz = do {
     (j, res) \<leftarrow> urlencode_loop s sz 0 0 (fresh (sz * 3 + 1));
     put res (unat j) NUL
   }"

text \<open>The value of a hexadecimal digit, \<open>None\<close> where the decoder returns \<open>NULL\<close>.\<close>

definition hexval :: "char \<Rightarrow> nat option" where
  "hexval c =
     (if 48 \<le> byte_of c \<and> byte_of c \<le> (57 :: nat) then Some (byte_of c - 48)
      else if 97 \<le> byte_of c \<and> byte_of c \<le> (102 :: nat) then Some (byte_of c - 97 + 10)
      else if 65 \<le> byte_of c \<and> byte_of c \<le> (70 :: nat) then Some (byte_of c - 65 + 10)
      else None)"

text \<open>
  The decoder's loop over one buffer, \<open>src\<close> reading and \<open>dst\<close> writing. The result is the
  returned pointer (\<open>None\<close> for \<open>NULL\<close>) and the buffer as the loop leaves it.
\<close>

function urldecode_loop :: "char list \<Rightarrow> nat \<Rightarrow> nat \<Rightarrow> (nat option \<times> char list) option" where
  "urldecode_loop b src dst = do {
     c \<leftarrow> nth_opt b src;
     if c = NUL then Some (Some dst, b)
     else if c = CHR ''%'' then do {
       h \<leftarrow> nth_opt b (src + 1);
       case hexval h of
         None \<Rightarrow> Some (None, b)
       | Some hv \<Rightarrow> do {
           b1 \<leftarrow> put b dst (char_at (hv * 16));
           l \<leftarrow> nth_opt b1 (src + 2);
           case hexval l of
             None \<Rightarrow> Some (None, b1)
           | Some lv \<Rightarrow> do {
               d \<leftarrow> nth_opt b1 dst;
               b2 \<leftarrow> put b1 dst (char_at (byte_of d OR lv));
               urldecode_loop b2 (src + 3) (dst + 1)
             }
         }
     } else do {
       b1 \<leftarrow> put b dst c;
       urldecode_loop b1 (src + 1) (dst + 1)
     }
   }"
  by pat_completeness auto
termination
  by (relation "measure (\<lambda>(b, src, dst). length b - src)")
    (auto simp: nth_opt_eq_Some put_eq_Some)

declare urldecode_loop.simps [simp del]

definition http_urldecode :: "char list \<Rightarrow> (nat option \<times> char list) option" where
  "http_urldecode s = urldecode_loop s 0 0"

section \<open>What they compute\<close>

definition enc1 :: "char \<Rightarrow> string" where
  "enc1 c = (if is_unreserved c then [c]
             else [CHR ''%'', hexchar (byte_of c div 16), hexchar (byte_of c mod 16)])"

definition enc :: "string \<Rightarrow> string" where
  "enc s = concat (map enc1 s)"

fun dec :: "string \<Rightarrow> string option" where
  "dec [] = Some []"
| "dec (c # cs) =
     (if c = CHR ''%'' then
        (case cs of
           h # l # cs' \<Rightarrow>
             (case (hexval h, hexval l) of
                (Some hv, Some lv) \<Rightarrow> map_option ((#) (char_at (hv * 16 + lv))) (dec cs')
              | _ \<Rightarrow> None)
         | _ \<Rightarrow> None)
      else map_option ((#) c) (dec cs))"

section \<open>The encoder\<close>

lemma length_charflags [simp]: "length charflags = 256"
  by (simp add: charflags_def)

lemma length_enc1: "length (enc1 c) \<le> 3"
  by (simp add: enc1_def)

lemma enc_Nil [simp]: "enc [] = []"
  by (simp add: enc_def)

lemma enc_Cons [simp]: "enc (c # cs) = enc1 c @ enc cs"
  by (simp add: enc_def)

lemma enc_append [simp]: "enc (xs @ ys) = enc xs @ enc ys"
  by (simp add: enc_def)

lemma length_enc: "length (enc s) \<le> 3 * length s"
proof (induction s)
  case (Cons c s)
  then show ?case using length_enc1 [of c] by simp
qed simp

text \<open>Writing at, and just after, the end of what is written so far.\<close>

lemma put_ends:
  "put (e @ x # t) (length e) y = Some (e @ y # t)"
  "put (e @ a # x # t) (Suc (length e)) y = Some (e @ a # y # t)"
  "put (e @ a # b # x # t) (Suc (Suc (length e))) y = Some (e @ a # b # y # t)"
  by (simp_all add: put_def list_update_append)

lemma unat_of_nat32: "n < 2 ^ 32 \<Longrightarrow> unat (of_nat n :: 32 word) = n"
  by (simp add: unat_of_nat)

text \<open>
  One round of the loop, at a position \<open>i\<close> and with the encoding \<open>e\<close> of what precedes it
  written: it writes the encoding of the next character.
\<close>

lemma urlencode_loop_step:
  assumes "i < sz" and "sz \<le> length s" and "length e + 3 < 2 ^ 32" and "sz < 2 ^ 32"
    and "3 \<le> length t"
  shows "urlencode_loop s sz (of_nat i) (of_nat (length e)) (e @ t) =
         urlencode_loop s sz (of_nat (Suc i)) (of_nat (length (e @ enc1 (s ! i))))
           ((e @ enc1 (s ! i)) @ drop (length (enc1 (s ! i))) t)"
proof -
  obtain x1 x2 x3 t' where t: "t = x1 # x2 # x3 # t'"
    using assms(5) by (metis Suc_le_length_iff numeral_3_eq_3)
  have i: "unat (of_nat i :: 32 word) = i" using assms by (intro unat_of_nat32) simp
  have j: "unat (of_nat (length e) :: 32 word) = length e"
    "unat (of_nat (length e) + 1 :: 32 word) = Suc (length e)"
    "unat (of_nat (length e) + 2 :: 32 word) = Suc (Suc (length e))"
    using assms(3) unat_of_nat32 [of "length e"] unat_of_nat32 [of "Suc (length e)"]
      unat_of_nat32 [of "Suc (Suc (length e))"] by (simp_all add: add.commute)
  have w: "(of_nat (Suc i) :: 32 word) = of_nat i + 1" "(of_nat (Suc 0) :: 32 word) = 1"
    "(of_nat (Suc (Suc (Suc 0))) :: 32 word) = 3"
    by simp_all
  show ?thesis
    using assms(1,2)
    by (subst urlencode_loop.simps)
      (simp add: i j t nth_opt_def put_ends enc1_def w del: of_nat_Suc)
qed

lemma urlencode_loop_correct:
  assumes "i \<le> sz" and "sz \<le> length s" and "3 * sz + 1 < 2 ^ 32"
    and "length e + 3 * (sz - i) < 2 ^ 32" and "3 * (sz - i) < length t"
  shows "\<exists>t'. urlencode_loop s sz (of_nat i) (of_nat (length e)) (e @ t) =
           Some (of_nat (length (e @ enc (drop i (take sz s)))),
                 (e @ enc (drop i (take sz s))) @ t')
         \<and> length (e @ enc (drop i (take sz s))) + length t' = length e + length t \<and> t' \<noteq> []"
  using assms
proof (induction "sz - i" arbitrary: i e t)
  case 0
  then have "i = sz" by simp
  with 0 show ?case
    by (intro exI [of _ t], subst urlencode_loop.simps) (simp add: unat_of_nat32)
next
  case (Suc n)
  let ?c = "s ! i" and ?t = "drop (length (enc1 (s ! i))) t"
  have le: "length (enc1 ?c) \<le> 3" by (rule length_enc1)
  have isz: "i < sz" using Suc.hyps(2) by simp
  have step: "urlencode_loop s sz (of_nat i) (of_nat (length e)) (e @ t) =
         urlencode_loop s sz (of_nat (Suc i)) (of_nat (length (e @ enc1 ?c)))
           ((e @ enc1 ?c) @ ?t)"
    using Suc.prems isz by (intro urlencode_loop_step) auto
  have d: "drop i (take sz s) = ?c # drop (Suc i) (take sz s)"
    using isz Suc.prems by (metis Cons_nth_drop_Suc length_take min.absorb2 nth_take)
  have "\<exists>t'. urlencode_loop s sz (of_nat (Suc i)) (of_nat (length (e @ enc1 ?c)))
           ((e @ enc1 ?c) @ ?t) =
         Some (of_nat (length ((e @ enc1 ?c) @ enc (drop (Suc i) (take sz s)))),
               ((e @ enc1 ?c) @ enc (drop (Suc i) (take sz s))) @ t')
         \<and> length ((e @ enc1 ?c) @ enc (drop (Suc i) (take sz s))) + length t' =
           length (e @ enc1 ?c) + length ?t \<and> t' \<noteq> []"
    using Suc.hyps(2) Suc.prems le isz by (intro Suc.hyps(1)) auto
  then show ?case using le Suc.prems isz unfolding step d by (auto simp: algebra_simps)
qed

section \<open>The decoder\<close>

lemma hexval_bound: "hexval c = Some v \<Longrightarrow> v < 16"
  by (auto simp: hexval_def split: if_splits)

lemma hexval_NUL [simp]: "hexval NUL = None"
  by (simp add: hexval_def)

lemma hexval_hexchar [simp]: "v < 16 \<Longrightarrow> hexval (hexchar v) = Some v"
  by (auto simp: hexval_def hexchar_def of_char_of)

lemma hex_or: "hv < 16 \<Longrightarrow> lv < 16 \<Longrightarrow> (hv * 16) OR lv = hv * 16 + (lv :: nat)"
proof -
  assume "hv < 16" and lv: "lv < 16"
  have "push_bit 4 hv AND lv = 0"
  proof (rule bit_eqI)
    fix n
    have "\<not> bit lv n" if "4 \<le> n"
    proof -
      have "take_bit 4 lv = lv" using lv by (simp add: take_bit_nat_eq_self)
      with that show ?thesis by (metis bit_take_bit_iff not_less)
    qed
    then show "bit (push_bit 4 hv AND lv) n = bit 0 n"
      by (auto simp: bit_and_iff bit_push_bit_iff)
  qed
  then have "push_bit 4 hv + lv = push_bit 4 hv OR lv" by (rule disjunctive_add_eq_or)
  then show ?thesis by (simp add: push_bit_eq_mult)
qed

lemma drop_eq_ConsD: "drop n xs = y # ys \<Longrightarrow> n < length xs \<and> xs ! n = y \<and> drop (Suc n) xs = ys"
  by (metis Cons_nth_drop_Suc list.inject drop_eq_Nil leI list.distinct(1))

text \<open>
  The decoder on a buffer whose unread part holds the string \<open>xs\<close>: it computes \<open>dec\<close>, keeps
  what was written before \<open>dst\<close>, and touches nothing from the terminator on.
\<close>

definition decoded :: "(nat option \<times> char list) option \<Rightarrow> char list \<Rightarrow> nat \<Rightarrow> nat \<Rightarrow> string \<Rightarrow> bool" where
  "decoded r b src dst xs =
     (\<exists>b'. length b' = length b \<and> drop (src + length xs) b' = drop (src + length xs) b \<and>
        (case dec xs of
           None \<Rightarrow> r = Some (None, b')
         | Some ys \<Rightarrow> r = Some (Some (dst + length ys), b') \<and>
                      take (dst + length ys) b' = take dst b @ ys))"

lemma decoded_step:
  assumes "decoded r (b[dst := c]) (src + k) (Suc dst) xs" and "dst < length b" and "dst \<le> src"
    and "dec zs = map_option ((#) c) (dec xs)" and "length zs = k + length xs" and "0 < k"
  shows "decoded r b src dst zs"
proof -
  obtain b' where b': "length b' = length b"
    "drop (src + k + length xs) b' = drop (src + k + length xs) (b[dst := c])"
    "case dec xs of None \<Rightarrow> r = Some (None, b')
     | Some ys \<Rightarrow> r = Some (Some (Suc dst + length ys), b') \<and>
         take (Suc dst + length ys) b' = take (Suc dst) (b[dst := c]) @ ys"
    using assms(1) unfolding decoded_def by auto
  moreover have "take (Suc dst) (b[dst := c]) = take dst b @ [c]"
    using assms(2) by (simp add: take_Suc_conv_app_nth)
  ultimately show ?thesis
    using assms unfolding decoded_def
    by (intro exI [of _ b']) (auto simp: algebra_simps drop_update_cancel split: option.splits)
qed

text \<open>The branch of a percent sign, complete or not.\<close>

lemma urldecode_pct:
  assumes "src < length b" and "b ! src = CHR ''%''" and "drop (Suc src) b = cs @ NUL # rest"
    and "NUL \<notin> set cs" and "dst \<le> src"
    and IH: "\<And>cs' b'. length cs' < length cs \<Longrightarrow> drop (src + 3) b' = cs' @ NUL # rest \<Longrightarrow>
       NUL \<notin> set cs' \<Longrightarrow>
       decoded (urldecode_loop b' (src + 3) (Suc dst)) b' (src + 3) (Suc dst) cs'"
  shows "decoded (urldecode_loop b src dst) b src dst (CHR ''%'' # cs)"
proof -
  have dst: "dst < length b" using assms by simp
  obtain h r1 where h: "cs @ NUL # rest = h # r1" by (cases cs) auto
  then have b1: "Suc src < length b" "b ! Suc src = h" "drop (Suc (Suc src)) b = r1"
    using assms(3) by (auto dest: drop_eq_ConsD)
  show ?thesis
  proof (cases "hexval h")
    case None
    then have "dec (CHR ''%'' # cs) = None" using h by (cases cs) (auto split: list.splits)
    then show ?thesis
      using assms(1,2) b1 None
      by (subst urldecode_loop.simps) (auto simp: nth_opt_def decoded_def)
  next
    case (Some hv)
    then obtain cs1 where cs: "cs = h # cs1" using h by (cases cs) auto
    obtain l r2 where l: "cs1 @ NUL # rest = l # r2" by (cases cs1) auto
    have b2: "src + 2 < length b" "b ! (src + 2) = l" "drop (src + 3) b = r2"
      using b1 h l cs drop_eq_ConsD [of "Suc (Suc src)" b l r2] by (auto simp: numeral_3_eq_3)
    show ?thesis
    proof (cases "hexval l")
      case None
      then have "dec (CHR ''%'' # cs) = None"
        using l by (cases cs1) (auto simp: cs split: option.splits)
      then show ?thesis
        using assms(1,2,5) b1 b2 None Some dst
        by (subst urldecode_loop.simps) (auto simp: nth_opt_def put_def decoded_def cs)
    next
      case lv: (Some lv)
      then obtain cs2 where cs1: "cs1 = l # cs2" using l by (cases cs1) auto
      let ?b = "b[dst := char_at (hv * 16 + lv)]"
      have "decoded (urldecode_loop ?b (src + 3) (Suc dst)) ?b (src + 3) (Suc dst) cs2"
        using assms(4,5) b2(3) l by (intro IH) (auto simp: cs cs1 drop_update_cancel)
      then have "decoded (urldecode_loop ?b (src + 3) (Suc dst)) b src dst (CHR ''%'' # cs)"
        using dst assms(5) by (rule decoded_step) (auto simp: cs cs1 Some lv)
      moreover have "byte_of (char_at (hv * 16)) OR lv = hv * 16 + lv"
        using hexval_bound [OF Some] hexval_bound [OF lv] by (simp add: of_char_of hex_or)
      ultimately show ?thesis
        using assms(1,2,5) b1 b2 Some lv dst
        by (subst urldecode_loop.simps) (simp add: nth_opt_def put_def)
    qed
  qed
qed

lemma urldecode_loop_decoded:
  assumes "drop src b = xs @ NUL # rest" and "NUL \<notin> set xs" and "dst \<le> src"
  shows "decoded (urldecode_loop b src dst) b src dst xs"
  using assms
proof (induction xs arbitrary: b src dst rule: length_induct)
  case (1 xs)
  note IH = 1(1) [rule_format]
  show ?case
  proof (cases xs)
    case Nil
    with 1(2) have "src < length b" "b ! src = NUL" by (auto dest: drop_eq_ConsD)
    then show ?thesis
      by (subst urldecode_loop.simps) (auto simp: nth_opt_def decoded_def Nil)
  next
    case (Cons c cs)
    with 1(2) have src: "src < length b" "b ! src = c" "drop (Suc src) b = cs @ NUL # rest"
      by (auto dest: drop_eq_ConsD)
    have dst: "dst < length b" using src(1) 1(4) by simp
    have c: "c \<noteq> NUL" "NUL \<notin> set cs" using 1(3) Cons by auto
    show ?thesis
    proof (cases "c = CHR ''%''")
      case False
      have "decoded (urldecode_loop (b[dst := c]) (src + 1) (dst + 1)) (b[dst := c]) (src + 1)
              (Suc dst) cs"
        using IH [of cs "src + 1" "b[dst := c]" "Suc dst"] src c 1(4)
        by (simp add: Cons drop_update_cancel)
      then have "decoded (urldecode_loop (b[dst := c]) (src + 1) (dst + 1)) b src dst xs"
        using dst 1(4) by (rule decoded_step) (auto simp: Cons False)
      then show ?thesis
        using src dst c False by (subst urldecode_loop.simps) (simp add: nth_opt_def put_def)
    next
      case pct: True
      have "decoded (urldecode_loop b src dst) b src dst (CHR ''%'' # cs)"
      proof (rule urldecode_pct [OF src(1) _ src(3) c(2) 1(4)])
        show "b ! src = CHR ''%''" using src(2) pct by simp
      next
        fix cs' b'
        assume "length cs' < length cs" "drop (src + 3) b' = cs' @ NUL # rest" "NUL \<notin> set cs'"
        then show "decoded (urldecode_loop b' (src + 3) (Suc dst)) b' (src + 3) (Suc dst) cs'"
          using 1(4) by (intro IH) (auto simp: Cons)
      qed
      then show ?thesis by (simp add: Cons pct)
    qed
  qed
qed

section \<open>Decoding what was encoded\<close>

lemma is_unreserved_pct [simp]: "\<not> is_unreserved (CHR ''%'')"
  by (simp add: is_unreserved_def charflags_def RFC3986_UNRESERVED_def)

lemma is_unreserved_NUL [simp]: "\<not> is_unreserved NUL"
  by (simp add: is_unreserved_def charflags_def RFC3986_UNRESERVED_def)

lemma hexchar_not_NUL: "v < 16 \<Longrightarrow> hexchar v \<noteq> NUL"
  by (metis hexval_hexchar hexval_NUL option.distinct(1))

lemma byte_lt_256: "byte_of c < (256 :: nat)"
  by (metis of_char_of char_of_char mod_less_divisor zero_less_numeral)

lemma byte_nibbles: "byte_of c div 16 < (16 :: nat)" "byte_of c mod 16 < (16 :: nat)"
  using byte_lt_256 [of c] by (simp_all add: less_mult_imp_div_less)

lemma dec_enc1: "dec (enc1 c @ xs) = map_option ((#) c) (dec xs)"
  using byte_nibbles [of c] by (auto simp: enc1_def)

lemma dec_enc [simp]: "dec (enc s) = Some s"
  by (induction s) (simp_all add: dec_enc1)

lemma NUL_not_in_enc: "NUL \<notin> set (enc s)"
proof (induction s)
  case (Cons c s)
  then show ?case using byte_nibbles [of c] by (auto simp: enc1_def hexchar_not_NUL [symmetric])
qed simp

section \<open>Whole calls\<close>

lemma urlencode_call:
  assumes "\<forall>n. length (fresh n) = n" and "sz \<le> length s" and "3 * sz + 1 < 2 ^ 32"
  obtains t where "http_urlencode_reserved fresh s sz = Some (enc (take sz s) @ NUL # t)"
    and "length (enc (take sz s)) + length t = 3 * sz"
proof -
  obtain t' where t': "urlencode_loop s sz (of_nat 0) (of_nat (length [])) ([] @ fresh (sz * 3 + 1)) =
        Some (of_nat (length (enc (take sz s))), enc (take sz s) @ t')"
    and len: "length (enc (take sz s)) + length t' = 3 * sz + 1" and "t' \<noteq> []"
    using urlencode_loop_correct [of 0 sz s "[]" "fresh (sz * 3 + 1)"] assms
    by (auto simp: mult.commute)
  then obtain x t where t: "t' = x # t" by (cases t') auto
  have "unat (of_nat (length (enc (take sz s))) :: 32 word) = length (enc (take sz s))"
    using len assms(3) by (intro unat_of_nat32) simp
  with t' len that show thesis by (auto simp: http_urlencode_reserved_def put_ends t)
qed

lemma urldecode_call:
  assumes "NUL \<notin> set xs" and "dec xs = Some ys"
  obtains t where "http_urldecode (xs @ NUL # rest) = Some (Some (length ys), ys @ t)"
    and "length (ys @ t) = length (xs @ NUL # rest)" and "drop (length xs) (ys @ t) = NUL # rest"
proof -
  obtain b where b: "length b = length (xs @ NUL # rest)" "drop (length xs) b = NUL # rest"
    "http_urldecode (xs @ NUL # rest) = Some (Some (length ys), b)" "take (length ys) b = ys"
    using urldecode_loop_decoded [of 0 "xs @ NUL # rest" xs rest 0] assms
    by (auto simp: decoded_def http_urldecode_def)
  then have "b = ys @ drop (length ys) b" by (metis append_take_drop_id)
  with b that show thesis by metis
qed

lemma urldecode_call_None:
  assumes "NUL \<notin> set xs" and "dec xs = None"
  obtains b where "http_urldecode (xs @ NUL # rest) = Some (None, b)"
  using urldecode_loop_decoded [of 0 "xs @ NUL # rest" xs rest 0] assms
  by (auto simp: decoded_def http_urldecode_def)

section \<open>Properties\<close>

text \<open>
  C11. The encoder stays inside the \<open>sz * 3 + 1\<close> bytes it allocates (every read and write of the
  loop is in range, and the 32-bit counters do not wrap) and leaves there the percent-encoding
  of its input followed by a terminator, whatever the fresh memory held.
\<close>

theorem urlencode_reserved_correct:
  assumes "\<forall>n. length (fresh n) = n" and "sz \<le> length s" and "3 * sz + 1 < 2 ^ 32"
  shows "\<exists>t. http_urlencode_reserved fresh s sz = Some (enc (take sz s) @ NUL # t)
          \<and> length (enc (take sz s) @ NUL # t) = 3 * sz + 1"
  using urlencode_call [OF assms] by (metis Suc_eq_plus1 add_Suc_right length_Cons length_append)

theorem urlencode_reserved_correct_witness:
  "\<exists>t. http_urlencode_reserved (\<lambda>n. replicate n (CHR ''?'')) ''a b'' 3 = Some (''a%20b'' @ NUL # t)"
proof -
  have "enc (take 3 ''a b'') = ''a%20b''" by code_simp
  then show ?thesis
    using urlencode_reserved_correct [of "\<lambda>n. replicate n (CHR ''?'')" 3 "''a b''"] by auto
qed

text \<open>
  Which characters the encoder leaves alone: the letters and \<open>-._~\<close>, and nothing else (in
  particular not the decimal digits, which RFC 3986 also calls unreserved).
\<close>

theorem is_unreserved_iff:
  "is_unreserved c \<longleftrightarrow> c_isupper c \<or> c_islower c \<or> c \<in> set ''-._~''"
proof -
  let ?P = "\<lambda>n. ((charflags ! n) AND 4 \<noteq> 0) =
      (65 \<le> n \<and> n \<le> 90 \<or> 97 \<le> n \<and> n \<le> 122 \<or> n \<in> set [45, 46, 95, 126])"
  have "list_all ?P [0..<256]" by code_simp
  moreover have "byte_of c \<in> set [0..<256]" using byte_lt_256 [of c] by simp
  ultimately have "?P (byte_of c)" unfolding list_all_iff by (rule bspec)
  moreover have "byte_of c \<in> set [45, 46, 95, 126] \<longleftrightarrow> c \<in> set ''-._~''"
  proof -
    have "c \<in> set ''-._~'' \<longleftrightarrow> byte_of c \<in> byte_of ` set ''-._~''"
      by (rule byte_mem_iff)
    then show ?thesis by simp
  qed
  ultimately show ?thesis
    by (simp only: is_unreserved_def RFC3986_UNRESERVED_def c_isupper_def c_islower_def)
qed

text \<open>
  C12. The in-place decoder on a null-terminated string computes \<open>dec\<close>: it returns \<open>NULL\<close> exactly
  when some percent sign is not followed by two hexadecimal digits, and otherwise the pointer
  just past the decoded bytes, which it leaves at the front of the buffer. It never reads or
  writes outside the string and its terminator.
\<close>

theorem urldecode_correct:
  assumes "NUL \<notin> set xs"
  shows "case dec xs of
           None \<Rightarrow> \<exists>b. http_urldecode (xs @ NUL # rest) = Some (None, b)
         | Some ys \<Rightarrow> \<exists>t. http_urldecode (xs @ NUL # rest) = Some (Some (length ys), ys @ t)
             \<and> length (ys @ t) = length (xs @ NUL # rest)
             \<and> drop (length xs) (ys @ t) = NUL # rest"
proof (cases "dec xs")
  case None
  with assms obtain b where "http_urldecode (xs @ NUL # rest) = Some (None, b)"
    by (rule urldecode_call_None)
  with None show ?thesis by simp
next
  case (Some ys)
  with assms obtain t where "http_urldecode (xs @ NUL # rest) = Some (Some (length ys), ys @ t)"
    "length (ys @ t) = length (xs @ NUL # rest)" "drop (length xs) (ys @ t) = NUL # rest"
    by (rule urldecode_call)
  with Some show ?thesis by auto
qed

theorem urldecode_correct_witness:
  "\<exists>t. http_urldecode (''a%20b'' @ NUL # ''zz'') = Some (Some 3, ''a b'' @ t)"
proof -
  have "dec ''a%20b'' = Some ''a b''" by code_simp
  then show ?thesis using urldecode_correct [of "''a%20b''" "''zz''"] by auto
qed

text \<open>
  C10. Round trip: decoding the encoder's result in place gives back the input bytes, null
  bytes included, and the returned pointer is their end.
\<close>

theorem url_roundtrip:
  assumes "\<forall>n. length (fresh n) = n" and "sz \<le> length s" and "3 * sz + 1 < 2 ^ 32"
  shows "\<exists>b t. http_urlencode_reserved fresh s sz = Some b
          \<and> http_urldecode b = Some (Some sz, take sz s @ t)"
proof -
  obtain t where b: "http_urlencode_reserved fresh s sz = Some (enc (take sz s) @ NUL # t)"
    using urlencode_call [OF assms] .
  obtain t' where "http_urldecode (enc (take sz s) @ NUL # t) =
      Some (Some (length (take sz s)), take sz s @ t')"
    using urldecode_call [OF NUL_not_in_enc dec_enc] .
  with b assms(2) show ?thesis by simp
qed

theorem url_roundtrip_witness:
  "\<exists>b t. http_urlencode_reserved (\<lambda>n. replicate n NUL) [CHR ''x'', NUL, CHR ''/''] 3 = Some b
     \<and> http_urldecode b = Some (Some 3, [CHR ''x'', NUL, CHR ''/''] @ t)"
  using url_roundtrip [of "\<lambda>n. replicate n NUL" 3 "[CHR ''x'', NUL, CHR ''/'']"] by simp

end
