(* ===== verification/HttpScan.thy ===== *)
theory HttpScan
  imports CLib
begin

text \<open>
  The three scanners of src/src/mnhttp.c the parsers are built on: \<open>findcrlf\<close>, \<open>findsp\<close> and
  \<open>findnosp\<close>. Each walks a pointer from \<open>s\<close> to \<open>s + sz\<close> and returns the first position that
  matches, or \<open>NULL\<close>. What a caller may rely on is the locale \<open>scanner\<close>; its lemmas are proved
  once and reach the code through the three interpretations \<open>crlf\<close>, \<open>sp\<close> and \<open>nosp\<close>.
\<close>

section \<open>The code\<close>

definition ISSPACE :: "char \<Rightarrow> bool" where
  "ISSPACE c \<longleftrightarrow> c = SP \<or> c = TAB"

function findcrlf_loop :: "char list \<Rightarrow> int \<Rightarrow> int \<Rightarrow> int option option" where
  "findcrlf_loop m s ss =
     (if s < ss then do {
        c \<leftarrow> rd m s;
        if c = CR then
          (if s + 1 < ss then do {
             d \<leftarrow> rd m (s + 1);
             if d = LF then Some (Some s) else findcrlf_loop m (s + 1) ss
           } else findcrlf_loop m (s + 1) ss)
        else findcrlf_loop m (s + 1) ss
      } else Some None)"
  by pat_completeness auto
termination
  by (relation "measure (\<lambda>(m, s, ss). nat (ss - s))") auto

definition findcrlf :: "char list \<Rightarrow> int \<Rightarrow> int \<Rightarrow> int option option" where
  "findcrlf m s sz = findcrlf_loop m s (s + sz)"

function findsp_loop :: "char list \<Rightarrow> int \<Rightarrow> int \<Rightarrow> int option option" where
  "findsp_loop m s ss =
     (if s < ss then do {
        c \<leftarrow> rd m s;
        if ISSPACE c then Some (Some s) else findsp_loop m (s + 1) ss
      } else Some None)"
  by pat_completeness auto
termination
  by (relation "measure (\<lambda>(m, s, ss). nat (ss - s))") auto

definition findsp :: "char list \<Rightarrow> int \<Rightarrow> int \<Rightarrow> int option option" where
  "findsp m s sz = findsp_loop m s (s + sz)"

function findnosp_loop :: "char list \<Rightarrow> int \<Rightarrow> int \<Rightarrow> int option option" where
  "findnosp_loop m s ss =
     (if s < ss then do {
        c \<leftarrow> rd m s;
        if \<not> ISSPACE c then Some (Some s) else findnosp_loop m (s + 1) ss
      } else Some None)"
  by pat_completeness auto
termination
  by (relation "measure (\<lambda>(m, s, ss). nat (ss - s))") auto

definition findnosp :: "char list \<Rightarrow> int \<Rightarrow> int \<Rightarrow> int option option" where
  "findnosp m s sz = findnosp_loop m s (s + sz)"

declare findcrlf_loop.simps [simp del] findsp_loop.simps [simp del] findnosp_loop.simps [simp del]

text \<open>Whether a text holds a line end.\<close>

fun has_crlf :: "string \<Rightarrow> bool" where
  "has_crlf (c # d # cs) \<longleftrightarrow> c = CR \<and> d = LF \<or> has_crlf (d # cs)"
| "has_crlf _ \<longleftrightarrow> False"

section \<open>The contract of a scanner\<close>

text \<open>
  \<open>hit m ss i\<close> says that position \<open>i\<close> matches when the scan ends at \<open>ss\<close>. A scanner of a range
  inside the memory returns the first match, and does not fail.
\<close>

locale scanner =
  fixes find :: "char list \<Rightarrow> int \<Rightarrow> int \<Rightarrow> int option option"
    and hit :: "char list \<Rightarrow> int \<Rightarrow> int \<Rightarrow> bool"
  assumes empty_range: "sz \<le> 0 \<Longrightarrow> find m s sz = Some None"
    and at_hit: "0 \<le> s \<Longrightarrow> 0 < sz \<Longrightarrow> s + sz \<le> int (length m) \<Longrightarrow> hit m (s + sz) s \<Longrightarrow>
      find m s sz = Some (Some s)"
    and past_miss: "0 \<le> s \<Longrightarrow> 0 < sz \<Longrightarrow> s + sz \<le> int (length m) \<Longrightarrow> \<not> hit m (s + sz) s \<Longrightarrow>
      find m s sz = find m (s + 1) (sz - 1)"
begin

lemma find_first:
  assumes "0 \<le> s" and "s + sz \<le> int (length m)"
    and "s \<le> i" and "i < s + sz" and "hit m (s + sz) i"
    and "\<And>j. s \<le> j \<Longrightarrow> j < i \<Longrightarrow> \<not> hit m (s + sz) j"
  shows "find m s sz = Some (Some i)"
  using assms
proof (induction "nat (i - s)" arbitrary: s sz)
  case 0
  then have "i = s" by simp
  with 0 show ?case using at_hit [of s sz m] by simp
next
  case (Suc n)
  then have "s < i" by simp
  then have "find m s sz = find m (s + 1) (sz - 1)"
    using Suc.prems by (intro past_miss) auto
  also have "\<dots> = Some (Some i)"
    using Suc.hyps(2) Suc.prems \<open>s < i\<close> by (intro Suc.hyps(1)) auto
  finally show ?case .
qed

lemma find_none:
  assumes "0 \<le> s" and "s + sz \<le> int (length m)"
    and "\<And>j. s \<le> j \<Longrightarrow> j < s + sz \<Longrightarrow> \<not> hit m (s + sz) j"
  shows "find m s sz = Some None"
  using assms
proof (induction "nat sz" arbitrary: s sz)
  case 0
  then show ?case by (intro empty_range) simp
next
  case (Suc n)
  then have "0 < sz" by simp
  then have "find m s sz = find m (s + 1) (sz - 1)"
    using Suc.prems by (intro past_miss) auto
  also have "\<dots> = Some None"
    using Suc.hyps(2) Suc.prems \<open>0 < sz\<close> by (intro Suc.hyps(1)) auto
  finally show ?case .
qed

text \<open>Inside the memory a scan is defined, and its result is a match in the range, or none.\<close>

lemma find_defined:
  assumes "0 \<le> s" and "s + sz \<le> int (length m)"
  shows "\<exists>r. find m s sz = Some r"
  using assms
proof (induction "nat sz" arbitrary: s sz)
  case 0
  then show ?case using empty_range [of sz m s] by auto
next
  case (Suc n)
  then have "0 < sz" by simp
  show ?case
  proof (cases "hit m (s + sz) s")
    case True
    then show ?thesis using at_hit Suc.prems \<open>0 < sz\<close> by blast
  next
    case False
    then have "find m s sz = find m (s + 1) (sz - 1)"
      using Suc.prems \<open>0 < sz\<close> by (intro past_miss) auto
    moreover have "\<exists>r. find m (s + 1) (sz - 1) = Some r"
      using Suc.hyps(2) Suc.prems \<open>0 < sz\<close> by (intro Suc.hyps(1)) auto
    ultimately show ?thesis by simp
  qed
qed

lemma find_SomeD:
  assumes "0 \<le> s" and "s + sz \<le> int (length m)" and "find m s sz = Some (Some i)"
  shows "s \<le> i \<and> i < s + sz \<and> hit m (s + sz) i \<and> (\<forall>j. s \<le> j \<and> j < i \<longrightarrow> \<not> hit m (s + sz) j)"
  using assms
proof (induction "nat sz" arbitrary: s sz)
  case 0
  then show ?case using empty_range [of sz m s] by simp
next
  case (Suc n)
  then have "0 < sz" by simp
  show ?case
  proof (cases "hit m (s + sz) s")
    case True
    then show ?thesis using at_hit [of s sz m] Suc.prems \<open>0 < sz\<close> by auto
  next
    case False
    have "find m (s + 1) (sz - 1) = Some (Some i)"
      using past_miss [of s sz m] Suc.prems \<open>0 < sz\<close> False by simp
    then have "s + 1 \<le> i \<and> i < s + 1 + (sz - 1) \<and> hit m (s + 1 + (sz - 1)) i \<and>
        (\<forall>j. s + 1 \<le> j \<and> j < i \<longrightarrow> \<not> hit m (s + 1 + (sz - 1)) j)"
      using Suc.hyps(2) Suc.prems \<open>0 < sz\<close> by (intro Suc.hyps(1)) auto
    moreover have "s + 1 \<le> j" if "s \<le> j" "j \<noteq> s" for j using that by simp
    ultimately show ?thesis using False by (auto, metis)
  qed
qed

lemma find_NoneD:
  assumes "0 \<le> s" and "s + sz \<le> int (length m)" and "find m s sz = Some None"
    and "s \<le> j" and "j < s + sz"
  shows "\<not> hit m (s + sz) j"
  using assms
proof (induction "nat sz" arbitrary: s sz)
  case (Suc n)
  have "0 < sz" using Suc.hyps(2) by simp
  have "\<not> hit m (s + sz) s"
    using at_hit [of s sz m] Suc.prems \<open>0 < sz\<close> by auto
  moreover have "\<not> hit m (s + 1 + (sz - 1)) j" if "j \<noteq> s"
    using past_miss [of s sz m] Suc.hyps(2) Suc.prems \<open>0 < sz\<close> calculation that
    by (intro Suc.hyps(1)) auto
  ultimately show ?case by (cases "j = s") auto
qed simp

end

section \<open>The scanners meet it\<close>

abbreviation crlf_hit :: "char list \<Rightarrow> int \<Rightarrow> int \<Rightarrow> bool" where
  "crlf_hit m ss i \<equiv> m ! nat i = CR \<and> i + 1 < ss \<and> m ! nat (i + 1) = LF"

interpretation crlf: scanner findcrlf crlf_hit
  by unfold_locales (auto simp: findcrlf_def mem_simps findcrlf_loop.simps [of _ s for s] split: if_splits)

interpretation sp: scanner findsp "\<lambda>m ss i. ISSPACE (m ! nat i)"
  by unfold_locales (auto simp: findsp_def mem_simps findsp_loop.simps [of _ s for s])

interpretation nosp: scanner findnosp "\<lambda>m ss i. \<not> ISSPACE (m ! nat i)"
  by unfold_locales (auto simp: findnosp_def mem_simps findnosp_loop.simps [of _ s for s])

section \<open>Scanning a known layout\<close>

lemma has_crlf_iff:
  "has_crlf xs \<longleftrightarrow> (\<exists>i. Suc i < length xs \<and> xs ! i = CR \<and> xs ! Suc i = LF)"
proof (induction xs rule: has_crlf.induct)
  case (1 c d cs)
  have "(\<exists>i. Suc i < length (c # d # cs) \<and> (c # d # cs) ! i = CR \<and> (c # d # cs) ! Suc i = LF)
      \<longleftrightarrow> c = CR \<and> d = LF \<or>
        (\<exists>i. Suc i < length (d # cs) \<and> (d # cs) ! i = CR \<and> (d # cs) ! Suc i = LF)"
    (is "?l \<longleftrightarrow> ?r")
  proof
    assume ?l
    then obtain i where "Suc i < length (c # d # cs)" "(c # d # cs) ! i = CR"
      "(c # d # cs) ! Suc i = LF" by auto
    then show ?r by (cases i) auto
  qed (auto intro: exI [of _ 0] exI [of _ "Suc i" for i])
  with 1 show ?case by simp
qed auto

lemma not_has_crlf_if: "CR \<notin> set xs \<or> LF \<notin> set xs \<Longrightarrow> \<not> has_crlf xs"
  by (auto simp: has_crlf_iff in_set_conv_nth)

text \<open>Positions of the memory counted from a pointer.\<close>

lemma nth_from: "0 \<le> s \<Longrightarrow> nat s \<le> length m \<Longrightarrow> m ! nat (s + int k) = drop (nat s) m ! k"
  by (simp add: nat_add_distrib)

lemma int_rangeE:
  assumes "(s :: int) \<le> j" and "j < s + int n" obtains k where "j = s + int k" and "k < n"
  using assms that [of "nat (j - s)"] by auto

lemma findcrlf_layout [scan_simps]:
  assumes "0 \<le> s" and "drop (nat s) m = xs @ CR # LF # ys" and "\<not> has_crlf xs"
    and "int (length xs) + 2 \<le> sz" and "s + sz \<le> int (length m)"
  shows "findcrlf m s sz = Some (Some (s + int (length xs)))"
proof (rule crlf.find_first)
  have s: "nat s \<le> length m" using assms(4,5) by linarith
  note at = nth_from [OF assms(1) s, unfolded assms(2)]
  show "crlf_hit m (s + sz) (s + int (length xs))"
    using assms(4) at [of "length xs"] at [of "Suc (length xs)"]
    by (simp add: nth_append add.assoc) (simp add: add.commute)
  fix j assume "s \<le> j" and "j < s + int (length xs)"
  then obtain k where k: "j = s + int k" "k < length xs" by (rule int_rangeE)
  have "xs ! k \<noteq> CR \<or> (xs @ CR # LF # ys) ! Suc k \<noteq> LF"
    using assms(3) k(2) by (cases "Suc k < length xs") (auto simp: has_crlf_iff nth_append not_less less_Suc_eq)
  moreover have "m ! nat (j + 1) = (xs @ CR # LF # ys) ! Suc k"
    using at [of "Suc k"] k(1) by (simp add: algebra_simps)
  moreover have "m ! nat j = xs ! k" using at [of k] k by (simp add: nth_append)
  ultimately show "\<not> crlf_hit m (s + sz) j" by auto
qed (use assms in auto)

lemma findsp_layout [scan_simps]:
  assumes "0 \<le> s" and "drop (nat s) m = xs @ c # ys" and "list_all (\<lambda>x. \<not> ISSPACE x) xs"
    and "ISSPACE c" and "int (length xs) < sz" and "s + sz \<le> int (length m)"
  shows "findsp m s sz = Some (Some (s + int (length xs)))"
proof (rule sp.find_first)
  have s: "nat s \<le> length m" using assms(5,6) by linarith
  note at = nth_from [OF assms(1) s, unfolded assms(2)]
  show "ISSPACE (m ! nat (s + int (length xs)))" using assms(4) at [of "length xs"] by simp
  fix j assume "s \<le> j" and "j < s + int (length xs)"
  then obtain k where "j = s + int k" "k < length xs" by (rule int_rangeE)
  then show "\<not> ISSPACE (m ! nat j)"
    using at [of k] assms(3) by (simp add: nth_append list_all_length)
qed (use assms in auto)

lemma findnosp_layout [scan_simps]:
  assumes "0 \<le> s" and "drop (nat s) m = xs @ c # ys" and "list_all ISSPACE xs"
    and "\<not> ISSPACE c" and "int (length xs) < sz" and "s + sz \<le> int (length m)"
  shows "findnosp m s sz = Some (Some (s + int (length xs)))"
proof (rule nosp.find_first)
  have s: "nat s \<le> length m" using assms(5,6) by linarith
  note at = nth_from [OF assms(1) s, unfolded assms(2)]
  show "\<not> ISSPACE (m ! nat (s + int (length xs)))" using assms(4) at [of "length xs"] by simp
  fix j assume "s \<le> j" and "j < s + int (length xs)"
  then obtain k where "j = s + int k" "k < length xs" by (rule int_rangeE)
  then show "\<not> (\<not> ISSPACE (m ! nat j))"
    using at [of k] assms(3) by (simp add: nth_append list_all_length)
qed (use assms in auto)

end
