(* ===== verification/HttpCtx.thy ===== *)
theory HttpCtx
  imports HttpScan
begin

text \<open>
  The data the HTTP parser of src/src/mnhttp.c works on: the parsing context \<open>mnhttp_ctx_t\<close>, the
  byte stream it reads, the result codes, and the operations of the libraries \<open>mncommon\<close> and
  libc whose code is not part of the program, gathered in the record \<open>bs_env\<close> that the parser
  takes as an argument.
\<close>

section \<open>Result codes\<close>

text \<open>
  The diagnostic bases of src/src/diag.txt. Their numbers are generated at build time; a code
  \<open>HTTP_PARSE_MESSAGE + 9\<close> is \<open>ERR HTTP_PARSE_MESSAGE 9\<close>, distinct from 0 and from the parser's
  own negative results, which are \<open>RC\<close>.
\<close>

datatype diag =
    HTTP_ADD_BODY | MNAPP_TCP_SERVER_START | HTTP_ADD_HEADER_FIELD | HTTP_END_OF_HEADER
  | HTTP_PARSE_MESSAGE | HTTP_START_REQUEST | HTTP_START_RESPONSE
  | MNHTTPC_CONNECTION_CONNECT | PROCESS_BODY | MNHTTPC_REQUEST_FINALIZE
  | MNCOMMAND_CTX_GETOPT | MNCOMMAND_CTX_ADD_CMD | MNCOMMAND_CTX_INIT

datatype res = RC int | ERR diag nat

abbreviation (input) MNHTTP_PARSE_EOF :: int where "MNHTTP_PARSE_EOF \<equiv> -1"
abbreviation (input) MNHTTP_PARSE_NEED_MORE :: int where "MNHTTP_PARSE_NEED_MORE \<equiv> -2"
abbreviation (input) MNHTTP_PARSE_EOD :: int where "MNHTTP_PARSE_EOD \<equiv> -3"
abbreviation (input) MNHTTP_PARSE_EMPTY :: int where "MNHTTP_PARSE_EMPTY \<equiv> -4"
abbreviation (input) MNHTTP_PARSE_CONSUME_DATA_ERROR :: int where "MNHTTP_PARSE_CONSUME_DATA_ERROR \<equiv> -5"

section \<open>Methods\<close>

abbreviation (input) MNHTTP_MOPTIONS :: int where "MNHTTP_MOPTIONS \<equiv> 1"
abbreviation (input) MNHTTP_MGET :: int where "MNHTTP_MGET \<equiv> 2"
abbreviation (input) MNHTTP_MHEAD :: int where "MNHTTP_MHEAD \<equiv> 3"
abbreviation (input) MNHTTP_MPOST :: int where "MNHTTP_MPOST \<equiv> 4"
abbreviation (input) MNHTTP_MPUT :: int where "MNHTTP_MPUT \<equiv> 5"
abbreviation (input) MNHTTP_MDELETE :: int where "MNHTTP_MDELETE \<equiv> 6"
abbreviation (input) MNHTTP_MTRACE :: int where "MNHTTP_MTRACE \<equiv> 7"
abbreviation (input) MNHTTP_MCONNECT :: int where "MNHTTP_MCONNECT \<equiv> 8"
abbreviation (input) MNHTTP_MPATCH :: int where "MNHTTP_MPATCH \<equiv> 9"
abbreviation (input) MNHTTP_MEXT :: int where "MNHTTP_MEXT \<equiv> 10"

definition MNHTTP_MSTR :: "int \<Rightarrow> string" where
  "MNHTTP_MSTR m =
     (if m = MNHTTP_MOPTIONS then ''OPTIONS'' else
      if m = MNHTTP_MGET then ''GET'' else
      if m = MNHTTP_MHEAD then ''HEAD'' else
      if m = MNHTTP_MPOST then ''POST'' else
      if m = MNHTTP_MPUT then ''PUT'' else
      if m = MNHTTP_MDELETE then ''DELETE'' else
      if m = MNHTTP_MTRACE then ''TRACE'' else
      if m = MNHTTP_MCONNECT then ''CONNECT'' else
      if m = MNHTTP_MPATCH then ''PATCH'' else ''<ext>'')"

section \<open>The parsing context\<close>

abbreviation (input) PS_START :: int where "PS_START \<equiv> 1"
abbreviation (input) PS_LINE :: int where "PS_LINE \<equiv> 2"
abbreviation (input) PS_HEADER_FIELD_IN :: int where "PS_HEADER_FIELD_IN \<equiv> 3"
abbreviation (input) PS_HEADER_FIELD_OUT :: int where "PS_HEADER_FIELD_OUT \<equiv> 4"
abbreviation (input) PS_BODY_IN :: int where "PS_BODY_IN \<equiv> 5"
abbreviation (input) PS_BODY :: int where "PS_BODY \<equiv> 6"

abbreviation (input) PS_CHUNK_SIZE :: int where "PS_CHUNK_SIZE \<equiv> 1"
abbreviation (input) PS_CHUNK_DATA :: int where "PS_CHUNK_DATA \<equiv> 2"

text \<open>A \<open>byterange_t\<close>: offsets into the stream's buffer.\<close>

record byterange =
  br_start :: int
  br_end :: int

text \<open>
  \<open>code\<close> is the union of \<open>status\<close> and \<open>method\<close>; \<open>chunked\<close> is the bit \<open>PS_FLAG_CHUNKED\<close> of \<open>flags\<close>,
  the only one the code uses; \<open>ctx_udata\<close> is an address the parser never looks at.
\<close>

record mnhttp_ctx =
  parser_state :: int
  chunk_parser_state :: int
  first_line :: byterange
  version_major :: int
  version_minor :: int
  code :: int
  request_uri :: "string option"
  bodysz :: int
  current_header_name :: byterange
  current_header_value :: byterange
  chunked :: bool
  body :: byterange
  current_chunk_size :: int
  current_chunk :: byterange
  ctx_udata :: "nat option"

definition no_range :: byterange where
  "no_range = \<lparr>br_start = 0, br_end = 0\<rparr>"

definition http_ctx_init :: mnhttp_ctx where
  "http_ctx_init = \<lparr>
     parser_state = PS_START,
     chunk_parser_state = 0,
     first_line = no_range,
     version_major = 0,
     version_minor = 0,
     code = 0,
     request_uri = None,
     bodysz = -1,
     current_header_name = no_range,
     current_header_value = no_range,
     chunked = False,
     body = no_range,
     current_chunk_size = 0,
     current_chunk = no_range,
     ctx_udata = None\<rparr>"

text \<open>\<open>http_ctx_fini\<close> frees the request URI, if there is one, and initialises the context again.\<close>

definition http_ctx_fini :: "mnhttp_ctx \<Rightarrow> string option \<times> mnhttp_ctx" where
  "http_ctx_fini ctx = (request_uri ctx, http_ctx_init)"

text \<open>A failed \<open>malloc\<close> ends the program (\<open>FAIL\<close>).\<close>

definition http_ctx_new :: "bool \<Rightarrow> mnhttp_ctx option" where
  "http_ctx_new malloc_ok = (if malloc_ok then Some http_ctx_init else None)"

text \<open>\<open>http_ctx_destroy\<close> on a pointer that may be \<open>NULL\<close>: what is freed, and the pointer afterwards.\<close>

definition http_ctx_destroy :: "mnhttp_ctx option \<Rightarrow> string option \<times> mnhttp_ctx option" where
  "http_ctx_destroy ctx = (case ctx of None \<Rightarrow> (None, None) | Some c \<Rightarrow> (fst (http_ctx_fini c), None))"

definition mnhttp_ctx_last_chunk :: "mnhttp_ctx \<Rightarrow> bool" where
  "mnhttp_ctx_last_chunk ctx \<longleftrightarrow> current_chunk_size ctx = 0"

section \<open>The byte stream\<close>

text \<open>
  An \<open>mnbytestream_t\<close> as the program's code uses it: \<open>buf.data\<close> (the bytes and the address
  they are at), the end of the data \<open>eod\<close> and the read position \<open>pos\<close>. The macros \<open>SDATA\<close>, \<open>SPDATA\<close>,
  \<open>SPOS\<close>, \<open>SEOD\<close>, \<open>SADVANCEPOS\<close> and \<open>SDPOS\<close> convert between offsets and pointers into \<open>buf.data\<close>
  and move \<open>pos\<close>; here a pointer is its offset.
\<close>

record bytestream =
  sbuf :: "char list"
  saddr :: int
  seod :: int
  spos :: int

text \<open>\<open>SDPOS(in, p)\<close>: the offset of a pointer, that of \<open>NULL\<close> being minus the buffer's address.\<close>

definition SDPOS :: "bytestream \<Rightarrow> int option \<Rightarrow> int" where
  "SDPOS b p = (case p of None \<Rightarrow> - saddr b | Some i \<Rightarrow> i)"

text \<open>
  What the parser calls of the libraries, with \<open>'w\<close> the state of what the stream reads from:
  \<open>SNEEDMORE\<close>, \<open>bytestream_consume_data\<close> and \<open>bytestream_recycle\<close>, and whether \<open>strtol\<close> sets
  \<open>EINVAL\<close> when it converts nothing.
\<close>

record 'w bs_env =
  SNEEDMORE :: "bytestream \<Rightarrow> bool"
  bytestream_consume_data ::
    "bytestream \<Rightarrow> 'w \<Rightarrow> c_errno \<Rightarrow> int \<times> bytestream \<times> 'w \<times> c_errno"
  bytestream_recycle :: "bytestream \<Rightarrow> int \<Rightarrow> int \<Rightarrow> int \<times> bytestream"
  strtol_einval :: bool

text \<open>A user callback: it gets the context, the stream and the user data, and may change them.\<close>

type_synonym 'u mnhttp_cb =
  "mnhttp_ctx \<Rightarrow> bytestream \<Rightarrow> 'u \<Rightarrow> int \<times> mnhttp_ctx \<times> bytestream \<times> 'u"

text \<open>A line parser, \<open>parse_request_line\<close> or \<open>parse_status_line\<close>, with \<open>errno\<close> as it finds and leaves it.\<close>

type_synonym line_parser =
  "mnhttp_ctx \<Rightarrow> bytestream \<Rightarrow> c_errno \<Rightarrow> (res \<times> mnhttp_ctx \<times> bytestream \<times> c_errno) option"

text \<open>The state of one call of \<open>_http_parse_message\<close>.\<close>

record ('w, 'u) mstate =
  m_ctx :: mnhttp_ctx
  m_in :: bytestream
  m_errno :: c_errno
  m_fd :: 'w
  m_udata :: 'u

end
