(* ===== verification/HttpParse.thy ===== *)
theory HttpParse
  imports HttpCtx
begin

text \<open>
  The parser of src/src/mnhttp.c: \<open>process_header\<close>, \<open>recycle_stream_buffer\<close>, \<open>process_body\<close>,
  \<open>parse_method\<close>, the two line parsers, and the loop of \<open>_http_parse_message\<close> as a step function
  (one round of the \<open>while\<close>) run by \<open>run_steps\<close>. This theory holds the model; the theories
  HttpLine, HttpBody and HttpMessage prove its properties.
\<close>

section \<open>Headers\<close>

definition process_header ::
  "'w bs_env \<Rightarrow> mnhttp_ctx \<Rightarrow> bytestream \<Rightarrow> c_errno \<Rightarrow> (res \<times> mnhttp_ctx \<times> c_errno) option" where
  "process_header env ctx b e = do {
     name \<leftarrow> mem_from (sbuf b) (br_start (current_header_name ctx));
     is_cl \<leftarrow> strcasecmp_eq name ''content-length'';
     if is_cl then do {
       val \<leftarrow> mem_from (sbuf b) (br_start (current_header_value ctx));
       (v, n, cv) \<leftarrow> strtol 10 val;
       Some (RC MNHTTP_PARSE_NEED_MORE, ctx\<lparr>bodysz := c_int v\<rparr>,
             strtol_errno (strtol_einval env) cv e)
     } else do {
       is_te \<leftarrow> strcasecmp_eq name ''transfer-encoding'';
       if is_te then do {
         val \<leftarrow> mem_from (sbuf b) (br_start (current_header_value ctx));
         is_chunked \<leftarrow> strcmp_eq val ''chunked'';
         Some (RC MNHTTP_PARSE_NEED_MORE,
               (if is_chunked
                then ctx\<lparr>chunked := True, chunk_parser_state := PS_CHUNK_SIZE, bodysz := 0\<rparr>
                else ctx), e)
       } else Some (RC MNHTTP_PARSE_NEED_MORE, ctx, e)
     }
   }"

section \<open>The body\<close>

definition recycle_stream_buffer ::
  "'w bs_env \<Rightarrow> mnhttp_ctx \<Rightarrow> bytestream \<Rightarrow> mnhttp_ctx \<times> bytestream" where
  "recycle_stream_buffer env ctx b =
     (let ctx1 = ctx\<lparr>first_line := no_range, current_header_name := no_range,
                     current_header_value := no_range, body := no_range\<rparr>;
          (recycled, b1) = bytestream_recycle env b 512 (br_start (current_chunk ctx1));
          cc = current_chunk ctx1
      in (ctx1\<lparr>current_chunk := \<lparr>br_start = br_start cc - recycled, br_end = br_end cc - recycled\<rparr>\<rparr>,
          b1))"

text \<open>A callback that may be \<open>NULL\<close>.\<close>

definition call_cb ::
  "'u mnhttp_cb option \<Rightarrow> mnhttp_ctx \<Rightarrow> bytestream \<Rightarrow> 'u \<Rightarrow> int \<times> mnhttp_ctx \<times> bytestream \<times> 'u" where
  "call_cb cb ctx b u = (case cb of None \<Rightarrow> (0, ctx, b, u) | Some f \<Rightarrow> f ctx b u)"

text \<open>\<open>ctx->bodysz += n\<close> on \<open>int\<close>: signed overflow is undefined.\<close>

definition add_int :: "int \<Rightarrow> int \<Rightarrow> int option" where
  "add_int a b = (if int_ok (a + b) then Some (a + b) else None)"

type_synonym 'u body_result = "(res \<times> mnhttp_ctx \<times> bytestream \<times> 'u \<times> c_errno) option"

definition process_chunk_size ::
  "'w bs_env \<Rightarrow> mnhttp_ctx \<Rightarrow> bytestream \<Rightarrow> 'u \<Rightarrow> c_errno \<Rightarrow> 'u body_result" where
  "process_chunk_size env ctx b u e = (let start = br_start (current_chunk ctx) in do {
     r \<leftarrow> findcrlf (sbuf b) start (c_int (seod b - start));
     case r of
       None \<Rightarrow> Some (RC MNHTTP_PARSE_NEED_MORE, ctx, b\<lparr>spos := seod b\<rparr>, u, e)
     | Some end \<Rightarrow> do {
         m \<leftarrow> mem_from (sbuf b) start;
         (v, n, cv) \<leftarrow> strtol 16 m;
         bsz \<leftarrow> add_int (bodysz ctx) (c_int v);
         let e1 = strtol_errno (strtol_einval env) cv e;
         let ctx1 = ctx\<lparr>current_chunk_size := c_int v, bodysz := bsz\<rparr>;
         if start + int n \<noteq> end \<or> c_int v < 0 then Some (ERR PROCESS_BODY 1, ctx1, b, u, e1)
         else Some (RC MNHTTP_PARSE_NEED_MORE,
                    ctx1\<lparr>current_chunk := \<lparr>br_start = end + 2, br_end = end + 2\<rparr>,
                         chunk_parser_state := PS_CHUNK_DATA\<rparr>,
                    b\<lparr>spos := end + 2\<rparr>, u, e1)
       }
   })"

definition process_chunk_data ::
  "'w bs_env \<Rightarrow> 'u mnhttp_cb option \<Rightarrow> mnhttp_ctx \<Rightarrow> bytestream \<Rightarrow> 'u \<Rightarrow> c_errno \<Rightarrow> 'u body_result" where
  "process_chunk_data env body_cb ctx b u e =
     (let cc = current_chunk ctx;
          needed = c_int (current_chunk_size ctx - (br_end cc - br_start cc));
          navail = c_int (seod b - spos b)
      in if needed > 0 then
           (let incr = min needed navail
            in Some (RC MNHTTP_PARSE_NEED_MORE,
                     ctx\<lparr>current_chunk := cc\<lparr>br_end := br_end cc + incr\<rparr>\<rparr>,
                     b\<lparr>spos := spos b + incr\<rparr>, u, e))
         else
           (case call_cb body_cb ctx b u of (r, ctx1, b1, u1) \<Rightarrow>
              if r \<noteq> 0 then Some (ERR PROCESS_BODY 2, ctx1, b1, u1, e)
              else
                (let p = spos b1 + 2;
                     (ctx2, b2) = recycle_stream_buffer env
                       (ctx1\<lparr>chunk_parser_state := PS_CHUNK_SIZE,
                             current_chunk := \<lparr>br_start = p, br_end = p\<rparr>\<rparr>)
                       (b1\<lparr>spos := p\<rparr>)
                 in Some (if current_chunk_size ctx1 > 0 then RC MNHTTP_PARSE_NEED_MORE else RC 0,
                          ctx2, b2, u1, e))))"

definition process_plain_body ::
  "'w bs_env \<Rightarrow> 'u mnhttp_cb option \<Rightarrow> mnhttp_ctx \<Rightarrow> bytestream \<Rightarrow> 'u \<Rightarrow> c_errno \<Rightarrow> 'u body_result" where
  "process_plain_body env body_cb ctx b u e =
     (let bd = body ctx;
          navail = seod b - spos b;
          needed = bodysz ctx - (br_end bd - br_start bd);
          incr = min navail needed;
          bend = br_end bd + incr;
          ctx1 = ctx\<lparr>body := bd\<lparr>br_end := bend\<rparr>,
                     current_chunk := (current_chunk ctx)\<lparr>br_end := bend\<rparr>\<rparr>;
          b1 = b\<lparr>spos := spos b + incr\<rparr>
      in if bend - br_start bd < bodysz ctx
         then Some (RC MNHTTP_PARSE_NEED_MORE, ctx1, b1, u, e)
         else
           (case call_cb body_cb ctx1 b1 u of (r, ctx2, b2, u2) \<Rightarrow>
              if r \<noteq> 0 then Some (ERR PROCESS_BODY 3, ctx2, b2, u2, e)
              else (let (ctx3, b3) = recycle_stream_buffer env ctx2 b2
                    in Some (RC 0, ctx3, b3, u2, e))))"

definition process_body ::
  "'w bs_env \<Rightarrow> 'u mnhttp_cb option \<Rightarrow> mnhttp_ctx \<Rightarrow> bytestream \<Rightarrow> 'u \<Rightarrow> c_errno \<Rightarrow> 'u body_result" where
  "process_body env body_cb ctx b u e =
     (if chunked ctx then
        (if chunk_parser_state ctx = PS_CHUNK_SIZE then process_chunk_size env ctx b u e
         else if chunk_parser_state ctx = PS_CHUNK_DATA
         then process_chunk_data env body_cb ctx b u e
         else Some (ERR PROCESS_BODY 4, ctx, b, u, e))
      else process_plain_body env body_cb ctx b u e)"

section \<open>The first line\<close>

definition parse_method :: "char list \<Rightarrow> nat \<Rightarrow> int option" where
  "parse_method s sz = do {
     get \<leftarrow> strncasecmp_eq s ''GET'' sz;
     if get then Some MNHTTP_MGET else do {
     head \<leftarrow> strncasecmp_eq s ''HEAD'' sz;
     if head then Some MNHTTP_MHEAD else do {
     post \<leftarrow> strncasecmp_eq s ''POST'' sz;
     if post then Some MNHTTP_MPOST else do {
     pt \<leftarrow> strncasecmp_eq s ''PUT'' sz;
     if pt then Some MNHTTP_MPUT else do {
     del \<leftarrow> strncasecmp_eq s ''DELETE'' sz;
     if del then Some MNHTTP_MDELETE else do {
     opt \<leftarrow> strncasecmp_eq s ''OPTIONS'' sz;
     if opt then Some MNHTTP_MOPTIONS else do {
     con \<leftarrow> strncasecmp_eq s ''CONNECT'' sz;
     if con then Some MNHTTP_MCONNECT else do {
     tr \<leftarrow> strncasecmp_eq s ''TRACE'' sz;
     if tr then Some MNHTTP_MTRACE
     else if sz = 0 then Some (-1)
     else Some MNHTTP_MEXT
   }}}}}}}}"

text \<open>
  The part the two line parsers share: the protocol name and the version numbers, from \<open>tmp\<close>.
  \<open>Inl\<close> is the error returned, \<open>Inr\<close> the pointer after the version.
\<close>

definition parse_version ::
  "'w bs_env \<Rightarrow> mnhttp_ctx \<Rightarrow> char list \<Rightarrow> int \<Rightarrow> c_errno \<Rightarrow> ((res + int) \<times> mnhttp_ctx \<times> c_errno) option" where
  "parse_version env ctx m tmp e = do {
     m0 \<leftarrow> mem_from m tmp;
     http \<leftarrow> strncasecmp_eq m0 ''HTTP/'' 5;
     if \<not> http then Some (Inl (ERR HTTP_PARSE_MESSAGE 2), ctx, e) else do {
     m1 \<leftarrow> mem_from m (tmp + 5);
     (v, n, cv) \<leftarrow> strtol 10 m1;
     let e1 = strtol_errno (strtol_einval env) cv e;
     let ctx1 = ctx\<lparr>version_major := c_int v\<rparr>;
     if c_int v = 0 \<and> (e1 = EINVAL \<or> e1 = ERANGE)
     then Some (Inl (ERR HTTP_PARSE_MESSAGE 3), ctx1, e1) else do {
     dot \<leftarrow> rd m (tmp + 5 + int n);
     if dot \<noteq> CHR ''.'' then Some (Inl (ERR HTTP_PARSE_MESSAGE 4), ctx1, e1) else do {
     m2 \<leftarrow> mem_from m (tmp + 5 + int n + 1);
     (v', n', cv') \<leftarrow> strtol 10 m2;
     let e2 = strtol_errno (strtol_einval env) cv' e1;
     let ctx2 = ctx1\<lparr>version_minor := c_int v'\<rparr>;
     if c_int v' = 0 \<and> (e2 = EINVAL \<or> e2 = ERANGE)
     then Some (Inl (ERR HTTP_PARSE_MESSAGE 5), ctx2, e2)
     else Some (Inr (tmp + 5 + int n + 1 + int n'), ctx2, e2)
   }}}}"

text \<open>Leaving a line parser for the header section: the position moves past the line end.\<close>

definition line_done :: "mnhttp_ctx \<Rightarrow> bytestream \<Rightarrow> int \<Rightarrow> c_errno \<Rightarrow> res \<times> mnhttp_ctx \<times> bytestream \<times> c_errno" where
  "line_done ctx b end e =
     (RC 0, ctx\<lparr>parser_state := PS_HEADER_FIELD_IN\<rparr>, b\<lparr>spos := end + 2\<rparr>, e)"

definition parse_request_line :: "'w bs_env \<Rightarrow> line_parser" where
  "parse_request_line env ctx b e = (let m = sbuf b; start = br_start (first_line ctx) in do {
     r \<leftarrow> findcrlf m start (c_int (seod b - start));
     case r of
       None \<Rightarrow> Some (RC MNHTTP_PARSE_NEED_MORE, ctx, b\<lparr>spos := seod b\<rparr>, e)
     | Some end \<Rightarrow> (let ctx1 = ctx\<lparr>first_line := (first_line ctx)\<lparr>br_end := end\<rparr>\<rparr> in do {
     r1 \<leftarrow> findsp m start (c_int (end - start));
     case r1 of
       None \<Rightarrow> Some (ERR HTTP_PARSE_MESSAGE 1, ctx1, b, e)
     | Some t1 \<Rightarrow> do {
     m0 \<leftarrow> mem_from m start;
     meth \<leftarrow> parse_method m0 (nat (t1 - start));
     let ctx2 = ctx1\<lparr>code := meth\<rparr>;
     if meth < 0 then Some (ERR HTTP_PARSE_MESSAGE 1, ctx2, b, e) else do {
     r2 \<leftarrow> findnosp m t1 (c_int (end - start - (t1 - start)));
     case r2 of
       None \<Rightarrow> Some (ERR HTTP_PARSE_MESSAGE 1, ctx2, b, e)
     | Some t2 \<Rightarrow> do {
     r3 \<leftarrow> findsp m t2 (c_int (end - start - (t2 - start)));
     case r3 of
       None \<Rightarrow> Some (ERR HTTP_PARSE_MESSAGE 1, ctx2, b, e)
     | Some t3 \<Rightarrow> (let ctx3 = ctx2\<lparr>request_uri := Some (take (nat (t3 - t2)) (drop (nat t2) m))\<rparr> in do {
     r4 \<leftarrow> findnosp m t3 (c_int (end - start - (t3 - start)));
     case r4 of
       None \<Rightarrow> Some (ERR HTTP_PARSE_MESSAGE 1, ctx3, b, e)
     | Some t4 \<Rightarrow> do {
     (v, ctx4, e4) \<leftarrow> parse_version env ctx3 m t4 e;
     case v of
       Inl err \<Rightarrow> Some (err, ctx4, b, e4)
     | Inr t5 \<Rightarrow> Some (line_done ctx4 b end e4)
   }})}}}})})"

definition parse_status_line :: "'w bs_env \<Rightarrow> line_parser" where
  "parse_status_line env ctx b e = (let m = sbuf b; start = br_start (first_line ctx) in do {
     r \<leftarrow> findcrlf m start (c_int (seod b - start));
     case r of
       None \<Rightarrow> Some (RC MNHTTP_PARSE_NEED_MORE, ctx, b\<lparr>spos := seod b\<rparr>, e)
     | Some end \<Rightarrow> (let ctx1 = ctx\<lparr>first_line := (first_line ctx)\<lparr>br_end := end\<rparr>\<rparr> in do {
     r1 \<leftarrow> findnosp m start (c_int (end - start));
     case r1 of
       None \<Rightarrow> Some (ERR HTTP_PARSE_MESSAGE 1, ctx1, b, e)
     | Some t1 \<Rightarrow> do {
     (v, ctx2, e2) \<leftarrow> parse_version env ctx1 m t1 e;
     case v of
       Inl err \<Rightarrow> Some (err, ctx2, b, e2)
     | Inr t2 \<Rightarrow> do {
     r2 \<leftarrow> findnosp m t2 (c_int (end - t2));
     case r2 of
       None \<Rightarrow> Some (ERR HTTP_PARSE_MESSAGE 6, ctx2, b, e2)
     | Some t3 \<Rightarrow> do {
     m3 \<leftarrow> mem_from m t3;
     (st, n, cv) \<leftarrow> strtol 10 m3;
     let e3 = strtol_errno (strtol_einval env) cv e2;
     let ctx3 = ctx2\<lparr>code := c_int st\<rparr>;
     if c_int st = 0 \<and> (e3 = EINVAL \<or> e3 = ERANGE)
     then Some (ERR HTTP_PARSE_MESSAGE 7, ctx3, b, e3)
     else Some (line_done ctx3 b end e3)
   }}}})})"

section \<open>The message loop\<close>

text \<open>One round of the \<open>while\<close> loop of \<open>_http_parse_message\<close>. First, reading more data when needed.\<close>

definition refill :: "'w bs_env \<Rightarrow> ('w, 'u) mstate \<Rightarrow> ('w, 'u) mstate + res \<times> ('w, 'u) mstate" where
  "refill env st =
     (if SNEEDMORE env (m_in st) then
        (case bytestream_consume_data env (m_in st) (m_fd st) (m_errno st) of (lres, b, w, e) \<Rightarrow>
           (let st1 = st\<lparr>m_in := b, m_fd := w, m_errno := e\<rparr>
            in if lres \<noteq> 0 then
                 Inr (if lres = MNHTTP_PARSE_EOF \<and> parser_state (m_ctx st) \<le> PS_START
                      then RC MNHTTP_PARSE_EMPTY else RC MNHTTP_PARSE_CONSUME_DATA_ERROR, st1)
               else Inl st1))
      else Inl st)"

type_synonym ('w, 'u) round = "(('w, 'u) mstate + res \<times> ('w, 'u) mstate) option"

definition set_state :: "int \<Rightarrow> ('w, 'u) mstate \<Rightarrow> ('w, 'u) mstate" where
  "set_state s st = st\<lparr>m_ctx := (m_ctx st)\<lparr>parser_state := s\<rparr>\<rparr>"

definition step_start :: "('w, 'u) mstate \<Rightarrow> ('w, 'u) round" where
  "step_start st =
     Some (Inl (st\<lparr>m_ctx := (m_ctx st)\<lparr>
       first_line := (first_line (m_ctx st))\<lparr>br_start := spos (m_in st)\<rparr>,
       parser_state := PS_LINE\<rparr>\<rparr>))"

definition step_line ::
  "line_parser \<Rightarrow> 'u mnhttp_cb option \<Rightarrow> ('w, 'u) mstate \<Rightarrow> ('w, 'u) round" where
  "step_line parse_line_cb line_cb st = do {
     (res, ctx, b, e) \<leftarrow> parse_line_cb (m_ctx st) (m_in st) (m_errno st);
     let st1 = st\<lparr>m_ctx := ctx, m_in := b, m_errno := e\<rparr>;
     Some (if res = RC MNHTTP_PARSE_NEED_MORE then Inl st1
           else if res \<noteq> RC 0 then Inr (res, st1)
           else (case call_cb line_cb ctx b (m_udata st) of (r, ctx2, b2, u2) \<Rightarrow>
                   (let st2 = st1\<lparr>m_ctx := ctx2, m_in := b2, m_udata := u2\<rparr>
                    in if r \<noteq> 0 then Inr (ERR HTTP_PARSE_MESSAGE 8, st2) else Inl st2)))
   }"

definition step_header_in :: "('w, 'u) mstate \<Rightarrow> ('w, 'u) round" where
  "step_header_in st =
     Some (Inl (st\<lparr>m_ctx := (m_ctx st)\<lparr>
       current_header_name := (current_header_name (m_ctx st))\<lparr>br_start := spos (m_in st)\<rparr>,
       parser_state := PS_HEADER_FIELD_OUT\<rparr>\<rparr>))"

definition step_body_in :: "'w bs_env \<Rightarrow> 'u mnhttp_cb option \<Rightarrow> ('w, 'u) mstate \<Rightarrow> ('w, 'u) round" where
  "step_body_in env body_cb st = do {
     (res, ctx, b, u, e) \<leftarrow> process_body env body_cb (m_ctx st) (m_in st) (m_udata st) (m_errno st);
     let st1 = st\<lparr>m_ctx := ctx, m_in := b, m_udata := u, m_errno := e\<rparr>;
     Some (if res \<noteq> RC 0 \<and> res \<noteq> RC MNHTTP_PARSE_NEED_MORE
           then Inr (ERR HTTP_PARSE_MESSAGE 12, st1)
           else (let st2 = set_state PS_BODY st1
                 in if res = RC MNHTTP_PARSE_NEED_MORE then Inl st2 else Inr (res, st2)))
   }"

definition step_body :: "'w bs_env \<Rightarrow> 'u mnhttp_cb option \<Rightarrow> ('w, 'u) mstate \<Rightarrow> ('w, 'u) round" where
  "step_body env body_cb st = do {
     (res, ctx, b, u, e) \<leftarrow> process_body env body_cb (m_ctx st) (m_in st) (m_udata st) (m_errno st);
     let st1 = st\<lparr>m_ctx := ctx, m_in := b, m_udata := u, m_errno := e\<rparr>;
     Some (if res \<noteq> RC 0 \<and> res \<noteq> RC MNHTTP_PARSE_NEED_MORE
           then Inr (ERR HTTP_PARSE_MESSAGE 13, st1)
           else if res = RC MNHTTP_PARSE_NEED_MORE then Inl st1 else Inr (res, st1))
   }"

text \<open>A complete header line, from the start of the name to the line end at \<open>end\<close>.\<close>

definition header_line ::
  "'w bs_env \<Rightarrow> 'u mnhttp_cb option \<Rightarrow> int \<Rightarrow> ('w, 'u) mstate \<Rightarrow> ('w, 'u) round" where
  "header_line env header_cb end st =
     (let b = m_in st;
          start = br_start (current_header_name (m_ctx st));
          ctx1 = (m_ctx st)\<lparr>current_header_value := (current_header_value (m_ctx st))\<lparr>br_end := end\<rparr>\<rparr>
      in do {
        r \<leftarrow> memchr (sbuf b) start (CHR '':'') (end - start);
        case r of
          None \<Rightarrow> Some (Inr (ERR HTTP_PARSE_MESSAGE 9, st\<lparr>m_ctx := ctx1\<rparr>))
        | Some tmp \<Rightarrow> do {
            buf1 \<leftarrow> wr (sbuf b) tmp NUL;
            v \<leftarrow> findnosp buf1 (tmp + 1) (c_int (end - (tmp + 1)));
            buf2 \<leftarrow> wr buf1 end NUL;
            let ctx2 = ctx1\<lparr>
              current_header_name := (current_header_name ctx1)\<lparr>br_end := tmp\<rparr>,
              current_header_value := (current_header_value ctx1)\<lparr>br_start := SDPOS b v\<rparr>\<rparr>;
            let b2 = b\<lparr>sbuf := buf2\<rparr>;
            (res, ctx3, e3) \<leftarrow> process_header env ctx2 b2 (m_errno st);
            let st3 = st\<lparr>m_ctx := ctx3, m_in := b2, m_errno := e3\<rparr>;
            Some (if res \<noteq> RC 0 \<and> res \<noteq> RC MNHTTP_PARSE_NEED_MORE
                  then Inr (ERR HTTP_PARSE_MESSAGE 10, st3)
                  else (case call_cb header_cb ctx3 b2 (m_udata st) of (cr, ctx4, b4, u4) \<Rightarrow>
                     (let st4 = st3\<lparr>m_ctx := ctx4, m_in := b4, m_udata := u4\<rparr>
                      in if cr \<noteq> 0 then Inr (ERR HTTP_PARSE_MESSAGE 11, st4)
                         else Inl ((set_state PS_HEADER_FIELD_IN st4)\<lparr>m_in := b4\<lparr>spos := end + 2\<rparr>\<rparr>))))
          }
      })"

definition step_header_out ::
  "'w bs_env \<Rightarrow> 'u mnhttp_cb option \<Rightarrow> 'u mnhttp_cb option \<Rightarrow> ('w, 'u) mstate \<Rightarrow> ('w, 'u) round" where
  "step_header_out env header_cb body_cb st =
     (let ctx = m_ctx st; b = m_in st; start = br_start (current_header_name ctx) in do {
        r \<leftarrow> findcrlf (sbuf b) start (c_int (seod b - start));
        case r of
          None \<Rightarrow> Some (Inl (st\<lparr>m_in := b\<lparr>spos := seod b\<rparr>\<rparr>))
        | Some end \<Rightarrow>
            (if end = start then
               (let p = spos b + 2
                in step_body_in env body_cb
                     (st\<lparr>m_in := b\<lparr>spos := p\<rparr>,
                         m_ctx := ctx\<lparr>body := \<lparr>br_start = p, br_end = p\<rparr>,
                                      current_chunk := \<lparr>br_start = p, br_end = p\<rparr>,
                                      parser_state := PS_BODY_IN\<rparr>\<rparr>))
             else header_line env header_cb end st)
      })"

definition dispatch ::
  "'w bs_env \<Rightarrow> line_parser \<Rightarrow> 'u mnhttp_cb option \<Rightarrow> 'u mnhttp_cb option \<Rightarrow> 'u mnhttp_cb option \<Rightarrow>
   ('w, 'u) mstate \<Rightarrow> ('w, 'u) round" where
  "dispatch env parse_line_cb line_cb header_cb body_cb st =
     (let ps = parser_state (m_ctx st) in
      if ps = PS_START then step_start st
      else if ps = PS_LINE then step_line parse_line_cb line_cb st
      else if ps = PS_HEADER_FIELD_IN then step_header_in st
      else if ps = PS_HEADER_FIELD_OUT then step_header_out env header_cb body_cb st
      else if ps = PS_BODY_IN then step_body_in env body_cb st
      else if ps = PS_BODY then step_body env body_cb st
      else Some (Inr (ERR HTTP_PARSE_MESSAGE 14, st)))"

definition message_step ::
  "'w bs_env \<Rightarrow> line_parser \<Rightarrow> 'u mnhttp_cb option \<Rightarrow> 'u mnhttp_cb option \<Rightarrow> 'u mnhttp_cb option \<Rightarrow>
   ('w, 'u) mstate \<Rightarrow> ('w, 'u) round" where
  "message_step env parse_line_cb line_cb header_cb body_cb st =
     (case refill env st of
        Inr r \<Rightarrow> Some (Inr r)
      | Inl st1 \<Rightarrow> dispatch env parse_line_cb line_cb header_cb body_cb st1)"

text \<open>At most \<open>n\<close> rounds of the loop.\<close>

definition http_parse_message ::
  "nat \<Rightarrow> 'w bs_env \<Rightarrow> line_parser \<Rightarrow> 'u mnhttp_cb option \<Rightarrow> 'u mnhttp_cb option \<Rightarrow>
   'u mnhttp_cb option \<Rightarrow> ('w, 'u) mstate \<Rightarrow> (('w, 'u) mstate, res \<times> ('w, 'u) mstate) outcome" where
  "http_parse_message n env parse_line_cb line_cb header_cb body_cb st =
     run_steps n (message_step env parse_line_cb line_cb header_cb body_cb) st"

definition http_parse_request ::
  "nat \<Rightarrow> 'w bs_env \<Rightarrow> 'u mnhttp_cb option \<Rightarrow> 'u mnhttp_cb option \<Rightarrow> 'u mnhttp_cb option \<Rightarrow>
   ('w, 'u) mstate \<Rightarrow> (('w, 'u) mstate, res \<times> ('w, 'u) mstate) outcome" where
  "http_parse_request n env line_cb header_cb body_cb st =
     http_parse_message n env (parse_request_line env) line_cb header_cb body_cb st"

definition http_parse_response ::
  "nat \<Rightarrow> 'w bs_env \<Rightarrow> 'u mnhttp_cb option \<Rightarrow> 'u mnhttp_cb option \<Rightarrow> 'u mnhttp_cb option \<Rightarrow>
   ('w, 'u) mstate \<Rightarrow> (('w, 'u) mstate, res \<times> ('w, 'u) mstate) outcome" where
  "http_parse_response n env line_cb header_cb body_cb st =
     http_parse_message n env (parse_status_line env) line_cb header_cb body_cb st"

end
