(* ===== verification/HttpLine.thy ===== *)
theory HttpLine
  imports HttpParse
begin

text \<open>
  The first line of a message. The locale \<open>line_parser\<close> states what \<open>_http_parse_message\<close> relies on
  when it calls a line parser; \<open>parse_request_line\<close> and \<open>parse_status_line\<close> are shown to meet it
  (interpretations \<open>req\<close> and \<open>resp\<close>). The functional lemmas say what each of them stores for
  a well-formed line, and \<open>method_of\<close> says what \<open>parse_method\<close> computes.
\<close>

section \<open>The contract of a line parser\<close>

text \<open>Two contexts that agree on everything the body parser looks at.\<close>

definition same_body :: "mnhttp_ctx \<Rightarrow> mnhttp_ctx \<Rightarrow> bool" where
  "same_body c d \<longleftrightarrow>
     chunk_parser_state c = chunk_parser_state d \<and> bodysz c = bodysz d \<and> chunked c = chunked d \<and>
     body c = body d \<and> current_chunk_size c = current_chunk_size d \<and> current_chunk c = current_chunk d"

text \<open>
  A line parser that finds no line end asks for more, changing nothing but the position, which
  moves to the end of the data. One that succeeds has found a line end, moves past it and goes
  to the header section. Otherwise it returns a diagnostic and leaves the stream alone.
\<close>

locale line_parser =
  fixes parse_line :: line_parser
  assumes line_result:
    "parse_line ctx b e = Some (r, ctx', b', e') \<Longrightarrow>
       r = RC MNHTTP_PARSE_NEED_MORE \<and> ctx' = ctx \<and> b' = b\<lparr>spos := seod b\<rparr> \<and> e' = e \<or>
       r = RC 0 \<and> parser_state ctx' = PS_HEADER_FIELD_IN \<and> same_body ctx ctx' \<and>
       (\<exists>end. findcrlf (sbuf b) (br_start (first_line ctx)) (c_int (seod b - br_start (first_line ctx))) =
               Some (Some end) \<and> b' = b\<lparr>spos := end + 2\<rparr>) \<or>
       (\<exists>k. r = ERR HTTP_PARSE_MESSAGE k) \<and> b' = b"
begin

lemma line_buffer: "parse_line ctx b e = Some (r, ctx', b', e') \<Longrightarrow> b' = b\<lparr>spos := spos b'\<rparr>"
  using line_result by fastforce

end

lemma parse_version_result:
  "parse_version env ctx m t e = Some (v, ctx', e') \<Longrightarrow>
     same_body ctx ctx' \<and> (\<forall>r. v = Inl r \<longrightarrow> (\<exists>k. r = ERR HTTP_PARSE_MESSAGE k))"
  unfolding parse_version_def same_body_def Let_def
  by (auto split: Option.bind_split_asm if_split_asm prod.split_asm)

lemma same_body_simps [simp]:
  "same_body c (d\<lparr>first_line := x\<rparr>) = same_body c d"
  "same_body c (d\<lparr>code := k\<rparr>) = same_body c d"
  "same_body c (d\<lparr>request_uri := u\<rparr>) = same_body c d"
  "same_body c (d\<lparr>parser_state := s\<rparr>) = same_body c d"
  "same_body (c\<lparr>first_line := x\<rparr>) d = same_body c d"
  "same_body (c\<lparr>code := k\<rparr>) d = same_body c d"
  "same_body (c\<lparr>request_uri := u\<rparr>) d = same_body c d"
  "same_body c c"
  by (simp_all add: same_body_def)

interpretation req: line_parser "parse_request_line env" for env :: "'w bs_env"
proof unfold_locales
  fix ctx b e r ctx' b' e'
  assume "parse_request_line env ctx b e = Some (r, ctx', b', e')"
  then show "r = RC MNHTTP_PARSE_NEED_MORE \<and> ctx' = ctx \<and> b' = b\<lparr>spos := seod b\<rparr> \<and> e' = e \<or>
       r = RC 0 \<and> parser_state ctx' = PS_HEADER_FIELD_IN \<and> same_body ctx ctx' \<and>
       (\<exists>end. findcrlf (sbuf b) (br_start (first_line ctx)) (c_int (seod b - br_start (first_line ctx))) =
               Some (Some end) \<and> b' = b\<lparr>spos := end + 2\<rparr>) \<or>
       (\<exists>k. r = ERR HTTP_PARSE_MESSAGE k) \<and> b' = b"
    unfolding parse_request_line_def Let_def line_done_def
    by (auto split: Option.bind_split_asm option.split_asm if_split_asm sum.split_asm prod.split_asm dest!: parse_version_result)
qed

interpretation resp: line_parser "parse_status_line env" for env :: "'w bs_env"
proof unfold_locales
  fix ctx b e r ctx' b' e'
  assume "parse_status_line env ctx b e = Some (r, ctx', b', e')"
  then show "r = RC MNHTTP_PARSE_NEED_MORE \<and> ctx' = ctx \<and> b' = b\<lparr>spos := seod b\<rparr> \<and> e' = e \<or>
       r = RC 0 \<and> parser_state ctx' = PS_HEADER_FIELD_IN \<and> same_body ctx ctx' \<and>
       (\<exists>end. findcrlf (sbuf b) (br_start (first_line ctx)) (c_int (seod b - br_start (first_line ctx))) =
               Some (Some end) \<and> b' = b\<lparr>spos := end + 2\<rparr>) \<or>
       (\<exists>k. r = ERR HTTP_PARSE_MESSAGE k) \<and> b' = b"
    unfolding parse_status_line_def Let_def line_done_def
    by (auto split: Option.bind_split_asm option.split_asm if_split_asm sum.split_asm prod.split_asm dest!: parse_version_result)
qed

section \<open>Methods\<close>

text \<open>Whether a token equals the beginning of a name, case ignored.\<close>

definition ci_prefix :: "string \<Rightarrow> string \<Rightarrow> bool" where
  "ci_prefix tok name \<longleftrightarrow>
     length tok \<le> length name \<and> map c_tolower tok = map c_tolower (take (length tok) name)"

text \<open>What \<open>parse_method\<close> computes: the first known method the token is a prefix of.\<close>

definition methods :: "(string \<times> int) list" where
  "methods = [(''GET'', MNHTTP_MGET), (''HEAD'', MNHTTP_MHEAD), (''POST'', MNHTTP_MPOST),
     (''PUT'', MNHTTP_MPUT), (''DELETE'', MNHTTP_MDELETE), (''OPTIONS'', MNHTTP_MOPTIONS),
     (''CONNECT'', MNHTTP_MCONNECT), (''TRACE'', MNHTTP_MTRACE)]"

definition method_of :: "string \<Rightarrow> int" where
  "method_of tok =
     (case find (\<lambda>(name, mc). ci_prefix tok name) methods of
        Some (name, mc) \<Rightarrow> mc | None \<Rightarrow> MNHTTP_MEXT)"

lemma strncasecmp_token:
  "NUL \<notin> set tok \<Longrightarrow> strncasecmp_eq (tok @ rest) name (length tok) = Some (ci_prefix tok name)"
proof (induction tok arbitrary: name)
  case Nil
  then show ?case by (simp add: ci_prefix_def)
next
  case (Cons c tok)
  then show ?case by (cases name) (auto simp: ci_prefix_def)
qed

lemma ci_prefix_Nil [simp]: "ci_prefix [] name"
  by (simp add: ci_prefix_def)

lemma parse_method_token:
  assumes "NUL \<notin> set tok"
  shows "parse_method (tok @ rest) (length tok) = Some (method_of tok)"
  unfolding parse_method_def strncasecmp_token [OF assms] method_of_def methods_def
  by (cases "tok = []") simp_all

lemma method_of_nonneg: "0 \<le> method_of tok"
  unfolding method_of_def methods_def by (simp split: option.split)

lemma ci_prefix_cong:
  "map c_tolower s = map c_tolower t \<Longrightarrow> ci_prefix s name = ci_prefix t name"
  by (metis ci_prefix_def length_map)

lemma method_of_cong:
  "map c_tolower s = map c_tolower t \<Longrightarrow> method_of s = method_of t"
  by (simp add: method_of_def ci_prefix_cong [of s t])

lemma method_of_name: "k \<in> {1, 2, 3, 4, 5, 6, 7, 8} \<Longrightarrow> method_of (MNHTTP_MSTR k) = k"
  by (elim insertE emptyE; hypsubst; code_simp)

lemma method_of_mem: "method_of tok \<in> insert MNHTTP_MEXT (snd ` set methods)"
proof (cases "find (\<lambda>(name, mc). ci_prefix tok name) methods")
  case (Some p)
  then have "p \<in> set methods" by (metis find_Some_iff nth_mem)
  then have "snd p \<in> snd ` set methods" by simp
  moreover have "method_of tok = snd p" using Some by (simp add: method_of_def split: prod.split)
  ultimately show ?thesis by simp
qed (simp add: method_of_def)

lemma method_of_prefix:
  "method_of tok = MNHTTP_MEXT \<longleftrightarrow> (\<forall>k \<in> {1, 2, 3, 4, 5, 6, 7, 8}. \<not> ci_prefix tok (MNHTTP_MSTR k))"
  "method_of tok \<noteq> MNHTTP_MEXT \<Longrightarrow> ci_prefix tok (MNHTTP_MSTR (method_of tok))"
  by (auto simp: method_of_def methods_def MNHTTP_MSTR_def)

lemma method_of_known: "method_of tok \<noteq> MNHTTP_MEXT \<Longrightarrow> method_of tok \<in> {1, 2, 3, 4, 5, 6, 7, 8}"
  using method_of_mem [of tok] by (simp add: methods_def) blast

text \<open>Two of the names begin alike only by their first letter, which is that of POST and PUT.\<close>

lemma lower_names:
  "map c_tolower (MNHTTP_MSTR 1) = ''options''" "map c_tolower (MNHTTP_MSTR 2) = ''get''" "map c_tolower (MNHTTP_MSTR 3) = ''head''"
  "map c_tolower (MNHTTP_MSTR 4) = ''post''" "map c_tolower (MNHTTP_MSTR 5) = ''put''" "map c_tolower (MNHTTP_MSTR 6) = ''delete''"
  "map c_tolower (MNHTTP_MSTR 7) = ''trace''" "map c_tolower (MNHTTP_MSTR 8) = ''connect''"
  by code_simp+

lemma names_differ:
  "\<forall>j \<in> {1, 2, 3, 4, 5, 6, 7, 8}. \<forall>k \<in> {1, 2, 3, 4, 5, 6, 7, 8}. j \<noteq> k \<longrightarrow>
     (let a = map c_tolower (MNHTTP_MSTR j); b = map c_tolower (MNHTTP_MSTR k)
      in a ! 0 = b ! 0 \<longrightarrow> a ! 0 = CHR ''p'' \<and> a ! 1 \<noteq> b ! 1)"
  by (simp add: lower_names Let_def)

lemma ci_prefix_lower: "ci_prefix tok name \<Longrightarrow> i < length tok \<Longrightarrow> map c_tolower name ! i = map c_tolower tok ! i"
  unfolding ci_prefix_def by (simp add: list_eq_iff_nth_eq)

lemma prefix_unique:
  assumes "ci_prefix tok (MNHTTP_MSTR j)" and "ci_prefix tok (MNHTTP_MSTR k)" and "j \<in> {1, 2, 3, 4, 5, 6, 7, 8}"
    and "k \<in> {1, 2, 3, 4, 5, 6, 7, 8}" and "j \<noteq> k" and "tok \<noteq> []"
  shows "map c_tolower tok = ''p''"
proof -
  note same = ci_prefix_lower [OF assms(1)] ci_prefix_lower [OF assms(2)]
  note d = names_differ [rule_format, OF assms(3,4,5), unfolded Let_def]
  have n: "0 < length tok" using assms(6) by simp
  have p: "map c_tolower tok ! 0 = CHR ''p''" "\<not> 1 < length tok"
    using d same(1) [OF n] same(2) [OF n] same(1) [of 1] same(2) [of 1] by auto
  then obtain c where "tok = [c]" using n by (cases tok) auto
  then show ?thesis using p(1) by simp
qed

lemma method_of_empty: "method_of [] = MNHTTP_MGET"
  by (simp add: method_of_def methods_def)

lemma method_of_p: "map c_tolower tok = ''p'' \<Longrightarrow> method_of tok = MNHTTP_MPOST"
proof -
  assume "map c_tolower tok = ''p''"
  moreover have "map c_tolower ''p'' = ''p''" "method_of ''p'' = MNHTTP_MPOST" by code_simp+
  ultimately show ?thesis using method_of_cong [of tok "''p''"] by simp
qed

lemma method_of_exact:
  assumes "tok \<noteq> []" and "map c_tolower tok \<noteq> ''p''" and "k \<in> {1, 2, 3, 4, 5, 6, 7, 8}"
  shows "method_of tok = k \<longleftrightarrow> ci_prefix tok (MNHTTP_MSTR k)"
proof
  show "method_of tok = k \<Longrightarrow> ci_prefix tok (MNHTTP_MSTR k)" using method_of_prefix(2) [of tok] assms(3) by auto
  assume k: "ci_prefix tok (MNHTTP_MSTR k)"
  then have "method_of tok \<noteq> MNHTTP_MEXT" using assms(3) unfolding method_of_prefix(1) by blast
  then show "method_of tok = k"
    using prefix_unique [OF method_of_prefix(2) k method_of_known assms(3) _ assms(1)] assms(2) by blast
qed

text \<open>
  C27. Which method \<open>parse_method\<close> gives: the comparison is over the length of the token and without regard to case,
  so the empty token is GET, the token \<open>P\<close> is POST, and every other token that is the beginning of one of the names from
  OPTIONS to CONNECT (there is then only one) is that method; every token that is not the beginning of such a
  name gives \<open>MNHTTP_MEXT\<close>, PATCH among them.
\<close>

theorem parse_method_correct:
  assumes "NUL \<notin> set tok"
  shows "\<exists>m. parse_method (tok @ rest) (length tok) = Some m \<and>
    (tok = [] \<longrightarrow> m = MNHTTP_MGET) \<and> (map c_tolower tok = ''p'' \<longrightarrow> m = MNHTTP_MPOST) \<and>
    (tok \<noteq> [] \<and> map c_tolower tok \<noteq> ''p'' \<longrightarrow> (\<forall>k \<in> {1, 2, 3, 4, 5, 6, 7, 8}. m = k \<longleftrightarrow> ci_prefix tok (MNHTTP_MSTR k))) \<and>
    (m = MNHTTP_MEXT \<longleftrightarrow> (\<forall>k \<in> {1, 2, 3, 4, 5, 6, 7, 8}. \<not> ci_prefix tok (MNHTTP_MSTR k)))"
proof (intro exI conjI ballI impI)
  show "parse_method (tok @ rest) (length tok) = Some (method_of tok)" by (rule parse_method_token [OF assms])
  show "method_of tok = MNHTTP_MGET" if "tok = []" using that method_of_empty by simp
  show "method_of tok = MNHTTP_MPOST" if "map c_tolower tok = ''p''" by (rule method_of_p [OF that])
  show "method_of tok = k \<longleftrightarrow> ci_prefix tok (MNHTTP_MSTR k)"
    if "tok \<noteq> [] \<and> map c_tolower tok \<noteq> ''p''" "k \<in> {1, 2, 3, 4, 5, 6, 7, 8}" for k
    using that by (intro method_of_exact) auto
  show "method_of tok = MNHTTP_MEXT \<longleftrightarrow> (\<forall>k \<in> {1, 2, 3, 4, 5, 6, 7, 8}. \<not> ci_prefix tok (MNHTTP_MSTR k))"
    by (rule method_of_prefix)
qed

theorem parse_method_correct_witness:
  "parse_method (''patch'' @ '' /'') (length ''patch'') = Some MNHTTP_MEXT \<and>
   parse_method (''options'' @ '' /'') (length ''options'') = Some MNHTTP_MOPTIONS \<and>
   parse_method (''P'' @ '' /'') (length ''P'') = Some MNHTTP_MPOST"
proof -
  have 1: "NUL \<notin> set ''patch''" "\<forall>k \<in> {1, 2, 3, 4, 5, 6, 7, 8}. \<not> ci_prefix ''patch'' (MNHTTP_MSTR k)" by code_simp+
  have 2: "NUL \<notin> set ''options''" "ci_prefix ''options'' (MNHTTP_MSTR 1)" "map c_tolower ''options'' \<noteq> ''p''" by code_simp+
  have 3: "NUL \<notin> set ''P''" "map c_tolower ''P'' = ''p''" by code_simp+
  have "parse_method (''patch'' @ '' /'') (length ''patch'') = Some MNHTTP_MEXT"
    using parse_method_correct [OF 1(1), of "'' /''"] 1(2) by auto
  moreover have "parse_method (''options'' @ '' /'') (length ''options'') = Some MNHTTP_MOPTIONS"
    using parse_method_correct [OF 2(1), of "'' /''"] 2(2,3) by (metis insertI1 list.distinct(1))
  moreover have "parse_method (''P'' @ '' /'') (length ''P'') = Some MNHTTP_MPOST"
    using parse_method_correct [OF 3(1), of "'' /''"] 3(2) by metis
  ultimately show ?thesis by blast
qed

section \<open>Lines read back\<close>

lemma drop_from: "0 \<le> s \<Longrightarrow> drop (nat s) m = xs @ ys \<Longrightarrow> drop (nat (s + int (length xs))) m = ys"
  by (metis append_eq_conv_conj drop_drop nat_int_add add.commute nat_0_le of_nat_add nat_int)

lemma drop_from_len:
  "0 \<le> s \<Longrightarrow> drop (nat s) m = xs \<Longrightarrow> xs \<noteq> [] \<Longrightarrow> s + int (length xs) = int (length m)"
  by (cases "nat s \<le> length m") auto

text \<open>An \<open>errno\<close> left over from an earlier call that does not disturb the version checks.\<close>

definition errno_ok :: "c_errno \<Rightarrow> bool" where
  "errno_ok e \<longleftrightarrow> e \<noteq> EINVAL \<and> e \<noteq> ERANGE"

lemma int_ok_nat: "n < 2 ^ 31 \<Longrightarrow> int_ok (int n)"
  by (simp add: int_ok_def)

lemma strncasecmp_HTTP: "strncasecmp_eq (''HTTP/'' @ rest) ''HTTP/'' 5 = Some True"
  by (simp add: numeral_eq_Suc)

lemma parse_version_text:
  assumes "0 \<le> t"
    and "drop (nat t) m = ''HTTP/'' @ show_nat maj @ CHR ''.'' # show_nat mnr @ c # rest"
    and "\<not> c_isdigit c" and "maj < 2 ^ 31" and "mnr < 2 ^ 31" and "errno_ok e"
  shows "parse_version env ctx m t e =
    Some (Inr (t + 5 + int (length (show_nat maj)) + 1 + int (length (show_nat mnr))),
          ctx\<lparr>version_major := int maj, version_minor := int mnr\<rparr>, e)"
proof -
  let ?M = "int (length (show_nat maj))"
  have len: "t + int (length (''HTTP/'' @ show_nat maj @ CHR ''.'' # show_nat mnr @ c # rest)) = int (length m)"
    using drop_from_len [OF assms(1,2)] by simp
  have d1: "drop (nat (t + 5)) m = show_nat maj @ CHR ''.'' # show_nat mnr @ c # rest"
    using drop_from [OF assms(1), of m "''HTTP/''"] assms(2) by simp
  have d2: "drop (nat (t + 5 + ?M)) m = CHR ''.'' # show_nat mnr @ c # rest"
    using drop_from [of "t + 5" m "show_nat maj"] assms(1) d1 by simp
  have d3: "drop (nat (t + 5 + ?M + 1)) m = show_nat mnr @ c # rest"
    using drop_from [of "t + 5 + ?M" m "[CHR ''.'']"] assms(1) d2 by simp
  have "m ! nat (t + 5 + ?M) = CHR ''.''"
    using d2 by (metis nth_via_drop)
  then have dot: "rd m (t + 5 + ?M) = Some (CHR ''.'')"
    using len assms(1) by (simp add: rd_eq_Some nat_less_iff)
  have s1: "strtol 10 (show_nat maj @ CHR ''.'' # show_nat mnr @ c # rest) =
      Some (int maj, length (show_nat maj), Conv)"
    using assms(4) by (intro strtol_show_nat) (auto simp: LONG_MAX_def c_isdigit_def)
  have s2: "strtol 10 (show_nat mnr @ c # rest) = Some (int mnr, length (show_nat mnr), Conv)"
    using assms(3,5) by (intro strtol_show_nat) (auto simp: LONG_MAX_def)
  have f: "mem_from m t = Some (''HTTP/'' @ show_nat maj @ CHR ''.'' # show_nat mnr @ c # rest)"
    "mem_from m (t + 5) = Some (show_nat maj @ CHR ''.'' # show_nat mnr @ c # rest)"
    "mem_from m (t + 5 + ?M + 1) = Some (show_nat mnr @ c # rest)"
    using assms(1,2) len d1 d3 by (simp_all add: mem_from_eq_Some del: append.simps)
  have e: "(e = EINVAL) = False" "(e = ERANGE) = False" using assms(6) by (simp_all add: errno_ok_def)
  have i: "c_int (int maj) = int maj" "c_int (int mnr) = int mnr"
    using assms(4,5) by (simp_all add: int_ok_nat)
  show ?thesis
    by (simp only: parse_version_def f dot s1 s2 strncasecmp_HTTP strtol_errno_def i e
        Option.bind.simps Let_def prod.case conv.case if_False if_True simp_thms)
qed

text \<open>A stream whose buffer is well formed and below 2 GiB, so that offsets fit a C \<open>int\<close>.\<close>

definition stream_ok :: "bytestream \<Rightarrow> bool" where
  "stream_ok b \<longleftrightarrow> 0 \<le> seod b \<and> seod b \<le> int (length (sbuf b)) \<and> length (sbuf b) < 2 ^ 31"

lemma stream_int_ok:
  "stream_ok b \<Longrightarrow> x \<le> int (length (sbuf b)) \<Longrightarrow> - (2 ^ 31) \<le> x \<Longrightarrow> c_int x = x"
  by (rule c_int_id) (auto simp: stream_ok_def int_ok_def)

text \<open>The text of a request line up to its line end, and what the parser stores for it.\<close>

definition request_text :: "string \<Rightarrow> string \<Rightarrow> string \<Rightarrow> string \<Rightarrow> nat \<Rightarrow> nat \<Rightarrow> string" where
  "request_text meth w1 uri w2 maj mnr =
     meth @ w1 @ uri @ w2 @ ''HTTP/'' @ show_nat maj @ CHR ''.'' # show_nat mnr"

definition token :: "string \<Rightarrow> bool" where
  "token s \<longleftrightarrow> s \<noteq> [] \<and> list_all (\<lambda>c. \<not> ISSPACE c \<and> c \<noteq> CR \<and> c \<noteq> NUL) s"

definition blanks :: "string \<Rightarrow> bool" where
  "blanks s \<longleftrightarrow> s \<noteq> [] \<and> list_all ISSPACE s"

lemma tokenD: "token s \<Longrightarrow> s \<noteq> [] \<and> list_all (\<lambda>c. \<not> ISSPACE c) s \<and> CR \<notin> set s \<and> NUL \<notin> set s"
  by (auto simp: token_def list_all_iff)

lemma not_ISSPACE [simp]: "\<not> ISSPACE CR" "\<not> ISSPACE NUL" "\<not> ISSPACE LF" "\<not> ISSPACE (CHR ''H'')"
  by (simp_all add: ISSPACE_def)

lemma blanksD: "blanks s \<Longrightarrow> s \<noteq> [] \<and> list_all ISSPACE s \<and> CR \<notin> set s \<and> NUL \<notin> set s"
  by (auto simp: blanks_def list_all_iff)

lemma CR_not_in_show_nat: "CR \<notin> set (show_nat n)"
proof
  assume "CR \<in> set (show_nat n)"
  then have "c_isdigit CR" using show_nat_digits [of n] by (simp add: list_all_iff)
  then show False by (simp add: c_isdigit_def)
qed

text \<open>Runs of blanks and of other characters, as the line parsers walk over them.\<close>

lemma findsp_run:
  assumes "0 \<le> s" and "drop (nat s) m = xs @ ws @ ys" and "list_all (\<lambda>c. \<not> ISSPACE c) xs"
    and "blanks ws" and "int (length xs) < sz" and "s + sz \<le> int (length m)"
  shows "findsp m s sz = Some (Some (s + int (length xs)))"
proof -
  obtain w ws' where "ws = w # ws'" using assms(4) by (cases ws) (auto simp: blanks_def)
  with assms show ?thesis by (intro findsp_layout [of s m xs w "ws' @ ys"]) (auto simp: blanks_def)
qed

lemma findnosp_run:
  assumes "0 \<le> s" and "drop (nat s) m = ws @ xs @ ys" and "list_all ISSPACE ws"
    and "xs \<noteq> []" and "\<not> ISSPACE (hd xs)" and "int (length ws) < sz" and "s + sz \<le> int (length m)"
  shows "findnosp m s sz = Some (Some (s + int (length ws)))"
proof -
  obtain x xs' where "xs = x # xs'" using assms(4) by (cases xs) auto
  with assms show ?thesis by (intro findnosp_layout [of s m ws x "xs' @ ys"]) auto
qed

text \<open>The end of a line inside the data, and the four scans of a request line: a word, blanks, a word and blanks.\<close>

lemma line_end_found:
  assumes "stream_ok b" and "0 \<le> s" and "drop (nat s) (sbuf b) = P @ CR # LF # rest" and "s + int (length P) + 2 \<le> seod b"
    and "CR \<notin> set P"
  shows "findcrlf (sbuf b) s (c_int (seod b - s)) = Some (Some (s + int (length P)))"
proof -
  have "c_int (seod b - s) = seod b - s" using assms(1,2,4) by (intro stream_int_ok) (auto simp: stream_ok_def)
  moreover have "\<not> has_crlf P" using assms(5) by (simp add: not_has_crlf_if)
  ultimately show ?thesis using assms by (intro findcrlf_layout) (auto simp: stream_ok_def)
qed

lemma word_scans:
  assumes "0 \<le> s" and "drop (nat s) m = xs @ ws @ ys" and "list_all (\<lambda>c. \<not> ISSPACE c) xs" and "blanks ws"
    and "ys \<noteq> []" and "\<not> ISSPACE (hd ys)"
    and "t = s + int (length xs)" and "t + int (length ws) < en" and "en \<le> int (length m)" and "length m < 2 ^ 31"
  shows "findsp m s (c_int (en - s)) = Some (Some t)"
    and "findnosp m t (c_int (en - t)) = Some (Some (t + int (length ws)))"
    and "drop (nat (t + int (length ws))) m = ys"
proof -
  have w: "list_all ISSPACE ws" using blanksD [OF assms(4)] by simp
  have c: "c_int (en - s) = en - s" "c_int (en - t) = en - t"
    using assms(1,7-10) by (intro c_int_id; simp add: int_ok_def)+
  have d: "drop (nat t) m = ws @ ys" unfolding assms(7) by (rule drop_from [OF assms(1,2)])
  show "findsp m s (c_int (en - s)) = Some (Some t)"
    unfolding c assms(7) using assms by (intro findsp_run [OF assms(1,2,3,4)]) auto
  show "findnosp m t (c_int (en - t)) = Some (Some (t + int (length ws)))"
    unfolding c using assms d w by (intro findnosp_run [of t m ws ys "[]"]) auto
  show "drop (nat (t + int (length ws))) m = ys" using assms(1,7) by (intro drop_from [OF _ d]) simp
qed

lemma parse_request_line_text:
  assumes ok: "stream_ok b" and s: "0 \<le> br_start (first_line ctx)"
    and layout: "drop (nat (br_start (first_line ctx))) (sbuf b) =
      request_text meth w1 uri w2 maj mnr @ crlf @ rest"
    and room: "br_start (first_line ctx) + int (length (request_text meth w1 uri w2 maj mnr)) + 2 \<le> seod b"
    and tok: "token meth" "blanks w1" "token uri" "blanks w2"
    and ver: "maj < 2 ^ 31" "mnr < 2 ^ 31" "errno_ok e"
  shows "parse_request_line env ctx b e =
    Some (line_done
      (ctx\<lparr>first_line := (first_line ctx)\<lparr>br_end := br_start (first_line ctx) +
               int (length (request_text meth w1 uri w2 maj mnr))\<rparr>,
           code := method_of meth, request_uri := Some uri,
           version_major := int maj, version_minor := int mnr\<rparr>)
      b (br_start (first_line ctx) + int (length (request_text meth w1 uri w2 maj mnr))) e)"
proof -
  define m st where "m = sbuf b" and "st = br_start (first_line ctx)"
  define V P where "V = ''HTTP/'' @ show_nat maj @ CHR ''.'' # show_nat mnr" and "P = request_text meth w1 uri w2 maj mnr"
  define en t1 t2 t3 t4 where "en = st + int (length P)" and "t1 = st + int (length meth)"
    and "t2 = t1 + int (length w1)" and "t3 = t2 + int (length uri)" and "t4 = t3 + int (length w2)"
  note pos = en_def t1_def t2_def t3_def t4_def
  have P: "P = meth @ w1 @ uri @ w2 @ V" by (simp add: P_def request_text_def V_def)
  have d0: "drop (nat st) m = meth @ w1 @ uri @ w2 @ V @ CR # LF # rest" using layout by (simp add: st_def m_def P [unfolded P_def])
  have s0: "0 \<le> st" using s by (simp add: st_def)
  have lm: "en + 2 \<le> seod b" "seod b \<le> int (length m)" "length m < 2 ^ 31"
    using room ok by (simp_all add: en_def st_def P_def m_def stream_ok_def)
  note tt = tokenD [OF tok(1)] blanksD [OF tok(2)] tokenD [OF tok(3)] blanksD [OF tok(4)]
  have V: "V \<noteq> []" "\<not> ISSPACE (hd V)" "CR \<notin> set V"
    using CR_not_in_show_nat [of maj] CR_not_in_show_nat [of mnr] by (simp_all add: V_def ISSPACE_def)
  have hd: "uri \<noteq> []" "\<not> ISSPACE (hd uri)" using tt(3) by (cases uri; auto)+
  have c0: "findcrlf m st (c_int (seod b - st)) = Some (Some en)"
    unfolding en_def m_def using ok s0 d0 lm tt V by (intro line_end_found) (auto simp: P m_def en_def)
  have "0 < int (length V)" using V(1) by simp
  then have le: "t2 < en" "t4 < en" "en \<le> int (length m)" "0 \<le> t2" using lm s0 unfolding pos P length_append of_nat_add by linarith+
  have A: "findsp m st (c_int (en - st)) = Some (Some t1)" "findnosp m t1 (c_int (en - t1)) = Some (Some t2)"
      "drop (nat t2) m = uri @ w2 @ V @ CR # LF # rest"
    using word_scans [OF s0 d0 _ tok(2) _ _ t1_def _ le(3) lm(3)] tt hd le by (simp_all add: t2_def)
  have B: "findsp m t2 (c_int (en - t2)) = Some (Some t3)" "findnosp m t3 (c_int (en - t3)) = Some (Some t4)"
      "drop (nat t4) m = V @ CR # LF # rest"
    using word_scans [OF le(4) A(3) _ tok(4) _ _ t3_def _ le(3) lm(3)] tt V le by (simp_all add: t4_def)
  have diff: "en - st - (t - st) = en - t" for t by simp
  have mem: "mem_from m st = Some (meth @ w1 @ uri @ w2 @ V @ CR # LF # rest)"
    using s0 lm d0 by (simp add: mem_from_eq_Some pos)
  have meth: "parse_method (meth @ w1 @ uri @ w2 @ V @ CR # LF # rest) (nat (t1 - st)) = Some (method_of meth)"
    "(method_of meth < 0) = False"
    using parse_method_token [of meth] tt(1) method_of_nonneg [of meth] by (simp_all add: t1_def)
  have uri: "take (nat (t3 - t2)) (drop (nat t2) m) = uri" by (simp add: A(3) t3_def)
  have "\<exists>t5. parse_version env c m t4 e = Some (Inr t5, c\<lparr>version_major := int maj, version_minor := int mnr\<rparr>, e)" for c
    using parse_version_text [of t4 m maj mnr CR "LF # rest" e env c] ver B(3) s0 by (simp add: V_def pos c_isdigit_def)
  then obtain t5 where v: "parse_version env c m t4 e =
      Some (Inr (t5 c), c\<lparr>version_major := int maj, version_minor := int mnr\<rparr>, e)" for c
    by metis
  show ?thesis
    unfolding parse_request_line_def Let_def m_def [symmetric] st_def [symmetric] P_def [symmetric]
      en_def [symmetric] c0 Option.bind.simps option.case diff A(1,2) B(1,2) mem meth if_False v prod.case sum.case uri ..
qed

text \<open>The text of a status line; \<open>phrase\<close> is what follows the status number up to the line end.\<close>

definition status_text :: "nat \<Rightarrow> nat \<Rightarrow> string \<Rightarrow> nat \<Rightarrow> string \<Rightarrow> string" where
  "status_text maj mnr w status phrase =
     ''HTTP/'' @ show_nat maj @ CHR ''.'' # show_nat mnr @ w @ show_nat status @ phrase"

lemma show_nat_head: "\<not> ISSPACE (hd (show_nat n))"
proof
  assume "ISSPACE (hd (show_nat n))"
  moreover have "c_isdigit (hd (show_nat n))"
    using show_nat_digits [of n] by (cases "show_nat n") auto
  ultimately show False by (auto simp: ISSPACE_def c_isdigit_def)
qed

lemma blanks_not_digit: "blanks w \<Longrightarrow> \<not> c_isdigit (hd w)"
  by (cases w) (auto simp: blanks_def ISSPACE_def c_isdigit_def)

text \<open>The scans of a status line behind its version: blanks and a number.\<close>

lemma status_scans:
  assumes "0 \<le> t" and "drop (nat t) m = w @ show_nat status @ phrase @ CR # LF # rest" and "blanks w" and "\<not> c_isdigit (hd (phrase @ crlf))"
    and "status < 2 ^ 31" and "t + int (length w) < en" and "en \<le> int (length m)" and "length m < 2 ^ 31"
  shows "findnosp m t (c_int (en - t)) = Some (Some (t + int (length w)))"
    and "mem_from m (t + int (length w)) = Some (show_nat status @ phrase @ CR # LF # rest)"
    and "strtol 10 (show_nat status @ phrase @ CR # LF # rest) = Some (int status, length (show_nat status), Conv)"
proof -
  have c: "c_int (en - t) = en - t" using assms(1,6-8) by (intro c_int_id) (simp add: int_ok_def)
  have w: "list_all ISSPACE w" using blanksD [OF assms(3)] by simp
  show "findnosp m t (c_int (en - t)) = Some (Some (t + int (length w)))"
    unfolding c using assms(6,7) w show_nat_digits [of status] show_nat_head by (intro findnosp_run [OF assms(1,2)]) simp_all
  have "drop (nat (t + int (length w))) m = show_nat status @ phrase @ CR # LF # rest" by (rule drop_from [OF assms(1,2)])
  then show "mem_from m (t + int (length w)) = Some (show_nat status @ phrase @ CR # LF # rest)"
    using assms(1,6,7) by (simp add: mem_from_eq_Some)
  obtain x xs where x: "phrase @ CR # LF # rest = x # xs" "\<not> c_isdigit x" using assms(4) by (cases phrase) auto
  show "strtol 10 (show_nat status @ phrase @ CR # LF # rest) = Some (int status, length (show_nat status), Conv)"
    unfolding x(1) using assms(5) x(2) by (intro strtol_show_nat) (auto simp: LONG_MAX_def)
qed

lemma parse_status_line_text:
  assumes ok: "stream_ok b" and s: "0 \<le> br_start (first_line ctx)"
    and layout: "drop (nat (br_start (first_line ctx))) (sbuf b) =
      status_text maj mnr w status phrase @ crlf @ rest"
    and room: "br_start (first_line ctx) + int (length (status_text maj mnr w status phrase)) + 2 \<le> seod b"
    and w: "blanks w" and phrase: "CR \<notin> set phrase" "\<not> c_isdigit (hd (phrase @ crlf))"
    and num: "maj < 2 ^ 31" "mnr < 2 ^ 31" "status < 2 ^ 31" "errno_ok e"
  shows "parse_status_line env ctx b e =
    Some (line_done
      (ctx\<lparr>first_line := (first_line ctx)\<lparr>br_end := br_start (first_line ctx) +
               int (length (status_text maj mnr w status phrase))\<rparr>,
           version_major := int maj, version_minor := int mnr, code := int status\<rparr>)
      b (br_start (first_line ctx) + int (length (status_text maj mnr w status phrase))) e)"
proof -
  define m st where "m = sbuf b" and "st = br_start (first_line ctx)"
  define V P where "V = ''HTTP/'' @ show_nat maj @ CHR ''.'' # show_nat mnr" and "P = status_text maj mnr w status phrase"
  define en t2 where "en = st + int (length P)" and "t2 = st + 5 + int (length (show_nat maj)) + 1 + int (length (show_nat mnr))"
  have P: "P = V @ w @ show_nat status @ phrase" by (simp add: P_def status_text_def V_def)
  have s0: "0 \<le> st" using s by (simp add: st_def)
  have t2: "t2 = st + int (length V)" by (simp add: t2_def V_def)
  have d0: "drop (nat st) m = V @ w @ show_nat status @ phrase @ CR # LF # rest"
    using layout by (simp add: st_def m_def P [unfolded P_def])
  have d2: "drop (nat t2) m = w @ show_nat status @ phrase @ CR # LF # rest"
    unfolding t2 by (rule drop_from [OF s0 d0])
  have lm: "en + 2 \<le> seod b" "seod b \<le> int (length m)" "length m < 2 ^ 31"
    using room ok by (simp_all add: en_def st_def P_def m_def stream_ok_def)
  have "1 \<le> length (show_nat status)" "1 \<le> length V" using show_nat_digits [of status] by (simp_all add: Suc_leI V_def)
  then have le: "0 \<le> t2" "t2 + int (length w) < en" "en \<le> int (length m)" "0 < en - st"
    using s0 lm by (simp_all add: en_def t2 P)
  note c2 = status_scans [OF le(1) d2 w phrase(2) num(3) le(2,3) lm(3)]
  have "CR \<notin> set P"
    using blanksD [OF w] phrase(1) CR_not_in_show_nat [of maj] CR_not_in_show_nat [of mnr]
      CR_not_in_show_nat [of status] by (simp add: P V_def)
  then have c0: "findcrlf m st (c_int (seod b - st)) = Some (Some en)"
    unfolding en_def m_def using ok s0 d0 lm by (intro line_end_found) (auto simp: P m_def en_def)
  have "c_int (en - st) = en - st" using s0 lm le by (intro c_int_id) (simp add: int_ok_def)
  then have c1: "findnosp m st (c_int (en - st)) = Some (Some st)"
    using findnosp_run [OF s0, of m "[]" V _ "en - st"] d0 le s0 by (simp add: V_def)
  have v: "parse_version env c m st e =
      Some (Inr t2, c\<lparr>version_major := int maj, version_minor := int mnr\<rparr>, e)" for c
    unfolding t2_def using num s0 blanks_not_digit [OF w] blanksD [OF w] d0
    by (intro parse_version_text [of st m maj mnr "hd w" "tl w @ show_nat status @ phrase @ CR # LF # rest"])
      (simp_all add: V_def)
  have i: "c_int (int status) = int status" using num(3) by (simp add: int_ok_nat)
  have e: "(e = EINVAL) = False" "(e = ERANGE) = False" using num(4) by (simp_all add: errno_ok_def)
  show ?thesis
    by (simp only: parse_status_line_def Let_def m_def [symmetric] st_def [symmetric] P_def [symmetric]
      en_def [symmetric] c0 Option.bind.simps option.case c1 v prod.case sum.case c2 i
      strtol_errno_def conv.case e simp_thms if_False)
qed

end
