(* ===== verification/HttpHeader.thy ===== *)
theory HttpHeader
  imports HttpLine
begin

text \<open>
  The header section. \<open>header_effect\<close> says what a header field does to the parsing context and
  \<open>header_round\<close> that the two rounds of the message loop that read a field (states
  \<open>PS_HEADER_FIELD_IN\<close> and \<open>PS_HEADER_FIELD_OUT\<close>) have that effect, show the header callback the field's
  name and value as C strings and move past the field; \<open>header_rounds\<close> extends this to a list
  of fields.
\<close>

section \<open>What a field means\<close>

text \<open>Equality of a C string with a literal, case ignored.\<close>

definition ci_eq :: "string \<Rightarrow> string \<Rightarrow> bool" where
  "ci_eq s t \<longleftrightarrow> map c_tolower s = map c_tolower t"

definition strtol_value :: "string \<Rightarrow> int" where
  "strtol_value s = (case strtol 10 (s @ [NUL]) of Some (v, n, cv) \<Rightarrow> v | None \<Rightarrow> 0)"

definition header_effect :: "string \<times> string \<Rightarrow> mnhttp_ctx \<Rightarrow> mnhttp_ctx" where
  "header_effect h ctx =
     (if ci_eq (fst h) ''content-length'' then ctx\<lparr>bodysz := c_int (strtol_value (snd h))\<rparr>
      else if ci_eq (fst h) ''transfer-encoding'' \<and> snd h = ''chunked''
      then ctx\<lparr>chunked := True, chunk_parser_state := PS_CHUNK_SIZE, bodysz := 0\<rparr>
      else ctx)"

lemma strcasecmp_cstring:
  "NUL \<notin> set s \<Longrightarrow> NUL \<notin> set lit \<Longrightarrow> strcasecmp_eq (s @ NUL # rest) lit = Some (ci_eq s lit)"
  by (simp add: strcasecmp_eq_map ci_eq_def)

lemma strcmp_cstring:
  "NUL \<notin> set s \<Longrightarrow> NUL \<notin> set lit \<Longrightarrow> strcmp_eq (s @ NUL # rest) lit = Some (s = lit)"
proof (induction s arbitrary: lit)
  case Nil
  then show ?case by (cases lit) auto
next
  case (Cons c s)
  then show ?case by (cases lit) auto
qed

lemma scan_while_cstring:
  "\<not> P NUL \<Longrightarrow> scan_while P (s @ NUL # rest) = scan_while P (s @ [NUL])"
  by (induction s) auto

lemma scan_while_cstring_Some: "\<not> P NUL \<Longrightarrow> \<exists>n. scan_while P (s @ NUL # rest) = Some n \<and> n \<le> length s"
  by (induction s) auto

text \<open>\<open>strtol\<close> looks no further than the terminator, and is defined on every C string.\<close>

lemma strtol_cstring: "strtol 10 (s @ NUL # rest) = strtol 10 (s @ [NUL])"
  and strtol_cstring_defined: "strtol 10 (s @ [NUL]) \<noteq> None"
proof -
  have ns: "\<not> c_isspace NUL" "\<not> is_digit 10 NUL" by (simp_all add: c_isspace_def c_isdigit_def)
  obtain w where w: "scan_while c_isspace (s @ NUL # r) = Some w" "w \<le> length s" for r
    using scan_while_cstring_Some [of c_isspace s] scan_while_cstring [of c_isspace s] ns(1) by metis
  define c where "c = (s @ [NUL]) ! w"
  have c: "nth_opt (s @ NUL # r) w = Some c" for r
    using w(2) by (auto simp: nth_opt_def c_def nth_append)
  define k where "k = (if c = CHR ''-'' \<or> c = CHR ''+'' then 1 else 0 :: nat)"
  have "w < length s" if "c = CHR ''-'' \<or> c = CHR ''+''"
    using that w(2) by (auto simp: c_def nth_append split: if_splits)
  then have wk: "w + k \<le> length s" using w(2) by (auto simp: k_def)
  have dr: "drop (w + k) (s @ NUL # r) = drop (w + k) s @ NUL # r" for r using wk by simp
  obtain n where n: "scan_while (is_digit 10) (drop (w + k) s @ NUL # r) = Some n"
      "n \<le> length (drop (w + k) s)" for r
    using scan_while_cstring_Some [of "is_digit 10" "drop (w + k) s"]
      scan_while_cstring [of "is_digit 10" "drop (w + k) s"] ns(2) by metis
  have tk: "take n (drop (w + k) s @ NUL # r) = take n (drop (w + k) s)" for r using n(2) by simp
  have hp: "hex_prefix 10 m = Some 0" for m by (simp add: hex_prefix_def)
  have "strtol 10 (s @ NUL # r) =
    (let u = int (digits_val 10 (take n (drop (w + k) s)));
         v = (if c = CHR ''-'' then - u else u)
     in Some (if n = 0 then (0, 0, NoConv)
           else if v < LONG_MIN then (LONG_MIN, w + k + n, OutOfRange)
           else if LONG_MAX < v then (LONG_MAX, w + k + n, OutOfRange)
           else (v, w + k + n, Conv)))" for r
    by (simp only: strtol_def w(1) Option.bind.simps c Let_def k_def [symmetric] hp dr n(1) tk
        add_0_right)
  then show "strtol 10 (s @ NUL # rest) = strtol 10 (s @ [NUL])" "strtol 10 (s @ [NUL]) \<noteq> None"
    by (simp_all add: Let_def)
qed

lemma strtol_value_show_nat: "int n \<le> LONG_MAX \<Longrightarrow> strtol_value (show_nat n) = int n"
  using strtol_show_nat [of n NUL "[]"] by (simp add: strtol_value_def c_isdigit_def)

text \<open>\<open>process_header\<close> on a name and a value that are C strings in the buffer.\<close>

lemma process_header_effect:
  assumes "mem_from (sbuf b) (br_start (current_header_name ctx)) = Some (name @ NUL # r1)"
    and "mem_from (sbuf b) (br_start (current_header_value ctx)) = Some (val @ NUL # r2)"
    and "NUL \<notin> set name" and "NUL \<notin> set val"
  shows "\<exists>e'. process_header env ctx b e =
    Some (RC MNHTTP_PARSE_NEED_MORE, header_effect (name, val) ctx, e')"
proof -
  obtain v n cv where v: "strtol 10 (val @ NUL # r2) = Some (v, n, cv)"
    using strtol_cstring_defined [of val] strtol_cstring [of val r2]
    by (metis option.exhaust prod_cases3)
  have "strtol_value val = v"
    using v strtol_cstring [of val r2] by (simp add: strtol_value_def)
  with assms v show ?thesis
    by (simp add: process_header_def strcasecmp_cstring strcmp_cstring header_effect_def)
qed

section \<open>One field\<close>

text \<open>A field as the sender writes it: name, blanks after the colon, value.\<close>

type_synonym field = "string \<times> string \<times> string"

definition field_text :: "field \<Rightarrow> string" where
  "field_text f = (case f of (name, ws, val) \<Rightarrow> name @ CHR '':'' # ws @ val)"

definition good_field :: "field \<Rightarrow> bool" where
  "good_field f = (case f of (name, ws, val) \<Rightarrow>
     CHR '':'' \<notin> set name \<and> CR \<notin> set name \<and> NUL \<notin> set name \<and> list_all ISSPACE ws \<and>
     val \<noteq> [] \<and> \<not> ISSPACE (hd val) \<and> CR \<notin> set val \<and> NUL \<notin> set val)"

lemma good_field_CR: "good_field f \<Longrightarrow> CR \<notin> set (field_text f)"
  by (cases f) (auto simp: good_field_def field_text_def list_all_iff simp del: not_ISSPACE dest: bspec [where x = CR] simp: not_ISSPACE(1))

text \<open>A header callback that reads the field's name and value as C strings.\<close>

definition cstr_at :: "bytestream \<Rightarrow> int \<Rightarrow> string option" where
  "cstr_at b i = Option.bind (mem_from (sbuf b) i) cstring"

definition header_reader :: "(string option \<Rightarrow> string option \<Rightarrow> 'u \<Rightarrow> 'u) \<Rightarrow> 'u mnhttp_cb" where
  "header_reader g ctx b u =
     (0, ctx, b, g (cstr_at b (br_start (current_header_name ctx)))
                   (cstr_at b (br_start (current_header_value ctx))) u)"

text \<open>The stream asks for data exactly when all of it has been read.\<close>

definition needmore_law :: "'w bs_env \<Rightarrow> bool" where
  "needmore_law env \<longleftrightarrow> (\<forall>b. SNEEDMORE env b \<longleftrightarrow> seod b \<le> spos b)"

lemma refill_none: "needmore_law env \<Longrightarrow> spos (m_in st) < seod (m_in st) \<Longrightarrow> refill env st = Inl st"
  by (simp add: refill_def needmore_law_def)

lemma wr_append: "p = int (length xs) \<Longrightarrow> wr (xs @ y # ys) p z = Some (xs @ z # ys)"
  by (simp add: wr_def put_def)

lemma mem_from_append: "p = int (length xs) \<Longrightarrow> mem_from (xs @ ys) p = Some ys"
  by (simp add: mem_from_def)

lemma memchr_append:
  assumes "p = int (length xs)" and "c \<notin> set ys" and "int (length ys) < n"
  shows "memchr (xs @ ys @ c # zs) p c n = Some (Some (p + int (length ys)))"
proof -
  obtain k where "nat n = length ys + Suc k"
    using assms(3) by (metis add_Suc_right less_natE nat_int nat_less_eq_zless of_nat_0_le_iff)
  then show ?thesis
    using assms by (simp add: memchr_def mem_from_append strchr_append)
qed

lemma cstr_at_append:
  "p = int (length xs) \<Longrightarrow> NUL \<notin> set s \<Longrightarrow> sbuf b = xs @ s @ NUL # ys \<Longrightarrow> cstr_at b p = Some s"
  by (simp add: cstr_at_def mem_from_append cstring_append)

text \<open>Cutting a field's line into the C strings of its name and value.\<close>

lemma header_scans:
  assumes "m = pre @ name @ CHR '':'' # ws @ val @ CR # LF # rest" and "good_field (name, ws, val)" and "length m < 2 ^ 31"
    and "p = int (length pre)" and "tmp = p + int (length name)" and "vs = tmp + 1 + int (length ws)" and "en = vs + int (length val)"
  shows "memchr m p (CHR '':'') (en - p) = Some (Some tmp)"
    and "wr m tmp NUL = Some (pre @ name @ NUL # ws @ val @ CR # LF # rest)"
    and "findnosp (pre @ name @ NUL # ws @ val @ CR # LF # rest) (tmp + 1) (c_int (en - (tmp + 1))) = Some (Some vs)"
    and "wr (pre @ name @ NUL # ws @ val @ CR # LF # rest) en NUL = Some (pre @ name @ NUL # ws @ val @ NUL # LF # rest)"
proof -
  note d = assms(4-7)
  have ff: "CHR '':'' \<notin> set name" "list_all ISSPACE ws" "val \<noteq> []" "\<not> ISSPACE (hd val)" using assms(2) by (simp_all add: good_field_def)
  show "memchr m p (CHR '':'') (en - p) = Some (Some tmp)"
    unfolding assms(1,5) by (rule memchr_append) (use ff in \<open>simp_all add: d\<close>)
  show "wr m tmp NUL = Some (pre @ name @ NUL # ws @ val @ CR # LF # rest)"
    using wr_append [of tmp "pre @ name"] by (simp add: assms(1) d)
  have "c_int (en - (tmp + 1)) = en - (tmp + 1)" using assms(3) by (intro c_int_id) (auto simp: int_ok_def d assms(1))
  moreover have "findnosp (pre @ name @ NUL # ws @ val @ CR # LF # rest) (tmp + 1) (en - (tmp + 1)) = Some (Some (tmp + 1 + int (length ws)))"
    by (rule findnosp_run [where xs = val and ys = "CR # LF # rest"]) (use ff in \<open>simp_all add: d nat_add_distrib\<close>)
  ultimately show "findnosp (pre @ name @ NUL # ws @ val @ CR # LF # rest) (tmp + 1) (c_int (en - (tmp + 1))) = Some (Some vs)"
    by (simp add: assms(6))
  show "wr (pre @ name @ NUL # ws @ val @ CR # LF # rest) en NUL = Some (pre @ name @ NUL # ws @ val @ NUL # LF # rest)"
    using wr_append [of en "pre @ name @ NUL # ws @ val"] by (simp add: d)
qed

lemma header_line_effect:
  assumes buf: "sbuf (m_in st) = pre @ name @ CHR '':'' # ws @ val @ CR # LF # rest"
    and start: "br_start (current_header_name (m_ctx st)) = int (length pre)"
    and en: "en = int (length (pre @ field_text (name, ws, val)))"
    and f: "good_field (name, ws, val)" and len: "length (sbuf (m_in st)) < 2 ^ 31"
  shows "\<exists>cn cv e'. header_line env (Some (header_reader g)) en st =
    Some (Inl (st\<lparr>m_errno := e', m_udata := g (Some name) (Some val) (m_udata st),
                  m_ctx := (header_effect (name, val) (m_ctx st))\<lparr>current_header_name := cn,
                              current_header_value := cv, parser_state := PS_HEADER_FIELD_IN\<rparr>,
                  m_in := (m_in st)\<lparr>sbuf := pre @ name @ NUL # ws @ val @ NUL # LF # rest,
                                     spos := en + 2\<rparr>\<rparr>))"
proof -
  define b ctx where "b = m_in st" and "ctx = m_ctx st"
  define p tmp vs where "p = int (length pre)" and "tmp = p + int (length name)"
    and "vs = tmp + 1 + int (length ws)"
  define b2 where "b2 = b\<lparr>sbuf := pre @ name @ NUL # ws @ val @ NUL # LF # rest\<rparr>"
  define ctx2 where "ctx2 = ctx\<lparr>current_header_value := (current_header_value ctx)\<lparr>br_end := en\<rparr>\<rparr>
    \<lparr>current_header_name := (current_header_name ctx)\<lparr>br_end := tmp\<rparr>,
     current_header_value := (current_header_value ctx)\<lparr>br_end := en\<rparr>\<lparr>br_start := vs\<rparr>\<rparr>"
  have ff: "NUL \<notin> set name" "NUL \<notin> set val" using f by (simp_all add: good_field_def)
  have en': "en = vs + int (length val)" by (simp add: en vs_def tmp_def p_def field_text_def)
  have m2: "sbuf b2 = pre @ name @ NUL # ws @ val @ NUL # LF # rest" by (simp add: b2_def)
  note c = header_scans [OF buf f len p_def tmp_def vs_def en', folded b_def m2]
  have mn: "mem_from (sbuf b2) (br_start (current_header_name ctx2)) = Some (name @ NUL # ws @ val @ NUL # LF # rest)"
    using start by (simp add: b2_def ctx2_def ctx_def mem_from_append)
  have mv: "mem_from (sbuf b2) (br_start (current_header_value ctx2)) = Some (val @ NUL # LF # rest)"
    using mem_from_append [of vs "pre @ name @ NUL # ws"]
    by (simp add: b2_def ctx2_def vs_def tmp_def p_def)
  obtain e' where e': "process_header env ctx2 b2 (m_errno st) =
      Some (RC MNHTTP_PARSE_NEED_MORE, header_effect (name, val) ctx2, e')"
    using process_header_effect [OF mn mv ff] by blast
  have rd: "cstr_at b2 (br_start (current_header_name ctx2)) = Some name"
    "cstr_at b2 (br_start (current_header_value ctx2)) = Some val"
    using mn mv ff by (simp_all add: cstr_at_def cstring_append)
  have eff: "header_effect (name, val) ctx2 = (header_effect (name, val) ctx)\<lparr>current_header_name :=
      current_header_name ctx2, current_header_value := current_header_value ctx2\<rparr>"
    by (simp add: header_effect_def ctx2_def)
  have st: "br_start (current_header_name ctx) = p" using start by (simp add: ctx_def p_def)
  have "header_line env (Some (header_reader g)) en st =
    Some (Inl ((set_state PS_HEADER_FIELD_IN (st\<lparr>m_errno := e', m_ctx := header_effect (name, val) ctx2, m_in := b2,
      m_udata := g (Some name) (Some val) (m_udata st)\<rparr>))\<lparr>m_in := b2\<lparr>spos := en + 2\<rparr>\<rparr>))"
    unfolding header_line_def Let_def b_def [symmetric] ctx_def [symmetric] st c Option.bind.simps option.case SDPOS_def
    using e' rd eff by (simp add: ctx2_def b2_def call_cb_def header_reader_def)
  then show ?thesis
    by (intro exI [of _ "current_header_name ctx2"] exI [of _ "current_header_value ctx2"] exI [of _ e'])
      (simp add: set_state_def eff b2_def b_def ctx_def)
qed

lemma header_effect_ranges:
  "header_effect h (c\<lparr>current_header_value := y\<rparr>) = (header_effect h c)\<lparr>current_header_value := y\<rparr>"
  "header_effect h (c\<lparr>current_header_name := x\<rparr>) = (header_effect h c)\<lparr>current_header_name := x\<rparr>"
  "header_effect h (c\<lparr>parser_state := z\<rparr>) = (header_effect h c)\<lparr>parser_state := z\<rparr>"
  by (simp_all add: header_effect_def)

text \<open>Name and value of a field, and what a header reader makes of it.\<close>

definition name_value :: "field \<Rightarrow> string \<times> string" where
  "name_value f = (fst f, snd (snd f))"

definition read_field :: "(string option \<Rightarrow> string option \<Rightarrow> 'u \<Rightarrow> 'u) \<Rightarrow> field \<Rightarrow> 'u \<Rightarrow> 'u" where
  "read_field g f u = g (Some (fst f)) (Some (snd (snd f))) u"

lemma header_step_in:
  assumes "needmore_law env" and "parser_state (m_ctx st) = PS_HEADER_FIELD_IN"
    and "spos (m_in st) < seod (m_in st)"
  shows "message_step env pl lcb hcb bcb st =
    Some (Inl (st\<lparr>m_ctx := (m_ctx st)\<lparr>
      current_header_name := (current_header_name (m_ctx st))\<lparr>br_start := spos (m_in st)\<rparr>,
      parser_state := PS_HEADER_FIELD_OUT\<rparr>\<rparr>))"
  using assms by (simp add: message_step_def refill_none dispatch_def step_header_in_def)

text \<open>The round that finds the end of the line.\<close>

lemma header_step_out:
  assumes start: "br_start (current_header_name (m_ctx st)) = int (length pre)"
    and buf: "sbuf (m_in st) = pre @ field_text f @ crlf @ rest" and ok: "stream_ok (m_in st)"
    and room: "int (length (pre @ field_text f)) + 2 \<le> seod (m_in st)" and f: "good_field f"
  shows "\<exists>cn cv e' pre'.
    step_header_out env (Some (header_reader g)) bcb st =
      Some (Inl (st\<lparr>m_errno := e', m_udata := read_field g f (m_udata st),
                    m_ctx := (header_effect (name_value f) (m_ctx st))\<lparr>current_header_name := cn,
                                current_header_value := cv, parser_state := PS_HEADER_FIELD_IN\<rparr>,
                    m_in := (m_in st)\<lparr>sbuf := pre' @ rest, spos := int (length pre')\<rparr>\<rparr>)) \<and>
    length pre' = length pre + length (field_text f) + 2"
proof -
  obtain name ws val where nv: "f = (name, ws, val)" by (cases f) auto
  define en where "en = int (length (pre @ field_text f))"
  have ne: "en \<noteq> int (length pre)" by (simp add: en_def nv field_text_def)
  have fc: "findcrlf (sbuf (m_in st)) (int (length pre)) (c_int (seod (m_in st) - int (length pre))) = Some (Some en)"
    using line_end_found [OF ok, of "int (length pre)" "field_text f" rest] room good_field_CR [OF f] by (simp add: en_def buf)
  have buf': "sbuf (m_in st) = pre @ name @ CHR '':'' # ws @ val @ CR # LF # rest"
    using buf by (simp add: nv field_text_def)
  obtain cn cv e' where h: "header_line env (Some (header_reader g)) en st =
    Some (Inl (st\<lparr>m_errno := e', m_udata := g (Some name) (Some val) (m_udata st),
                  m_ctx := (header_effect (name, val) (m_ctx st))\<lparr>current_header_name := cn,
                              current_header_value := cv, parser_state := PS_HEADER_FIELD_IN\<rparr>,
                  m_in := (m_in st)\<lparr>sbuf := pre @ name @ NUL # ws @ val @ NUL # LF # rest,
                                     spos := en + 2\<rparr>\<rparr>))"
    using header_line_effect [OF buf' start, of en env g] f ok by (auto simp: en_def nv stream_ok_def)
  define pre' where "pre' = pre @ name @ NUL # ws @ val @ [NUL, LF]"
  have "step_header_out env (Some (header_reader g)) bcb st = header_line env (Some (header_reader g)) en st"
    using ne fc by (simp add: step_header_out_def start Let_def)
  then show ?thesis unfolding h
    by (intro exI [of _ cn] exI [of _ cv] exI [of _ e'] exI [of _ pre'])
      (simp add: pre'_def en_def nv field_text_def read_field_def name_value_def)
qed

lemma header_round:
  assumes law: "needmore_law env" and ps: "parser_state (m_ctx st) = PS_HEADER_FIELD_IN"
    and buf: "sbuf (m_in st) = pre @ field_text f @ crlf @ rest"
    and pos: "spos (m_in st) = int (length pre)" and ok: "stream_ok (m_in st)"
    and room: "int (length (pre @ field_text f)) + 2 \<le> seod (m_in st)" and f: "good_field f"
  shows "\<exists>cn cv e' pre'.
    run_steps 2 (message_step env pl lcb (Some (header_reader g)) bcb) st =
      Running (st\<lparr>m_errno := e', m_udata := read_field g f (m_udata st),
                  m_ctx := (header_effect (name_value f) (m_ctx st))\<lparr>current_header_name := cn,
                              current_header_value := cv, parser_state := PS_HEADER_FIELD_IN\<rparr>,
                  m_in := (m_in st)\<lparr>sbuf := pre' @ rest, spos := int (length pre')\<rparr>\<rparr>) \<and>
    length pre' = length pre + length (field_text f) + 2"
proof -
  define st1 where "st1 = st\<lparr>m_ctx := (m_ctx st)\<lparr>
      current_header_name := (current_header_name (m_ctx st))\<lparr>br_start := spos (m_in st)\<rparr>,
      parser_state := PS_HEADER_FIELD_OUT\<rparr>\<rparr>"
  have lt: "spos (m_in st) < seod (m_in st)" using room pos by simp
  have r1: "message_step env pl lcb (Some (header_reader g)) bcb st = Some (Inl st1)"
    unfolding st1_def by (rule header_step_in [OF law ps lt])
  have st1: "m_in st1 = m_in st" "br_start (current_header_name (m_ctx st1)) = int (length pre)"
    "parser_state (m_ctx st1) = PS_HEADER_FIELD_OUT"
    by (simp_all add: st1_def pos)
  obtain cn cv e' pre' where h: "step_header_out env (Some (header_reader g)) bcb st1 =
      Some (Inl (st1\<lparr>m_errno := e', m_udata := read_field g f (m_udata st1),
                    m_ctx := (header_effect (name_value f) (m_ctx st1))\<lparr>current_header_name := cn,
                                current_header_value := cv, parser_state := PS_HEADER_FIELD_IN\<rparr>,
                    m_in := (m_in st1)\<lparr>sbuf := pre' @ rest, spos := int (length pre')\<rparr>\<rparr>))"
      and l: "length pre' = length pre + length (field_text f) + 2"
    using header_step_out [OF st1(2), of f rest env g bcb] buf ok room f by (auto simp: st1)
  have r2: "message_step env pl lcb (Some (header_reader g)) bcb st1 = step_header_out env (Some (header_reader g)) bcb st1"
    using lt by (simp add: message_step_def refill_none [OF law] dispatch_def st1)
  show ?thesis using r1 r2 h l
    by (intro exI [of _ cn] exI [of _ cv] exI [of _ e'] exI [of _ pre'])
      (simp add: numeral_2_eq_2 st1_def header_effect_ranges)
qed

section \<open>The whole section\<close>

definition headers_text :: "field list \<Rightarrow> string" where
  "headers_text fs = concat (map (\<lambda>f. field_text f @ crlf) fs)"

lemma header_rounds:
  assumes "needmore_law env" and "parser_state (m_ctx st) = PS_HEADER_FIELD_IN"
    and "sbuf (m_in st) = pre @ headers_text fs @ rest"
    and "spos (m_in st) = int (length pre)" and "stream_ok (m_in st)"
    and "int (length (pre @ headers_text fs)) \<le> seod (m_in st)" and "list_all good_field fs"
  shows "\<exists>cn cv e' pre'.
    run_steps (2 * length fs) (message_step env pl lcb (Some (header_reader g)) bcb) st =
      Running (st\<lparr>m_errno := e', m_udata := fold (read_field g) fs (m_udata st),
                  m_ctx := (fold header_effect (map name_value fs) (m_ctx st))\<lparr>current_header_name := cn,
                              current_header_value := cv, parser_state := PS_HEADER_FIELD_IN\<rparr>,
                  m_in := (m_in st)\<lparr>sbuf := pre' @ rest, spos := int (length pre')\<rparr>\<rparr>) \<and>
    length pre' = length pre + length (headers_text fs)"
  using assms
proof (induction fs arbitrary: st pre)
  case Nil
  then show ?case
    by (intro exI [of _ "current_header_name (m_ctx st)"] exI [of _ "current_header_value (m_ctx st)"]
        exI [of _ "m_errno st"] exI [of _ pre]) (simp add: headers_text_def)
next
  case (Cons f fs)
  let ?F = "message_step env pl lcb (Some (header_reader g)) bcb"
  obtain cn cv e' pre' where r: "run_steps 2 ?F st =
      Running (st\<lparr>m_errno := e', m_udata := read_field g f (m_udata st),
                  m_ctx := (header_effect (name_value f) (m_ctx st))\<lparr>current_header_name := cn,
                              current_header_value := cv, parser_state := PS_HEADER_FIELD_IN\<rparr>,
                  m_in := (m_in st)\<lparr>sbuf := pre' @ headers_text fs @ rest, spos := int (length pre')\<rparr>\<rparr>)"
    (is "_ = Running ?st1")
    and l: "length pre' = length pre + length (field_text f) + 2"
    using header_round [of env st pre f "headers_text fs @ rest" pl lcb g bcb] Cons.prems
    by (auto simp: headers_text_def)
  obtain cn2 cv2 e2 pre2 where r2: "run_steps (2 * length fs) ?F ?st1 =
      Running (?st1\<lparr>m_errno := e2, m_udata := fold (read_field g) fs (m_udata ?st1),
                  m_ctx := (fold header_effect (map name_value fs) (m_ctx ?st1))\<lparr>current_header_name := cn2,
                              current_header_value := cv2, parser_state := PS_HEADER_FIELD_IN\<rparr>,
                  m_in := (m_in ?st1)\<lparr>sbuf := pre2 @ rest, spos := int (length pre2)\<rparr>\<rparr>)"
    and l2: "length pre2 = length pre' + length (headers_text fs)"
    using Cons.IH [of ?st1 pre'] Cons.prems l by (auto simp: headers_text_def stream_ok_def)
  have fold_ranges: "fold header_effect hs (c\<lparr>current_header_name := x, current_header_value := y, parser_state := z\<rparr>) =
     (fold header_effect hs c)\<lparr>current_header_name := x, current_header_value := y, parser_state := z\<rparr>" for hs c x y z
    by (induction hs arbitrary: c) (simp_all add: header_effect_ranges)
  have "run_steps (2 * length (f # fs)) ?F st =
      Running (st\<lparr>m_errno := e2, m_udata := fold (read_field g) (f # fs) (m_udata st),
                  m_ctx := (fold header_effect (map name_value (f # fs)) (m_ctx st))\<lparr>current_header_name := cn2,
                              current_header_value := cv2, parser_state := PS_HEADER_FIELD_IN\<rparr>,
                  m_in := (m_in st)\<lparr>sbuf := pre2 @ rest, spos := int (length pre2)\<rparr>\<rparr>)"
    using run_steps_trans [OF r, of "2 * length fs"] r2 by (simp add: fold_ranges)
  moreover have "length pre2 = length pre + length (headers_text (f # fs))"
    using l l2 by (simp add: headers_text_def)
  ultimately show ?case by blast
qed

end
