(* ===== verification/HttpBody.thy ===== *)
theory HttpBody
  imports HttpHeader
begin

text \<open>
  The message body. What a body callback sees is the range \<open>current_chunk\<close> of the stream
  (\<open>chunk_bytes\<close>). \<open>plain_body_complete\<close> is about a body of \<open>Content-Length\<close> bytes, the chunk
  lemmas about the chunked coding: \<open>chunks_decoded\<close> says that the rounds of the message loop hand
  the callback exactly the data of each chunk and stop right after the last one.
\<close>

section \<open>Unread data and its recycling\<close>

definition unread :: "bytestream \<Rightarrow> string" where
  "unread b = take (nat (seod b - spos b)) (drop (nat (spos b)) (sbuf b))"

text \<open>A stream position inside the data.\<close>

definition pos_ok :: "bytestream \<Rightarrow> bool" where
  "pos_ok b \<longleftrightarrow> stream_ok b \<and> 0 \<le> spos b \<and> spos b \<le> seod b"

text \<open>A stream in order, with the given text left to read.\<close>

definition left_over :: "bytestream \<Rightarrow> string \<Rightarrow> bool" where
  "left_over b s \<longleftrightarrow> pos_ok b \<and> unread b = s"

text \<open>
  \<open>bytestream_recycle(in, n, until)\<close> drops some bytes before \<open>until\<close>, moving the rest of the data
  to the front, and returns how many.
\<close>

definition recycle_law :: "'w bs_env \<Rightarrow> bool" where
  "recycle_law env \<longleftrightarrow>
     (\<forall>b n u. pos_ok b \<and> 0 \<le> u \<and> u \<le> spos b \<longrightarrow>
        (case bytestream_recycle env b n u of (r, b') \<Rightarrow>
           0 \<le> r \<and> r \<le> u \<and> length (sbuf b') = length (sbuf b) \<and> seod b' = seod b - r \<and>
           spos b' = spos b - r \<and>
           take (nat (seod b')) (sbuf b') = take (nat (seod b')) (drop (nat r) (sbuf b))))"

lemma recycle_lawD:
  assumes "recycle_law env" and "pos_ok b" and "0 \<le> u" and "u \<le> spos b"
  shows "case bytestream_recycle env b n u of (r, b') \<Rightarrow>
    pos_ok b' \<and> unread b' = unread b \<and> spos b' = spos b - r \<and> seod b' \<le> seod b \<and> 0 \<le> r \<and> r \<le> u"
proof -
  obtain r b' where rb: "bytestream_recycle env b n u = (r, b')" by (cases "bytestream_recycle env b n u")
  have *: "0 \<le> r" "r \<le> u" "length (sbuf b') = length (sbuf b)" "seod b' = seod b - r" "spos b' = spos b - r"
    "take (nat (seod b')) (sbuf b') = take (nat (seod b')) (drop (nat r) (sbuf b))"
    using assms(1) [unfolded recycle_law_def, rule_format, of b u n] assms(2-4)
    unfolding rb prod.case by blast+
  have ok: "pos_ok b'" using assms(2-4) *(1-5) by (auto simp: pos_ok_def stream_ok_def)
  have "unread b' = drop (nat (spos b')) (take (nat (seod b')) (sbuf b'))"
    using ok by (simp add: unread_def drop_take nat_diff_distrib pos_ok_def)
  also have "\<dots> = take (nat (seod b') - nat (spos b')) (drop (nat (spos b') + nat r) (sbuf b))"
    unfolding *(6) by (simp add: drop_take)
  also have "nat (spos b') + nat r = nat (spos b)" using * assms by (simp add: nat_add_distrib [symmetric])
  also have "nat (seod b') - nat (spos b') = nat (seod b - spos b)" using * assms ok by (simp add: pos_ok_def nat_diff_distrib)
  finally show ?thesis using ok * by (simp add: rb unread_def)
qed

lemma unread_split:
  assumes "pos_ok b" and "unread b = xs @ ys"
  obtains pre rest where "sbuf b = pre @ xs @ rest" and "int (length pre) = spos b"
    and "spos b + int (length xs) \<le> seod b"
    and "pos_ok (b\<lparr>spos := spos b + int (length xs)\<rparr>)"
    and "unread (b\<lparr>spos := spos b + int (length xs)\<rparr>) = ys"
proof -
  let ?p = "nat (spos b)" and ?k = "nat (seod b - spos b)"
  have p: "?p + ?k = nat (seod b)" "nat (seod b) \<le> length (sbuf b)"
    using assms(1) by (auto simp: pos_ok_def stream_ok_def)
  have d: "drop ?p (sbuf b) = xs @ ys @ drop ?k (drop ?p (sbuf b))"
    using append_take_drop_id [of ?k "drop ?p (sbuf b)"] assms(2) by (simp add: unread_def)
  have len: "length xs + length ys = ?k"
    using arg_cong [OF assms(2), of length] p by (simp add: unread_def)
  let ?b = "b\<lparr>spos := spos b + int (length xs)\<rparr>"
  have le: "spos b + int (length xs) \<le> seod b" using len assms(1) unfolding pos_ok_def by linarith
  have nd: "nat (seod b - (spos b + int (length xs))) = nat (seod b - spos b) - length xs" by simp
  have "unread ?b = take (nat (seod b - spos b) - length xs) (drop (length xs) (drop ?p (sbuf b)))"
    using assms(1) nd by (simp add: unread_def pos_ok_def nat_add_distrib add.commute)
  also have "\<dots> = ys" by (subst d) (simp add: len [symmetric])
  finally have u: "unread ?b = ys" .
  show thesis
  proof (rule that)
    show "sbuf b = take ?p (sbuf b) @ xs @ ys @ drop ?k (drop ?p (sbuf b))"
      using d by (metis append_take_drop_id)
    show "int (length (take ?p (sbuf b))) = spos b"
      using p assms(1) by (simp add: pos_ok_def)
    show "pos_ok ?b" using assms(1) le by (simp add: pos_ok_def stream_ok_def)
  qed (use le u in simp_all)
qed

lemma unread_nonempty: "pos_ok b \<Longrightarrow> unread b \<noteq> [] \<Longrightarrow> spos b < seod b"
  by (auto simp: unread_def)

section \<open>What a body callback sees\<close>

definition chunk_bytes :: "mnhttp_ctx \<Rightarrow> bytestream \<Rightarrow> string" where
  "chunk_bytes ctx b =
     take (nat (br_end (current_chunk ctx) - br_start (current_chunk ctx)))
       (drop (nat (br_start (current_chunk ctx))) (sbuf b))"

definition body_reader :: "(string \<Rightarrow> 'u \<Rightarrow> 'u) \<Rightarrow> 'u mnhttp_cb" where
  "body_reader h ctx b u = (0, ctx, b, h (chunk_bytes ctx b) u)"

text \<open>Two contexts that agree on what was read from the first line.\<close>

definition same_head :: "mnhttp_ctx \<Rightarrow> mnhttp_ctx \<Rightarrow> bool" where
  "same_head c d \<longleftrightarrow>
     version_major c = version_major d \<and> version_minor c = version_minor d \<and> code c = code d \<and>
     request_uri c = request_uri d \<and> ctx_udata c = ctx_udata d"

lemma recycle_stream_buffer_law:
  assumes "recycle_law env" and "pos_ok b" and "0 \<le> br_start (current_chunk ctx)"
    and "br_start (current_chunk ctx) \<le> spos b"
  shows "\<exists>ctx' b' r. recycle_stream_buffer env ctx b = (ctx', b') \<and> pos_ok b' \<and> unread b' = unread b \<and>
    spos b' = spos b - r \<and> seod b' \<le> seod b \<and>
    current_chunk ctx' = \<lparr>br_start = br_start (current_chunk ctx) - r, br_end = br_end (current_chunk ctx) - r\<rparr> \<and>
    same_head ctx' ctx \<and> bodysz ctx' = bodysz ctx \<and> chunked ctx' = chunked ctx \<and>
    chunk_parser_state ctx' = chunk_parser_state ctx \<and> parser_state ctx' = parser_state ctx"
  using recycle_lawD [OF assms, of 512]
  by (auto simp: recycle_stream_buffer_def same_head_def Let_def split: prod.split)

section \<open>A body of known length\<close>

lemma plain_body_complete:
  assumes "recycle_law env" and "pos_ok b" and "unread b = bdy @ rest"
    and "body ctx = \<lparr>br_start = spos b, br_end = spos b\<rparr>"
    and "current_chunk ctx = \<lparr>br_start = spos b, br_end = spos b\<rparr>"
    and "bodysz ctx = int (length bdy)"
  shows "\<exists>ctx' b'. process_plain_body env (Some (body_reader h)) ctx b u e =
      Some (RC 0, ctx', b', h bdy u, e) \<and> pos_ok b' \<and> unread b' = rest \<and>
    same_head ctx' ctx \<and> bodysz ctx' = bodysz ctx \<and> parser_state ctx' = parser_state ctx"
proof -
  obtain pre r where s: "sbuf b = pre @ bdy @ r" "int (length pre) = spos b"
      "spos b + int (length bdy) \<le> seod b" "pos_ok (b\<lparr>spos := spos b + int (length bdy)\<rparr>)"
      "unread (b\<lparr>spos := spos b + int (length bdy)\<rparr>) = rest"
    using unread_split [OF assms(2,3)] by blast
  define p where "p = spos b + int (length bdy)"
  define ctx1 where "ctx1 = ctx\<lparr>body := \<lparr>br_start = spos b, br_end = p\<rparr>,
    current_chunk := \<lparr>br_start = spos b, br_end = p\<rparr>\<rparr>"
  have cb: "chunk_bytes ctx1 (b\<lparr>spos := p\<rparr>) = bdy"
    using s(1) by (simp add: chunk_bytes_def ctx1_def p_def s(2) [symmetric])
  obtain ctx' b' where rc: "recycle_stream_buffer env ctx1 (b\<lparr>spos := p\<rparr>) = (ctx', b')" "pos_ok b'"
      "unread b' = rest" "same_head ctx' ctx1" "bodysz ctx' = bodysz ctx1" "parser_state ctx' = parser_state ctx1"
    using recycle_stream_buffer_law [OF assms(1) s(4), of ctx1] assms(2) s(5)
    by (auto simp: p_def ctx1_def pos_ok_def)
  have pb: "p - spos b = int (length bdy)" by (simp add: p_def)
  have m: "min (seod b - spos b) (int (length bdy)) = int (length bdy)" using s(3) by simp
  have "process_plain_body env (Some (body_reader h)) ctx b u e = Some (RC 0, ctx', b', h bdy u, e)"
    using m rc(1) cb
    by (simp add: process_plain_body_def assms(4-6) call_cb_def body_reader_def p_def [symmetric]
        ctx1_def [symmetric] Let_def pb)
  with rc show ?thesis by (auto simp: ctx1_def same_head_def)
qed

section \<open>The chunked coding\<close>

text \<open>A chunk is its size in hexadecimal digits and its data; the last one is empty.\<close>

definition chunk_text :: "string \<times> string \<Rightarrow> string" where
  "chunk_text c = fst c @ crlf @ snd c @ crlf"

definition good_chunk :: "string \<times> string \<Rightarrow> bool" where
  "good_chunk c \<longleftrightarrow> fst c \<noteq> [] \<and> list_all (is_digit 16) (fst c) \<and>
     digits_val 16 (fst c) = length (snd c) \<and> int (length (snd c)) < 2 ^ 31"

lemma is_digit_CR [simp]: "\<not> is_digit 16 CR" "is_digit 16 c \<Longrightarrow> c \<noteq> CR"
  by (auto simp: is_digit_def digit_val_def c_isdigit_def c_isupper_def c_islower_def)

text \<open>The states of the message loop in a chunked body.\<close>

definition size_state :: "('w, 'u) mstate \<Rightarrow> bool" where
  "size_state st \<longleftrightarrow> parser_state (m_ctx st) = PS_BODY \<and> chunked (m_ctx st) \<and>
     chunk_parser_state (m_ctx st) = PS_CHUNK_SIZE \<and> pos_ok (m_in st) \<and>
     current_chunk (m_ctx st) = \<lparr>br_start = spos (m_in st), br_end = spos (m_in st)\<rparr>"

lemma chunk_size_at:
  assumes "stream_ok b" and "0 \<le> p" and "drop (nat p) (sbuf b) = ds @ crlf @ rest" and "p + int (length ds) + 2 \<le> seod b" and "good_chunk (ds, data)"
    and "br_start (current_chunk ctx) = p" and "int_ok (bodysz ctx + int (length data))"
  shows "process_chunk_size env ctx b u e =
    Some (RC MNHTTP_PARSE_NEED_MORE,
          ctx\<lparr>current_chunk_size := int (length data), bodysz := bodysz ctx + int (length data),
              current_chunk := \<lparr>br_start = p + int (length ds) + 2, br_end = p + int (length ds) + 2\<rparr>,
              chunk_parser_state := PS_CHUNK_DATA\<rparr>,
          b\<lparr>spos := p + int (length ds) + 2\<rparr>, u, e)"
proof -
  have g: "ds \<noteq> []" "list_all (is_digit 16) ds" "digits_val 16 ds = length data" "length data < 2 ^ 31"
    using assms(5) by (simp_all add: good_chunk_def)
  have "CR \<notin> set ds" using g(2) is_digit_CR by (auto simp: list_all_iff simp del: is_digit_CR)
  then have "findcrlf (sbuf b) p (c_int (seod b - p)) = Some (Some (p + int (length ds)))"
    using assms(1-4) by (intro line_end_found) simp_all
  moreover have "mem_from (sbuf b) p = Some (ds @ CR # LF # rest)"
    using assms(1-4) by (simp add: mem_from_eq_Some stream_ok_def)
  moreover have "strtol 16 (ds @ CR # LF # rest) = Some (int (length data), length ds, Conv)"
    using g strtol_16 [of ds CR "LF # rest"] by (simp add: LONG_MAX_def)
  moreover have "c_int (int (length data)) = int (length data)" using g(4) by (simp add: int_ok_nat)
  ultimately show ?thesis
    using assms(6,7) by (simp add: process_chunk_size_def Let_def add_int_def strtol_errno_def)
qed

lemma chunk_size_read:
  assumes "pos_ok b" and "unread b = ds @ crlf @ after" and "good_chunk (ds, data)"
    and "br_start (current_chunk ctx) = spos b" and "int_ok (bodysz ctx + int (length data))"
  shows "process_chunk_size env ctx b u e =
    Some (RC MNHTTP_PARSE_NEED_MORE,
          ctx\<lparr>current_chunk_size := int (length data), bodysz := bodysz ctx + int (length data),
              current_chunk := \<lparr>br_start = spos b + int (length ds) + 2, br_end = spos b + int (length ds) + 2\<rparr>,
              chunk_parser_state := PS_CHUNK_DATA\<rparr>,
          b\<lparr>spos := spos b + int (length ds) + 2\<rparr>, u, e)"
proof -
  have u: "unread b = (ds @ crlf) @ after" using assms(2) by simp
  obtain pre rest where s: "sbuf b = pre @ (ds @ crlf) @ rest" "int (length pre) = spos b"
      "spos b + int (length (ds @ crlf)) \<le> seod b"
    using unread_split [OF assms(1) u] by blast
  have "drop (nat (spos b)) (sbuf b) = ds @ crlf @ rest" unfolding s(2) [symmetric] by (simp add: s(1))
  then show ?thesis using assms s(3) by (intro chunk_size_at) (simp_all add: pos_ok_def)
qed

lemma chunk_data_more:
  assumes "pos_ok b" and "unread b = data @ after" and "data \<noteq> []" and "length data < 2 ^ 31"
    and "current_chunk ctx = \<lparr>br_start = spos b, br_end = spos b\<rparr>"
    and "current_chunk_size ctx = int (length data)"
  shows "process_chunk_data env bcb ctx b u e =
    Some (RC MNHTTP_PARSE_NEED_MORE,
          ctx\<lparr>current_chunk := \<lparr>br_start = spos b, br_end = spos b + int (length data)\<rparr>\<rparr>,
          b\<lparr>spos := spos b + int (length data)\<rparr>, u, e)"
proof -
  have "spos b + int (length data) \<le> seod b" using unread_split [OF assms(1,2)] by metis
  moreover have "c_int (seod b - spos b) = seod b - spos b"
    using assms(1) by (intro stream_int_ok [of b]) (auto simp: pos_ok_def stream_ok_def)
  moreover have "c_int (int (length data)) = int (length data)" using assms(4) by (simp add: int_ok_nat)
  ultimately show ?thesis
    using assms(3,5,6) by (simp add: process_chunk_data_def Let_def min_def)
qed

lemma chunk_data_done:
  assumes "recycle_law env" and "pos_ok b" and "unread b = crlf @ after"
    and "current_chunk ctx = \<lparr>br_start = spos b - int (length data), br_end = spos b\<rparr>"
    and "current_chunk_size ctx = int (length data)" and "chunk_bytes ctx b = data"
  shows "\<exists>ctx' b'. process_chunk_data env (Some (body_reader h)) ctx b u e =
      Some (if data \<noteq> [] then RC MNHTTP_PARSE_NEED_MORE else RC 0, ctx', b', h data u, e) \<and>
    pos_ok b' \<and> unread b' = after \<and> seod b' \<le> seod b \<and> current_chunk ctx' = \<lparr>br_start = spos b', br_end = spos b'\<rparr> \<and>
    same_head ctx' ctx \<and> bodysz ctx' = bodysz ctx \<and> chunked ctx' = chunked ctx \<and>
    chunk_parser_state ctx' = PS_CHUNK_SIZE \<and> parser_state ctx' = parser_state ctx"
proof -
  have p: "pos_ok (b\<lparr>spos := spos b + 2\<rparr>)" "unread (b\<lparr>spos := spos b + 2\<rparr>) = after"
    using unread_split [OF assms(2,3)] by (auto elim!: meta_allE)
  define ctx1 where "ctx1 = ctx\<lparr>chunk_parser_state := PS_CHUNK_SIZE,
    current_chunk := \<lparr>br_start = spos b + 2, br_end = spos b + 2\<rparr>\<rparr>"
  obtain ctx' b' r where rc: "recycle_stream_buffer env ctx1 (b\<lparr>spos := spos b + 2\<rparr>) = (ctx', b')"
      "pos_ok b'" "unread b' = after" "seod b' \<le> seod b" "spos b' = spos b + 2 - r"
      "current_chunk ctx' = \<lparr>br_start = spos b + 2 - r, br_end = spos b + 2 - r\<rparr>"
      "same_head ctx' ctx1" "bodysz ctx' = bodysz ctx1" "chunked ctx' = chunked ctx1"
      "chunk_parser_state ctx' = chunk_parser_state ctx1" "parser_state ctx' = parser_state ctx1"
    using recycle_stream_buffer_law [OF assms(1) p(1), of ctx1] assms(2) p(2)
    by (auto simp: ctx1_def pos_ok_def)
  have z: "c_int 0 = 0" by (simp add: c_int_def)
  have "process_chunk_data env (Some (body_reader h)) ctx b u e =
      Some (if data \<noteq> [] then RC MNHTTP_PARSE_NEED_MORE else RC 0, ctx', b', h data u, e)"
    using rc(1) assms(5,6)
    by (simp add: process_chunk_data_def assms(4) call_cb_def body_reader_def ctx1_def Let_def z)
  with rc show ?thesis by (auto simp: ctx1_def same_head_def)
qed

section \<open>Rounds of the loop in a chunked body\<close>

lemma same_head_trans: "same_head a b \<Longrightarrow> same_head b c \<Longrightarrow> same_head a c"
  by (simp add: same_head_def)

lemma body_round:
  assumes "needmore_law env" and "parser_state (m_ctx st) = PS_BODY" and "spos (m_in st) < seod (m_in st)"
  shows "message_step env pl lcb hcb bcb st = step_body env bcb st"
  using assms by (simp add: message_step_def refill_none dispatch_def)

text \<open>Reading a chunk's size line leads to this state, with the data still to be read.\<close>

definition data_state :: "string \<Rightarrow> ('w, 'u) mstate \<Rightarrow> bool" where
  "data_state data st \<longleftrightarrow> parser_state (m_ctx st) = PS_BODY \<and> chunked (m_ctx st) \<and>
     chunk_parser_state (m_ctx st) = PS_CHUNK_DATA \<and> pos_ok (m_in st) \<and>
     current_chunk (m_ctx st) = \<lparr>br_start = spos (m_in st), br_end = spos (m_in st)\<rparr> \<and>
     current_chunk_size (m_ctx st) = int (length data)"

lemma size_round:
  assumes "needmore_law env" and "size_state st" and "unread (m_in st) = chunk_text c @ after"
    and "good_chunk c" and "int_ok (bodysz (m_ctx st) + int (length (snd c)))"
  shows "\<exists>st'. message_step env pl lcb hcb bcb st = Some (Inl st') \<and> data_state (snd c) st' \<and>
    unread (m_in st') = snd c @ crlf @ after \<and> m_udata st' = m_udata st \<and>
    same_head (m_ctx st') (m_ctx st) \<and> bodysz (m_ctx st') = bodysz (m_ctx st) + int (length (snd c))"
proof -
  define b where "b = m_in st"
  have ok: "pos_ok b" and ss: "parser_state (m_ctx st) = PS_BODY" "chunked (m_ctx st)"
    "chunk_parser_state (m_ctx st) = PS_CHUNK_SIZE"
    "current_chunk (m_ctx st) = \<lparr>br_start = spos b, br_end = spos b\<rparr>"
    using assms(2) by (simp_all add: size_state_def b_def)
  have u: "unread b = fst c @ crlf @ snd c @ crlf @ after" "unread b = (fst c @ crlf) @ snd c @ crlf @ after"
    using assms(3) by (simp_all add: b_def chunk_text_def)
  have lt: "spos (m_in st) < seod (m_in st)"
    using unread_nonempty [OF ok] u by (simp add: b_def)
  have nx: "pos_ok (b\<lparr>spos := spos b + int (length (fst c @ crlf))\<rparr>)"
    "unread (b\<lparr>spos := spos b + int (length (fst c @ crlf))\<rparr>) = snd c @ crlf @ after"
    using unread_split [OF ok u(2)] by blast+
  have eq: "spos b + int (length (fst c @ crlf)) = spos b + int (length (fst c)) + 2" by simp
  have "process_body env bcb (m_ctx st) b (m_udata st) (m_errno st) =
      process_chunk_size env (m_ctx st) b (m_udata st) (m_errno st)"
    using ss by (simp add: process_body_def)
  also note chunk_size_read [OF ok u(1), of "snd c" "m_ctx st" env "m_udata st" "m_errno st"]
  finally have "message_step env pl lcb hcb bcb st = Some (Inl (st\<lparr>
      m_ctx := (m_ctx st)\<lparr>current_chunk_size := int (length (snd c)),
         bodysz := bodysz (m_ctx st) + int (length (snd c)),
         current_chunk := \<lparr>br_start = spos b + int (length (fst c)) + 2, br_end = spos b + int (length (fst c)) + 2\<rparr>,
         chunk_parser_state := PS_CHUNK_DATA\<rparr>,
      m_in := b\<lparr>spos := spos b + int (length (fst c)) + 2\<rparr>\<rparr>))"
    using assms(4,5) ss by (simp add: body_round [OF assms(1) ss(1) lt] step_body_def b_def)
  then show ?thesis
    using nx [unfolded eq] ss by (simp add: data_state_def same_head_def)
qed

lemma data_round:
  assumes "needmore_law env" and "data_state data st" and "unread (m_in st) = data @ crlf @ after"
    and "data \<noteq> []" and "length data < 2 ^ 31"
  shows "\<exists>st'. message_step env pl lcb hcb bcb st = Some (Inl st') \<and> pos_ok (m_in st') \<and>
    unread (m_in st') = crlf @ after \<and> m_udata st' = m_udata st \<and> chunk_bytes (m_ctx st') (m_in st') = data \<and>
    m_ctx st' = (m_ctx st)\<lparr>current_chunk :=
      \<lparr>br_start = spos (m_in st') - int (length data), br_end = spos (m_in st')\<rparr>\<rparr>"
proof -
  define b where "b = m_in st"
  have ok: "pos_ok b" and ss: "parser_state (m_ctx st) = PS_BODY" "chunked (m_ctx st)"
    "chunk_parser_state (m_ctx st) = PS_CHUNK_DATA"
    "current_chunk (m_ctx st) = \<lparr>br_start = spos b, br_end = spos b\<rparr>"
    "current_chunk_size (m_ctx st) = int (length data)"
    using assms(2) by (simp_all add: data_state_def b_def)
  have u: "unread b = data @ crlf @ after" using assms(3) by (simp add: b_def)
  have lt: "spos (m_in st) < seod (m_in st)" using unread_nonempty [OF ok] u by (simp add: b_def)
  obtain pre r where nx: "sbuf b = pre @ data @ r" "int (length pre) = spos b"
      "pos_ok (b\<lparr>spos := spos b + int (length data)\<rparr>)"
      "unread (b\<lparr>spos := spos b + int (length data)\<rparr>) = crlf @ after"
    using unread_split [OF ok u] by blast
  have cb: "take (length data) (drop (nat (spos b)) (sbuf b)) = data"
    by (simp add: nx(1) nx(2) [symmetric])
  have "message_step env pl lcb hcb bcb st = Some (Inl (st\<lparr>
      m_ctx := (m_ctx st)\<lparr>current_chunk := \<lparr>br_start = spos b, br_end = spos b + int (length data)\<rparr>\<rparr>,
      m_in := b\<lparr>spos := spos b + int (length data)\<rparr>\<rparr>))"
    using chunk_data_more [OF ok u assms(4,5) ss(4,5), of env bcb "m_udata st" "m_errno st"] ss
    by (simp add: body_round [OF assms(1) ss(1) lt] step_body_def process_body_def b_def)
  then show ?thesis using nx cb by (simp add: chunk_bytes_def)
qed

lemma chunk_end_round:
  assumes "needmore_law env" and "recycle_law env" and "pos_ok (m_in st)"
    and "unread (m_in st) = crlf @ after" and "chunk_bytes (m_ctx st) (m_in st) = data"
    and "parser_state (m_ctx st) = PS_BODY" and "chunked (m_ctx st)"
    and "chunk_parser_state (m_ctx st) = PS_CHUNK_DATA"
    and "current_chunk_size (m_ctx st) = int (length data)"
    and "current_chunk (m_ctx st) =
      \<lparr>br_start = spos (m_in st) - int (length data), br_end = spos (m_in st)\<rparr>"
  shows "\<exists>st'. message_step env pl lcb hcb (Some (body_reader h)) st =
      Some (if data \<noteq> [] then Inl st' else Inr (RC 0, st')) \<and> size_state st' \<and>
    unread (m_in st') = after \<and> m_udata st' = h data (m_udata st) \<and>
    same_head (m_ctx st') (m_ctx st) \<and> bodysz (m_ctx st') = bodysz (m_ctx st) \<and>
    m_fd st' = m_fd st \<and> seod (m_in st') \<le> seod (m_in st)"
proof -
  have lt: "spos (m_in st) < seod (m_in st)" using unread_nonempty assms(3,4) by simp
  obtain ctx' b' where r: "process_chunk_data env (Some (body_reader h)) (m_ctx st) (m_in st) (m_udata st) (m_errno st) =
      Some (if data \<noteq> [] then RC MNHTTP_PARSE_NEED_MORE else RC 0, ctx', b', h data (m_udata st), m_errno st)"
    "pos_ok b'" "unread b' = after" "seod b' \<le> seod (m_in st)" "current_chunk ctx' = \<lparr>br_start = spos b', br_end = spos b'\<rparr>"
    "same_head ctx' (m_ctx st)" "bodysz ctx' = bodysz (m_ctx st)" "chunked ctx' = chunked (m_ctx st)"
    "chunk_parser_state ctx' = PS_CHUNK_SIZE" "parser_state ctx' = parser_state (m_ctx st)"
    using chunk_data_done [OF assms(2,3,4,10,9,5), of h "m_udata st" "m_errno st"] by blast
  let ?st' = "st\<lparr>m_ctx := ctx', m_in := b', m_udata := h data (m_udata st)\<rparr>"
  have "message_step env pl lcb hcb (Some (body_reader h)) st =
      Some (if data \<noteq> [] then Inl ?st' else Inr (RC 0, ?st'))"
    using r(1) assms(6-8)
    by (simp add: body_round [OF assms(1,6) lt] step_body_def process_body_def)
  then show ?thesis using r assms(6,7) by (intro exI [of _ ?st']) (simp add: size_state_def)
qed

text \<open>The rounds for a chunk with data, and for the last chunk.\<close>

lemma chunk_rounds:
  assumes "needmore_law env" and "recycle_law env" and "size_state st"
    and "unread (m_in st) = chunk_text c @ after" and "good_chunk c" and "snd c \<noteq> []"
    and "int_ok (bodysz (m_ctx st) + int (length (snd c)))"
  shows "\<exists>st'. run_steps 3 (message_step env pl lcb hcb (Some (body_reader h))) st = Running st' \<and>
    size_state st' \<and> unread (m_in st') = after \<and> m_udata st' = h (snd c) (m_udata st) \<and>
    same_head (m_ctx st') (m_ctx st) \<and> bodysz (m_ctx st') = bodysz (m_ctx st) + int (length (snd c))"
proof -
  let ?F = "message_step env pl lcb hcb (Some (body_reader h))"
  obtain st1 where 1: "?F st = Some (Inl st1)" "data_state (snd c) st1"
      "unread (m_in st1) = snd c @ crlf @ after" "m_udata st1 = m_udata st"
      "same_head (m_ctx st1) (m_ctx st)" "bodysz (m_ctx st1) = bodysz (m_ctx st) + int (length (snd c))"
    using size_round [OF assms(1,3,4,5,7)] by blast
  obtain st2 where 2: "?F st1 = Some (Inl st2)" "pos_ok (m_in st2)" "unread (m_in st2) = crlf @ after"
      "m_udata st2 = m_udata st1" "chunk_bytes (m_ctx st2) (m_in st2) = snd c"
      "m_ctx st2 = (m_ctx st1)\<lparr>current_chunk :=
        \<lparr>br_start = spos (m_in st2) - int (length (snd c)), br_end = spos (m_in st2)\<rparr>\<rparr>"
    using data_round [OF assms(1) 1(2,3) assms(6), of pl lcb hcb "Some (body_reader h)"] assms(5) by (auto simp: good_chunk_def)
  have h2: "same_head (m_ctx st2) (m_ctx st1)" "bodysz (m_ctx st2) = bodysz (m_ctx st1)"
    by (simp_all add: 2(6) same_head_def)
  have d2: "parser_state (m_ctx st2) = PS_BODY" "chunked (m_ctx st2)"
    "chunk_parser_state (m_ctx st2) = PS_CHUNK_DATA" "current_chunk_size (m_ctx st2) = int (length (snd c))"
    "current_chunk (m_ctx st2) = \<lparr>br_start = spos (m_in st2) - int (length (snd c)), br_end = spos (m_in st2)\<rparr>"
    using 1(2) by (simp_all add: 2(6) data_state_def)
  obtain st3 where 3: "?F st2 = Some (Inl st3)" "size_state st3" "unread (m_in st3) = after"
      "m_udata st3 = h (snd c) (m_udata st2)" "same_head (m_ctx st3) (m_ctx st2)"
      "bodysz (m_ctx st3) = bodysz (m_ctx st2)"
    using chunk_end_round [OF assms(1,2) 2(2,3,5) d2, of pl lcb hcb h] assms(6) by auto
  have "run_steps 3 ?F st = Running st3" by (simp add: numeral_3_eq_3 1(1) 2(1) 3(1))
  moreover have "same_head (m_ctx st3) (m_ctx st)" using 3(5) h2(1) 1(5) same_head_trans by blast
  ultimately show ?thesis using 3 by (intro exI [of _ st3]) (simp add: h2(2) 1(4,6) 2(4))
qed

lemma last_chunk_rounds:
  assumes "needmore_law env" and "recycle_law env" and "size_state st"
    and "unread (m_in st) = chunk_text (ds, []) @ after" and "good_chunk (ds, [])"
    and "int_ok (bodysz (m_ctx st))"
  shows "\<exists>st'. run_steps 2 (message_step env pl lcb hcb (Some (body_reader h))) st = Returned (RC 0, st') \<and>
    size_state st' \<and> unread (m_in st') = after \<and> m_udata st' = h [] (m_udata st) \<and>
    same_head (m_ctx st') (m_ctx st) \<and> bodysz (m_ctx st') = bodysz (m_ctx st)"
proof -
  let ?F = "message_step env pl lcb hcb (Some (body_reader h))"
  obtain st1 where 1: "?F st = Some (Inl st1)" "data_state [] st1"
      "unread (m_in st1) = crlf @ after" "m_udata st1 = m_udata st"
      "same_head (m_ctx st1) (m_ctx st)" "bodysz (m_ctx st1) = bodysz (m_ctx st)"
    using size_round [OF assms(1,3,4,5), of pl lcb hcb "Some (body_reader h)"] assms(6) by auto
  have "chunk_bytes (m_ctx st1) (m_in st1) = []" using 1(2) by (simp add: chunk_bytes_def data_state_def)
  then obtain st3 where 3: "?F st1 = Some (Inr (RC 0, st3))" "size_state st3" "unread (m_in st3) = after"
      "m_udata st3 = h [] (m_udata st1)" "same_head (m_ctx st3) (m_ctx st1)"
      "bodysz (m_ctx st3) = bodysz (m_ctx st1)"
    using chunk_end_round [of env st1 after "[]" pl lcb hcb h] assms(1,2) 1(2,3) by (auto simp: data_state_def)
  have "run_steps 2 ?F st = Returned (RC 0, st3)" by (simp add: numeral_2_eq_2 1(1) 3(1))
  with 1 3 show ?thesis by (metis same_head_trans)
qed

definition chunks_text :: "(string \<times> string) list \<Rightarrow> string \<Rightarrow> string" where
  "chunks_text cs ds = concat (map chunk_text cs) @ chunk_text (ds, [])"

definition data_length :: "(string \<times> string) list \<Rightarrow> nat" where
  "data_length cs = sum_list (map (length \<circ> snd) cs)"

lemma chunks_decoded:
  assumes "needmore_law env" and "recycle_law env" and "size_state st"
    and "unread (m_in st) = chunks_text cs ds @ after"
    and "list_all (\<lambda>c. good_chunk c \<and> snd c \<noteq> []) cs" and "good_chunk (ds, [])"
    and "0 \<le> bodysz (m_ctx st)" and "bodysz (m_ctx st) + int (data_length cs) < 2 ^ 31"
  shows "\<exists>st'. run_steps (3 * length cs + 2) (message_step env pl lcb hcb (Some (body_reader h))) st =
      Returned (RC 0, st') \<and> left_over (m_in st') after \<and>
    m_udata st' = h [] (fold h (map snd cs) (m_udata st)) \<and> same_head (m_ctx st') (m_ctx st) \<and>
    bodysz (m_ctx st') = bodysz (m_ctx st) + int (data_length cs)"
  using assms
proof (induction cs arbitrary: st)
  case Nil
  have "3 * length [] + 2 = (2 :: nat)" by simp
  with Nil show ?case
    using last_chunk_rounds [of env st ds after pl lcb hcb h]
    by (auto simp: chunks_text_def data_length_def int_ok_def left_over_def size_state_def simp del: add_2_eq_Suc')
next
  case (Cons c cs)
  let ?F = "message_step env pl lcb hcb (Some (body_reader h))"
  have u: "unread (m_in st) = chunk_text c @ chunks_text cs ds @ after"
    using Cons.prems(4) by (simp add: chunks_text_def)
  have sz: "int_ok (bodysz (m_ctx st) + int (length (snd c)))"
    using Cons.prems(7,8) by (auto simp: data_length_def)
  obtain st1 where 1: "run_steps 3 ?F st = Running st1" "size_state st1"
      "unread (m_in st1) = chunks_text cs ds @ after" "m_udata st1 = h (snd c) (m_udata st)"
      "same_head (m_ctx st1) (m_ctx st)" "bodysz (m_ctx st1) = bodysz (m_ctx st) + int (length (snd c))"
    using chunk_rounds [OF Cons.prems(1-3) u _ _ sz, of pl lcb hcb h] Cons.prems(5) by (auto simp del: One_nat_def)
  have "\<exists>st'. run_steps (3 * length cs + 2) ?F st1 = Returned (RC 0, st') \<and> left_over (m_in st') after \<and>
    m_udata st' = h [] (fold h (map snd cs) (m_udata st1)) \<and> same_head (m_ctx st') (m_ctx st1) \<and>
    bodysz (m_ctx st') = bodysz (m_ctx st1) + int (data_length cs)"
    by (rule Cons.IH) (use 1 Cons.prems in \<open>auto simp: data_length_def\<close>)
  moreover have "run_steps (3 * length (c # cs) + 2) ?F st = run_steps (3 * length cs + 2) ?F st1"
    using run_steps_trans [OF 1(1), of "3 * length cs + 2"] by simp
  ultimately show ?case
    using 1(4-6) same_head_trans by (fastforce simp: data_length_def)
qed

end
