(* ===== verification/HttpMessage.thy ===== *)
theory HttpMessage
  imports HttpBody
begin

text \<open>
  Whole messages: the rounds of \<open>_http_parse_message\<close> from the first byte of a request or response
  to its last, for messages whose text is in the stream. The claims of this theory say
  that the parser stores what the first line says, shows the callbacks every header field and
  the body, and stops exactly at the end of the message.
\<close>

section \<open>Bodies\<close>

text \<open>
  How a body is sent: as \<open>Content-Length\<close> bytes, or as chunks (size digits and data) followed by
  a last chunk with size digits \<open>ds\<close>.
\<close>

datatype framing = Whole string | Chunks "(string \<times> string) list" string

fun frame_text :: "framing \<Rightarrow> string" where
  "frame_text (Whole s) = s"
| "frame_text (Chunks cs ds) = chunks_text cs ds"

text \<open>What the body callback is given, call by call.\<close>

fun frame_pieces :: "framing \<Rightarrow> string list" where
  "frame_pieces (Whole s) = [s]"
| "frame_pieces (Chunks cs ds) = map snd cs @ [[]]"

fun frame_length :: "framing \<Rightarrow> nat" where
  "frame_length (Whole s) = length s"
| "frame_length (Chunks cs ds) = data_length cs"

text \<open>The headers read so far announce this framing.\<close>

fun announced :: "framing \<Rightarrow> mnhttp_ctx \<Rightarrow> bool" where
  "announced (Whole s) ctx \<longleftrightarrow> \<not> chunked ctx \<and> bodysz ctx = int (length s)"
| "announced (Chunks cs ds) ctx \<longleftrightarrow>
     chunked ctx \<and> chunk_parser_state ctx = PS_CHUNK_SIZE \<and> bodysz ctx = 0 \<and>
     list_all (\<lambda>c. good_chunk c \<and> snd c \<noteq> []) cs \<and> good_chunk (ds, []) \<and> int (data_length cs) < 2 ^ 31"

section \<open>From the empty line to the end\<close>

text \<open>The state in which the empty line is read, and the one its round hands to the body parser.\<close>

definition at_empty_line :: "('w, 'u) mstate \<Rightarrow> string \<Rightarrow> bool" where
  "at_empty_line st after \<longleftrightarrow> parser_state (m_ctx st) = PS_HEADER_FIELD_OUT \<and> pos_ok (m_in st) \<and>
     br_start (current_header_name (m_ctx st)) = spos (m_in st) \<and> unread (m_in st) = crlf @ after"

definition after_empty_line :: "('w, 'u) mstate \<Rightarrow> ('w, 'u) mstate" where
  "after_empty_line st =
     (let p = spos (m_in st) + 2
      in st\<lparr>m_in := (m_in st)\<lparr>spos := p\<rparr>,
            m_ctx := (m_ctx st)\<lparr>body := \<lparr>br_start = p, br_end = p\<rparr>,
                                current_chunk := \<lparr>br_start = p, br_end = p\<rparr>,
                                parser_state := PS_BODY_IN\<rparr>\<rparr>)"

lemma empty_line_round:
  assumes "needmore_law env" and "at_empty_line st after"
  shows "message_step env pl lcb hcb bcb st = step_body_in env bcb (after_empty_line st)"
    and "pos_ok (m_in (after_empty_line st))" and "unread (m_in (after_empty_line st)) = after"
proof -
  define b where "b = m_in st"
  have ok: "pos_ok b" and u: "unread b = crlf @ after" and ps: "parser_state (m_ctx st) = PS_HEADER_FIELD_OUT"
    and hn: "br_start (current_header_name (m_ctx st)) = spos b"
    using assms(2) by (simp_all add: at_empty_line_def b_def)
  obtain pre r where s: "sbuf b = pre @ crlf @ r" "int (length pre) = spos b" "spos b + int (length crlf) \<le> seod b"
    and p: "pos_ok (b\<lparr>spos := spos b + int (length crlf)\<rparr>)"
      "unread (b\<lparr>spos := spos b + int (length crlf)\<rparr>) = after"
    using unread_split [OF ok u] by blast
  have lt: "spos (m_in st) < seod (m_in st)" using s(3) by (simp add: b_def)
  have d: "drop (nat (spos b)) (sbuf b) = [] @ CR # LF # r"
    unfolding s(2) [symmetric] by (simp add: s(1))
  have "c_int (seod b - spos b) = seod b - spos b"
    using ok by (intro stream_int_ok [of b]) (auto simp: pos_ok_def stream_ok_def)
  moreover have "findcrlf (sbuf b) (spos b) (seod b - spos b) = Some (Some (spos b + int (length ([] :: string))))"
    by (rule findcrlf_layout [OF _ d]) (use ok s(3) in \<open>simp_all add: pos_ok_def stream_ok_def\<close>)
  ultimately show "message_step env pl lcb hcb bcb st = step_body_in env bcb (after_empty_line st)"
    using hn ps
    by (simp add: message_step_def refill_none [OF assms(1) lt] dispatch_def step_header_out_def
        after_empty_line_def Let_def b_def)
  show "pos_ok (m_in (after_empty_line st))" "unread (m_in (after_empty_line st)) = after"
    using p by (simp_all add: after_empty_line_def b_def Let_def)
qed

lemma whole_body_rounds:
  assumes "needmore_law env" and "recycle_law env" and "at_empty_line st (s @ rest)"
    and "announced (Whole s) (m_ctx st)"
  shows "\<exists>st'. message_step env pl lcb hcb (Some (body_reader h)) st = Some (Inr (RC 0, st')) \<and>
    left_over (m_in st') rest \<and> m_udata st' = h s (m_udata st) \<and> same_head (m_ctx st') (m_ctx st) \<and>
    bodysz (m_ctx st') = int (length s) \<and> m_fd st' = m_fd st"
proof -
  let ?st = "after_empty_line st"
  note r = empty_line_round [OF assms(1,3)]
  have h: "body (m_ctx ?st) = \<lparr>br_start = spos (m_in ?st), br_end = spos (m_in ?st)\<rparr>"
    "current_chunk (m_ctx ?st) = \<lparr>br_start = spos (m_in ?st), br_end = spos (m_in ?st)\<rparr>"
    "bodysz (m_ctx ?st) = int (length s)" "\<not> chunked (m_ctx ?st)"
    "same_head (m_ctx ?st) (m_ctx st)" "m_udata ?st = m_udata st" "m_fd ?st = m_fd st"
    using assms(4) by (simp_all add: after_empty_line_def Let_def same_head_def)
  obtain ctx' b' where "process_plain_body env (Some (body_reader h)) (m_ctx ?st) (m_in ?st) (m_udata ?st) (m_errno ?st) =
      Some (RC 0, ctx', b', h s (m_udata ?st), m_errno ?st)" "left_over b' rest"
      "same_head ctx' (m_ctx ?st)" "bodysz ctx' = bodysz (m_ctx ?st)"
    using plain_body_complete [OF assms(2) r(2,3) h(1-3), of h "m_udata ?st" "m_errno ?st"] unfolding left_over_def by blast
  with h show ?thesis
    by (simp add: r(1) step_body_in_def process_body_def set_state_def same_head_def)
qed

lemma chunked_body_rounds:
  assumes "needmore_law env" and "recycle_law env" and "at_empty_line st (chunks_text cs ds @ rest)"
    and "announced (Chunks cs ds) (m_ctx st)"
  shows "\<exists>st'. run_steps (3 * length cs + 2) (message_step env pl lcb hcb (Some (body_reader h))) st = Returned (RC 0, st') \<and>
    left_over (m_in st') rest \<and> m_udata st' = h [] (fold h (map snd cs) (m_udata st)) \<and>
    same_head (m_ctx st') (m_ctx st) \<and> bodysz (m_ctx st') = int (data_length cs)"
proof -
  let ?F = "message_step env pl lcb hcb (Some (body_reader h))"
  let ?st = "after_empty_line st"
  let ?sb = "set_state PS_BODY ?st"
  note r = empty_line_round [OF assms(1,3)]
  have a: "chunked (m_ctx st)" "chunk_parser_state (m_ctx st) = PS_CHUNK_SIZE" "bodysz (m_ctx st) = 0"
    "list_all (\<lambda>c. good_chunk c \<and> snd c \<noteq> []) cs" "good_chunk (ds, [])" "data_length cs < 2 ^ 31"
    using assms(4) by simp_all
  have sz: "size_state ?sb" "same_head (m_ctx ?sb) (m_ctx st)" "m_udata ?sb = m_udata st" "m_in ?sb = m_in ?st"
    "bodysz (m_ctx ?sb) = 0" "parser_state (m_ctx ?sb) = PS_BODY"
    using a r(2) by (simp_all add: size_state_def set_state_def after_empty_line_def Let_def same_head_def)
  have "\<exists>c after. chunks_text cs ds @ rest = chunk_text c @ after \<and> good_chunk c \<and> length (snd c) < 2 ^ 31"
  proof (cases cs)
    case Nil
    show ?thesis
      by (rule exI [of _ "(ds, [])"]) (use a(5) in \<open>simp add: Nil chunks_text_def\<close>)
  next
    case (Cons c cs')
    show ?thesis
      by (rule exI [of _ c]) (use a(4) in \<open>simp add: Cons chunks_text_def good_chunk_def\<close>)
  qed
  then obtain c after where c: "unread (m_in ?st) = chunk_text c @ after" "good_chunk c" "length (snd c) < 2 ^ 31"
    using r(3) by metis
  have lt: "spos (m_in ?sb) < seod (m_in ?sb)"
    using unread_nonempty [OF r(2)] c(1) by (simp add: sz chunk_text_def)
  have u: "unread (m_in ?st) = fst c @ crlf @ snd c @ crlf @ after" using c(1) by (simp add: chunk_text_def)
  have "?F st = step_body_in env (Some (body_reader h)) ?st" by (rule r(1))
  also have "\<dots> = step_body env (Some (body_reader h)) ?sb"
    using chunk_size_read [OF r(2) u, of "snd c" "m_ctx ?st" env "m_udata ?st" "m_errno ?st"]
      chunk_size_read [OF r(2) u, of "snd c" "m_ctx ?sb" env "m_udata ?st" "m_errno ?st"] c a sz
    by (simp add: step_body_in_def step_body_def process_body_def set_state_def after_empty_line_def
        Let_def int_ok_def)
  also have "\<dots> = ?F ?sb" by (rule body_round [OF assms(1) sz(6) lt, symmetric])
  finally have F: "?F st = ?F ?sb" .
  obtain st' where "run_steps (3 * length cs + 2) ?F ?sb = Returned (RC 0, st')" "left_over (m_in st') rest"
      "m_udata st' = h [] (fold h (map snd cs) (m_udata ?sb))" "same_head (m_ctx st') (m_ctx ?sb)"
      "bodysz (m_ctx st') = bodysz (m_ctx ?sb) + int (data_length cs)"
    using chunks_decoded [OF assms(1,2) sz(1), of cs ds rest pl lcb hcb h] r(3) a sz by auto
  moreover have "run_steps (3 * length cs + 2) ?F st = run_steps (3 * length cs + 2) ?F ?sb"
    using F by simp
  ultimately show ?thesis using sz same_head_trans by (metis add_0)
qed

lemma body_rounds:
  assumes "needmore_law env" and "recycle_law env" and "at_empty_line st (frame_text fr @ rest)"
    and "announced fr (m_ctx st)"
  shows "\<exists>n st'. run_steps n (message_step env pl lcb hcb (Some (body_reader h))) st = Returned (RC 0, st') \<and>
    left_over (m_in st') rest \<and> m_udata st' = fold h (frame_pieces fr) (m_udata st) \<and>
    same_head (m_ctx st') (m_ctx st) \<and> bodysz (m_ctx st') = int (frame_length fr)"
proof (cases fr)
  case (Whole s)
  let ?F = "message_step env pl lcb hcb (Some (body_reader h))"
  obtain st' where st': "?F st = Some (Inr (RC 0, st'))" "left_over (m_in st') rest"
      "m_udata st' = h s (m_udata st)" "same_head (m_ctx st') (m_ctx st)" "bodysz (m_ctx st') = int (length s)"
    using whole_body_rounds [OF assms(1,2), of st s rest pl lcb hcb h] assms(3,4) Whole by auto
  then have "run_steps 1 ?F st = Returned (RC 0, st')" by simp
  with st' Whole show ?thesis by (metis fold_simps frame_pieces.simps(1) frame_length.simps(1))
next
  case (Chunks cs ds)
  let ?F = "message_step env pl lcb hcb (Some (body_reader h))"
  obtain st' where "run_steps (3 * length cs + 2) ?F st = Returned (RC 0, st')" "left_over (m_in st') rest"
      "m_udata st' = h [] (fold h (map snd cs) (m_udata st))" "same_head (m_ctx st') (m_ctx st)"
      "bodysz (m_ctx st') = int (data_length cs)"
    using chunked_body_rounds [OF assms(1,2), of st cs ds rest pl lcb hcb h] assms(3,4) Chunks by auto
  then show ?thesis by (intro exI [of _ "3 * length cs + 2"] exI [of _ st']) (simp add: Chunks del: run_steps.simps add_2_eq_Suc')
qed

section \<open>From the first byte to the empty line\<close>

text \<open>A line callback that looks at what the first line said.\<close>

definition line_reader :: "(int \<Rightarrow> string option \<Rightarrow> int \<Rightarrow> int \<Rightarrow> 'u \<Rightarrow> 'u) \<Rightarrow> 'u mnhttp_cb" where
  "line_reader k ctx b u =
     (0, ctx, b, k (code ctx) (request_uri ctx) (version_major ctx) (version_minor ctx) u)"

text \<open>Two contexts that announce the same framing.\<close>

definition same_frame :: "mnhttp_ctx \<Rightarrow> mnhttp_ctx \<Rightarrow> bool" where
  "same_frame c d \<longleftrightarrow> chunked c = chunked d \<and> chunk_parser_state c = chunk_parser_state d \<and> bodysz c = bodysz d"

lemma same_frame_announced: "same_frame c d \<Longrightarrow> announced fr c = announced fr d"
  by (cases fr) (auto simp: same_frame_def)

lemma same_frame_effects:
  "same_frame c d \<Longrightarrow> same_frame (fold header_effect hs c) (fold header_effect hs d)"
proof (induction hs arbitrary: c d)
  case (Cons h hs)
  have "same_frame (header_effect h c) (header_effect h d)"
    using Cons.prems by (simp add: header_effect_def same_frame_def)
  then show ?case using Cons.IH by simp
qed simp

lemma same_head_effects: "same_head (fold header_effect hs c) c"
proof (induction hs arbitrary: c)
  case (Cons h hs)
  have "same_head (header_effect h c) c" by (simp add: header_effect_def same_head_def)
  with Cons [of "header_effect h c"] show ?case by (simp add: same_head_def)
qed (simp add: same_head_def)

lemma unread_past:
  "sbuf b = pre @ r \<Longrightarrow> spos b = int (length pre) \<Longrightarrow> unread b = take (nat (seod b) - length pre) r"
  by (simp add: unread_def nat_minus_as_int)

lemma headers_to_empty_line:
  assumes "needmore_law env" and "parser_state (m_ctx st) = PS_HEADER_FIELD_IN" and "pos_ok (m_in st)"
    and "unread (m_in st) = headers_text fs @ crlf @ after" and "list_all good_field fs"
  shows "\<exists>st'. run_steps (2 * length fs + 1) (message_step env pl lcb (Some (header_reader g)) bcb) st = Running st' \<and>
    at_empty_line st' after \<and> m_udata st' = fold (read_field g) fs (m_udata st) \<and>
    same_head (m_ctx st') (m_ctx st) \<and>
    same_frame (m_ctx st') (fold header_effect (map name_value fs) (m_ctx st)) \<and>
    m_fd st' = m_fd st \<and> seod (m_in st') = seod (m_in st)"
proof -
  let ?F = "message_step env pl lcb (Some (header_reader g)) bcb"
  let ?H = "headers_text fs"
  define b where "b = m_in st"
  have ok: "pos_ok b" and u: "unread b = ?H @ crlf @ after" using assms(3,4) by (simp_all add: b_def)
  obtain pre r where s: "sbuf b = pre @ ?H @ r" "int (length pre) = spos b" "spos b + int (length ?H) \<le> seod b"
    and nx: "unread (b\<lparr>spos := spos b + int (length ?H)\<rparr>) = crlf @ after"
    using unread_split [OF ok u] by blast
  have so: "stream_ok (m_in st)" using ok by (simp add: pos_ok_def b_def)
  obtain cn cv e' pre' where r1: "run_steps (2 * length fs) ?F st =
      Running (st\<lparr>m_errno := e', m_udata := fold (read_field g) fs (m_udata st),
                  m_ctx := (fold header_effect (map name_value fs) (m_ctx st))\<lparr>current_header_name := cn,
                              current_header_value := cv, parser_state := PS_HEADER_FIELD_IN\<rparr>,
                  m_in := (m_in st)\<lparr>sbuf := pre' @ r, spos := int (length pre')\<rparr>\<rparr>)"
    (is "_ = Running ?st1") and l: "length pre' = length pre + length ?H"
    using header_rounds [OF assms(1,2) s(1) [unfolded b_def] _ so _ assms(5), of pl lcb g bcb] s(2,3)
    by (auto simp: b_def)
  define b1 where "b1 = b\<lparr>sbuf := pre' @ r, spos := int (length pre')\<rparr>"
  have "unread b1 = take (nat (seod b) - length pre') r"
    using unread_past [of b1 pre' r] by (simp add: b1_def)
  also have "\<dots> = unread (b\<lparr>spos := spos b + int (length ?H)\<rparr>)"
    using unread_past [of "b\<lparr>spos := spos b + int (length ?H)\<rparr>" "pre @ ?H" r] s(1) l
    by (simp add: s(2) [symmetric])
  finally have u1: "unread b1 = crlf @ after" using nx by simp
  have ok1: "pos_ok b1" using ok s l by (simp add: pos_ok_def stream_ok_def b1_def)
  have st1: "m_in ?st1 = b1" "parser_state (m_ctx ?st1) = PS_HEADER_FIELD_IN" by (simp_all add: b1_def b_def)
  have lt: "spos (m_in ?st1) < seod (m_in ?st1)" unfolding st1 using unread_nonempty [OF ok1] u1 by simp
  let ?st2 = "?st1\<lparr>m_ctx := (m_ctx ?st1)\<lparr>
      current_header_name := (current_header_name (m_ctx ?st1))\<lparr>br_start := spos (m_in ?st1)\<rparr>,
      parser_state := PS_HEADER_FIELD_OUT\<rparr>\<rparr>"
  have "run_steps 1 ?F ?st1 = Running ?st2"
    using header_step_in [OF assms(1) st1(2) lt] by simp
  then have "run_steps (2 * length fs + 1) ?F st = Running ?st2"
    using run_steps_trans [OF r1, of 1] by simp
  moreover have "at_empty_line ?st2 after" using ok1 u1 by (simp add: at_empty_line_def b1_def b_def)
  moreover have "same_head (m_ctx ?st2) (m_ctx st)"
    using same_head_effects [of "map name_value fs" "m_ctx st"] by (simp add: same_head_def)
  moreover have "same_frame (m_ctx ?st2) (fold header_effect (map name_value fs) (m_ctx st))"
    by (simp add: same_frame_def)
  moreover have "m_udata ?st2 = fold (read_field g) fs (m_udata st)" "m_fd ?st2 = m_fd st" "seod (m_in ?st2) = seod (m_in st)" by simp_all
  ultimately show ?thesis by blast
qed

text \<open>The state in which a line parser is called.\<close>

definition line_ctx :: "('w, 'u) mstate \<Rightarrow> mnhttp_ctx" where
  "line_ctx st = (m_ctx st)\<lparr>first_line := (first_line (m_ctx st))\<lparr>br_start := spos (m_in st)\<rparr>,
     parser_state := PS_LINE\<rparr>"

context line_parser
begin

lemma line_rounds:
  assumes "needmore_law env" and "parser_state (m_ctx st) = PS_START" and "pos_ok (m_in st)"
    and "unread (m_in st) = L @ crlf @ after"
    and "parse_line (line_ctx st) (m_in st) (m_errno st) =
      Some (line_done ctxL (m_in st) (spos (m_in st) + int (length L)) e)"
  shows "\<exists>st'. run_steps 2 (message_step env parse_line (Some (line_reader k)) hcb bcb) st = Running st' \<and>
    parser_state (m_ctx st') = PS_HEADER_FIELD_IN \<and> pos_ok (m_in st') \<and> unread (m_in st') = after \<and>
    m_udata st' = k (code ctxL) (request_uri ctxL) (version_major ctxL) (version_minor ctxL) (m_udata st) \<and>
    same_head (m_ctx st') ctxL \<and> same_frame (m_ctx st') (m_ctx st) \<and>
    m_fd st' = m_fd st \<and> seod (m_in st') = seod (m_in st)"
proof -
  let ?F = "message_step env parse_line (Some (line_reader k)) hcb bcb"
  let ?p = "spos (m_in st) + int (length L) + 2"
  have u: "unread (m_in st) = (L @ crlf) @ after" using assms(4) by simp
  have lt: "spos (m_in st) < seod (m_in st)" using unread_nonempty [OF assms(3)] u by simp
  have "pos_ok ((m_in st)\<lparr>spos := spos (m_in st) + int (length (L @ crlf))\<rparr>)"
    "unread ((m_in st)\<lparr>spos := spos (m_in st) + int (length (L @ crlf))\<rparr>) = after"
    using unread_split [OF assms(3) u] by blast+
  moreover have "spos (m_in st) + int (length (L @ crlf)) = ?p" by simp
  ultimately have nx: "pos_ok ((m_in st)\<lparr>spos := ?p\<rparr>)" "unread ((m_in st)\<lparr>spos := ?p\<rparr>) = after" by metis+
  have sb: "same_body (line_ctx st) (ctxL\<lparr>parser_state := PS_HEADER_FIELD_IN\<rparr>)"
    using line_result [OF assms(5) [unfolded line_done_def]] by auto
  let ?st1 = "st\<lparr>m_ctx := line_ctx st\<rparr>"
  have 1: "?F st = Some (Inl ?st1)"
    using assms(2) by (simp add: message_step_def refill_none [OF assms(1) lt] dispatch_def step_start_def line_ctx_def)
  let ?st2 = "st\<lparr>m_ctx := ctxL\<lparr>parser_state := PS_HEADER_FIELD_IN\<rparr>, m_in := (m_in st)\<lparr>spos := ?p\<rparr>, m_errno := e,
    m_udata := k (code ctxL) (request_uri ctxL) (version_major ctxL) (version_minor ctxL) (m_udata st)\<rparr>"
  have ps: "parser_state (line_ctx st) = PS_LINE" by (simp add: line_ctx_def)
  have "?F ?st1 = step_line parse_line (Some (line_reader k)) ?st1"
    using lt ps by (simp add: message_step_def refill_none [OF assms(1)] dispatch_def)
  also have "\<dots> = Some (Inl ?st2)"
    using assms(5) by (simp add: step_line_def line_done_def call_cb_def line_reader_def)
  finally have 2: "?F ?st1 = Some (Inl ?st2)" .
  have "run_steps 2 ?F st = Running ?st2" by (simp add: numeral_2_eq_2 1 2)
  moreover have "same_frame (m_ctx ?st2) (m_ctx st)"
    using sb by (simp add: same_frame_def same_body_def line_ctx_def)
  ultimately show ?thesis using nx by (intro exI [of _ ?st2]) (simp add: same_head_def)
qed

text \<open>The line and the header section, up to the empty line.\<close>

lemma head_rounds:
  assumes "needmore_law env" and "m_ctx st = http_ctx_init" and "pos_ok (m_in st)"
    and "unread (m_in st) = L @ crlf @ headers_text fs @ crlf @ after"
    and "parse_line (line_ctx st) (m_in st) (m_errno st) =
      Some (line_done ctxL (m_in st) (spos (m_in st) + int (length L)) e)"
    and "list_all good_field fs" and "announced fr (fold header_effect (map name_value fs) http_ctx_init)"
  shows "\<exists>n st'. run_steps n (message_step env parse_line (Some (line_reader k)) (Some (header_reader g)) bcb) st = Running st' \<and>
    at_empty_line st' after \<and> announced fr (m_ctx st') \<and> same_head (m_ctx st') ctxL \<and>
    m_fd st' = m_fd st \<and> seod (m_in st') = seod (m_in st) \<and>
    m_udata st' = fold (read_field g) fs (k (code ctxL) (request_uri ctxL) (version_major ctxL) (version_minor ctxL) (m_udata st))"
proof -
  let ?F = "message_step env parse_line (Some (line_reader k)) (Some (header_reader g)) bcb"
  have ps: "parser_state (m_ctx st) = PS_START" by (simp add: assms(2) http_ctx_init_def)
  obtain st1 where 1: "run_steps 2 ?F st = Running st1" "parser_state (m_ctx st1) = PS_HEADER_FIELD_IN"
      "pos_ok (m_in st1)" "unread (m_in st1) = headers_text fs @ crlf @ after"
      "m_udata st1 = k (code ctxL) (request_uri ctxL) (version_major ctxL) (version_minor ctxL) (m_udata st)"
      "same_head (m_ctx st1) ctxL" "same_frame (m_ctx st1) http_ctx_init" "m_fd st1 = m_fd st" "seod (m_in st1) = seod (m_in st)"
    using line_rounds [OF assms(1) ps assms(3,4,5), of k "Some (header_reader g)" bcb] by (auto simp: assms(2))
  obtain st2 where 2: "run_steps (2 * length fs + 1) ?F st1 = Running st2"
      "at_empty_line st2 after" "m_udata st2 = fold (read_field g) fs (m_udata st1)" "same_head (m_ctx st2) (m_ctx st1)"
      "same_frame (m_ctx st2) (fold header_effect (map name_value fs) (m_ctx st1))" "m_fd st2 = m_fd st1" "seod (m_in st2) = seod (m_in st1)"
    using headers_to_empty_line [OF assms(1) 1(2,3,4) assms(6), of parse_line "Some (line_reader k)" g bcb] by blast
  have "same_frame (m_ctx st2) (fold header_effect (map name_value fs) http_ctx_init)"
    using 2(5) same_frame_effects [OF 1(7)] by (simp add: same_frame_def)
  then have an: "announced fr (m_ctx st2)" using assms(7) same_frame_announced by blast
  have "run_steps (2 + (2 * length fs + 1)) ?F st = Running st2" using run_steps_trans [OF 1(1)] 2(1) by presburger
  moreover have "same_head (m_ctx st2) ctxL" using 2(4) 1(6) same_head_trans by blast
  ultimately show ?thesis using an 2(2,6,7) 1(8,9)
    by (intro exI [of _ "2 + (2 * length fs + 1)"] exI [of _ st2]) (simp add: 1(5) 2(3) del: run_steps.simps add_2_eq_Suc)
qed

lemma message_rounds:
  assumes "needmore_law env" and "recycle_law env" and "m_ctx st = http_ctx_init" and "pos_ok (m_in st)"
    and "unread (m_in st) = L @ crlf @ headers_text fs @ crlf @ frame_text fr @ rest"
    and "parse_line (line_ctx st) (m_in st) (m_errno st) =
      Some (line_done ctxL (m_in st) (spos (m_in st) + int (length L)) e)"
    and "list_all good_field fs"
    and "announced fr (fold header_effect (map name_value fs) http_ctx_init)"
  shows "\<exists>n st'. http_parse_message n env parse_line (Some (line_reader k)) (Some (header_reader g))
        (Some (body_reader h)) st = Returned (RC 0, st') \<and>
    same_head (m_ctx st') ctxL \<and> bodysz (m_ctx st') = int (frame_length fr) \<and> left_over (m_in st') rest \<and>
    m_udata st' = fold h (frame_pieces fr) (fold (read_field g) fs
      (k (code ctxL) (request_uri ctxL) (version_major ctxL) (version_minor ctxL) (m_udata st)))"
proof -
  let ?F = "message_step env parse_line (Some (line_reader k)) (Some (header_reader g)) (Some (body_reader h))"
  obtain m st2 where 2: "run_steps m ?F st = Running st2" "at_empty_line st2 (frame_text fr @ rest)" "announced fr (m_ctx st2)"
      "same_head (m_ctx st2) ctxL"
      "m_udata st2 = fold (read_field g) fs (k (code ctxL) (request_uri ctxL) (version_major ctxL) (version_minor ctxL) (m_udata st))"
    using head_rounds [OF assms(1,3,4,5,6,7,8), of k g "Some (body_reader h)"] by blast
  obtain n st3 where 3: "run_steps n ?F st2 = Returned (RC 0, st3)" "left_over (m_in st3) rest"
      "m_udata st3 = fold h (frame_pieces fr) (m_udata st2)" "same_head (m_ctx st3) (m_ctx st2)"
      "bodysz (m_ctx st3) = int (frame_length fr)"
    using body_rounds [OF assms(1,2) 2(2,3), of parse_line "Some (line_reader k)" "Some (header_reader g)" h] by blast
  have "run_steps (m + n) ?F st = Returned (RC 0, st3)" using run_steps_trans [OF 2(1)] 3(1) by simp
  moreover have "same_head (m_ctx st3) ctxL" using 3(4) 2(4) same_head_trans by blast
  ultimately show ?thesis
    unfolding http_parse_message_def using 3(2,3,5) 2(5) by (intro exI [of _ "m + n"] exI [of _ st3]) simp
qed

end

section \<open>A stream to run the parser on\<close>

text \<open>
  A concrete stream for the witnesses: data arrives as a list of fragments, each appended to the
  buffer, and recycling drops everything before \<open>until\<close>.
\<close>

definition fragment_consume ::
  "bytestream \<Rightarrow> string list \<Rightarrow> c_errno \<Rightarrow> int \<times> bytestream \<times> string list \<times> c_errno" where
  "fragment_consume b w e =
     (case w of
        [] \<Rightarrow> (MNHTTP_PARSE_EOF, b, [], e)
      | f # w' \<Rightarrow> (0, b\<lparr>sbuf := take (nat (seod b)) (sbuf b) @ f, seod := seod b + int (length f)\<rparr>, w', e))"

definition fragment_recycle :: "bytestream \<Rightarrow> int \<Rightarrow> int \<Rightarrow> int \<times> bytestream" where
  "fragment_recycle b n u =
     (u, b\<lparr>sbuf := drop (nat u) (sbuf b) @ replicate (nat u) NUL, seod := seod b - u, spos := spos b - u\<rparr>)"

definition fragment_env :: "string list bs_env" where
  "fragment_env = \<lparr>SNEEDMORE = (\<lambda>b. seod b \<le> spos b), bytestream_consume_data = fragment_consume,
     bytestream_recycle = fragment_recycle, strtol_einval = False\<rparr>"

definition fragment_state :: "string \<Rightarrow> string list \<Rightarrow> 'u \<Rightarrow> (string list, 'u) mstate" where
  "fragment_state s w u = \<lparr>m_ctx = http_ctx_init,
     m_in = \<lparr>sbuf = s, saddr = 4096, seod = int (length s), spos = 0\<rparr>,
     m_errno = E_OTHER 0, m_fd = w, m_udata = u\<rparr>"

lemma fragment_needmore: "needmore_law fragment_env"
  by (simp add: needmore_law_def fragment_env_def)

lemma fragment_recycle_law: "recycle_law fragment_env"
  unfolding recycle_law_def
proof (intro allI impI)
  fix b n u assume a: "pos_ok b \<and> 0 \<le> u \<and> u \<le> spos b"
  then have "nat (seod b - u) + nat u \<le> length (sbuf b)"
    by (auto simp: pos_ok_def stream_ok_def)
  with a show "case bytestream_recycle fragment_env b n u of (r, b') \<Rightarrow>
           0 \<le> r \<and> r \<le> u \<and> length (sbuf b') = length (sbuf b) \<and> seod b' = seod b - r \<and>
           spos b' = spos b - r \<and>
           take (nat (seod b')) (sbuf b') = take (nat (seod b')) (drop (nat r) (sbuf b))"
    by (auto simp: fragment_env_def fragment_recycle_def pos_ok_def stream_ok_def)
qed

lemma fragment_state_simps [simp]:
  "m_ctx (fragment_state s w u) = http_ctx_init" "m_udata (fragment_state s w u) = u"
  "errno_ok (m_errno (fragment_state s w u))"
  "length s < 2 ^ 31 \<Longrightarrow> pos_ok (m_in (fragment_state s w u))"
  "unread (m_in (fragment_state s w u)) = s"
  by (simp_all add: fragment_state_def errno_ok_def pos_ok_def stream_ok_def unread_def)

text \<open>Callbacks that note down what they are given, and two messages.\<close>

definition note_line :: "int \<Rightarrow> string option \<Rightarrow> int \<Rightarrow> int \<Rightarrow> string list \<Rightarrow> string list" where
  "note_line m uri maj mnr u = u @ [show_int m, (case uri of None \<Rightarrow> [] | Some s \<Rightarrow> s)]"

definition note_field :: "string option \<Rightarrow> string option \<Rightarrow> string list \<Rightarrow> string list" where
  "note_field n v u = u @ (case n of None \<Rightarrow> [] | Some s \<Rightarrow> [s]) @ (case v of None \<Rightarrow> [] | Some s \<Rightarrow> [s])"

definition note_body :: "string \<Rightarrow> string list \<Rightarrow> string list" where
  "note_body s u = u @ [s]"

definition sample_request :: string where
  "sample_request = ''POST /a HTTP/1.1'' @ crlf @ ''Host: h'' @ crlf @ ''content-length:  3'' @ crlf @ crlf @ ''abc'' @ ''GET''"

definition sample_response :: string where
  "sample_response = ''HTTP/1.0 200 OK'' @ crlf @ ''Transfer-Encoding:chunked'' @ crlf @ crlf @
     ''3'' @ crlf @ ''abc'' @ crlf @ ''0A'' @ crlf @ ''0123456789'' @ crlf @ ''0'' @ crlf @ crlf"

section \<open>Messages parsed\<close>

lemma line_ctx_simps [simp]:
  "br_start (first_line (line_ctx st)) = spos (m_in st)"
  by (simp add: line_ctx_def)

lemma line_layout:
  assumes "pos_ok b" and "unread b = L @ crlf @ after"
  obtains rest where "stream_ok b" and "0 \<le> spos b" and "drop (nat (spos b)) (sbuf b) = L @ crlf @ rest"
    and "spos b + int (length L) + 2 \<le> seod b"
proof -
  have u: "unread b = (L @ crlf) @ after" using assms(2) by simp
  obtain pre r where s: "sbuf b = pre @ (L @ crlf) @ r" "int (length pre) = spos b"
      "spos b + int (length (L @ crlf)) \<le> seod b"
    using unread_split [OF assms(1) u] by blast
  have "drop (nat (spos b)) (sbuf b) = L @ crlf @ r" unfolding s(2) [symmetric] by (simp add: s(1))
  with that s(3) assms(1) show thesis by (auto simp: pos_ok_def)
qed

lemma request_parsed:
  assumes "needmore_law env" and "recycle_law env" and "m_ctx st = http_ctx_init" and "pos_ok (m_in st)"
    and "errno_ok (m_errno st)"
    and "unread (m_in st) = request_text meth w1 uri w2 maj mnr @ crlf @ headers_text fs @ crlf @ frame_text fr @ rest"
    and "token meth" and "blanks w1" and "token uri" and "blanks w2" and "maj < 2 ^ 31" and "mnr < 2 ^ 31"
    and "list_all good_field fs"
    and "announced fr (fold header_effect (map name_value fs) http_ctx_init)"
  shows "\<exists>n st'. http_parse_request n env (Some (line_reader k)) (Some (header_reader g))
        (Some (body_reader h)) st = Returned (RC 0, st') \<and>
    code (m_ctx st') = method_of meth \<and> request_uri (m_ctx st') = Some uri \<and>
    version_major (m_ctx st') = int maj \<and> version_minor (m_ctx st') = int mnr \<and>
    bodysz (m_ctx st') = int (frame_length fr) \<and> left_over (m_in st') rest \<and>
    m_udata st' = fold h (frame_pieces fr) (fold (read_field g) fs
      (k (method_of meth) (Some uri) (int maj) (int mnr) (m_udata st)))"
proof -
  obtain r where l: "stream_ok (m_in st)" "0 \<le> br_start (first_line (line_ctx st))"
      "drop (nat (br_start (first_line (line_ctx st)))) (sbuf (m_in st)) = request_text meth w1 uri w2 maj mnr @ crlf @ r"
      "br_start (first_line (line_ctx st)) + int (length (request_text meth w1 uri w2 maj mnr)) + 2 \<le> seod (m_in st)"
    unfolding line_ctx_simps using line_layout [OF assms(4,6)] by blast
  note p = parse_request_line_text [OF l assms(7-12,5), of env, unfolded line_ctx_simps]
  show ?thesis
    using req.message_rounds [OF assms(1-4,6) p assms(13,14), of k g h]
    by (simp add: http_parse_request_def same_head_def) blast
qed

text \<open>
  C6. A request in the stream - request line, header fields, empty line, and a body sent as
  \<open>Content-Length\<close> bytes or in chunks - is parsed completely: the loop returns 0, the context holds
  method, request URI, version and body size, the callbacks have been given the first line,
  every header field in order (name and value as C strings) and exactly the body's bytes,
  and the stream is left at the first byte after the message.
\<close>

theorem request_message_parsed:
  assumes "needmore_law env" and "recycle_law env" and "m_ctx st = http_ctx_init" and "pos_ok (m_in st)"
    and "errno_ok (m_errno st)"
    and "unread (m_in st) = request_text meth w1 uri w2 maj mnr @ crlf @ headers_text fs @ crlf @ frame_text fr @ rest"
    and "token meth" and "blanks w1" and "token uri" and "blanks w2" and "maj < 2 ^ 31" and "mnr < 2 ^ 31"
    and "list_all good_field fs"
    and "announced fr (fold header_effect (map name_value fs) http_ctx_init)"
  shows "\<exists>n st'. http_parse_request n env (Some (line_reader k)) (Some (header_reader g))
        (Some (body_reader h)) st = Returned (RC 0, st') \<and>
    code (m_ctx st') = method_of meth \<and> request_uri (m_ctx st') = Some uri \<and>
    version_major (m_ctx st') = int maj \<and> version_minor (m_ctx st') = int mnr \<and>
    bodysz (m_ctx st') = int (frame_length fr) \<and> unread (m_in st') = rest \<and>
    m_udata st' = fold h (frame_pieces fr) (fold (read_field g) fs
      (k (method_of meth) (Some uri) (int maj) (int mnr) (m_udata st)))"
  using request_parsed [OF assms, of k g h] unfolding left_over_def by blast

theorem request_message_parsed_witness:
  "\<exists>n st'. http_parse_request n fragment_env (Some (line_reader note_line)) (Some (header_reader note_field))
      (Some (body_reader note_body)) (fragment_state sample_request [] []) = Returned (RC 0, st') \<and>
    code (m_ctx st') = MNHTTP_MPOST \<and> unread (m_in st') = ''GET'' \<and>
    m_udata st' = [''4'', ''/a'', ''Host'', ''h'', ''content-length'', ''3'', ''abc'']"
proof -
  let ?fs = "[(''Host'', '' '', ''h''), (''content-length'', ''  '', ''3'')]"
  have *: "unread (m_in (fragment_state sample_request [] ([] :: string list))) =
      request_text ''POST'' '' '' ''/a'' '' '' 1 1 @ crlf @ headers_text ?fs @ crlf @ frame_text (Whole ''abc'') @ ''GET''"
    "token ''POST''" "blanks '' ''" "token ''/a''" "list_all good_field ?fs"
    "announced (Whole ''abc'') (fold header_effect (map name_value ?fs) http_ctx_init)"
    by code_simp+
  have l: "length sample_request < 2 ^ 31" by (simp add: sample_request_def)
  have "method_of ''POST'' = MNHTTP_MPOST" by code_simp
  moreover have "fold note_body (frame_pieces (Whole ''abc'')) (fold (read_field note_field) ?fs
      (note_line 4 (Some ''/a'') (int 1) (int 1) [])) =
      [''4'', ''/a'', ''Host'', ''h'', ''content-length'', ''3'', ''abc'']" by code_simp
  ultimately show ?thesis
    using request_message_parsed [OF fragment_needmore fragment_recycle_law _ _ _ *(1-4,3) _ _ *(5,6),
        of note_line note_field note_body] l
    by fastforce
qed

lemma response_parsed:
  assumes "needmore_law env" and "recycle_law env" and "m_ctx st = http_ctx_init" and "pos_ok (m_in st)"
    and "errno_ok (m_errno st)"
    and "unread (m_in st) = status_text maj mnr w status phrase @ crlf @ headers_text fs @ crlf @ frame_text fr @ rest"
    and "blanks w" and "CR \<notin> set phrase" and "\<not> c_isdigit (hd (phrase @ crlf))"
    and "maj < 2 ^ 31" and "mnr < 2 ^ 31" and "status < 2 ^ 31"
    and "list_all good_field fs"
    and "announced fr (fold header_effect (map name_value fs) http_ctx_init)"
  shows "\<exists>n st'. http_parse_response n env (Some (line_reader k)) (Some (header_reader g))
        (Some (body_reader h)) st = Returned (RC 0, st') \<and>
    code (m_ctx st') = int status \<and> request_uri (m_ctx st') = None \<and>
    version_major (m_ctx st') = int maj \<and> version_minor (m_ctx st') = int mnr \<and>
    bodysz (m_ctx st') = int (frame_length fr) \<and> left_over (m_in st') rest \<and>
    m_udata st' = fold h (frame_pieces fr) (fold (read_field g) fs
      (k (int status) None (int maj) (int mnr) (m_udata st)))"
proof -
  obtain r where l: "stream_ok (m_in st)" "0 \<le> br_start (first_line (line_ctx st))"
      "drop (nat (br_start (first_line (line_ctx st)))) (sbuf (m_in st)) = status_text maj mnr w status phrase @ crlf @ r"
      "br_start (first_line (line_ctx st)) + int (length (status_text maj mnr w status phrase)) + 2 \<le> seod (m_in st)"
    unfolding line_ctx_simps using line_layout [OF assms(4,6)] by blast
  note p = parse_status_line_text [OF l assms(7-12,5), of env, unfolded line_ctx_simps]
  have u: "request_uri (line_ctx st) = None" using assms(3) by (simp add: line_ctx_def http_ctx_init_def)
  show ?thesis
    using resp.message_rounds [OF assms(1-4,6) p assms(13,14), of k g h] u
    by (simp add: http_parse_response_def same_head_def) blast
qed

text \<open>
  C2. A response in the stream is parsed completely in the same sense, with the status in place of
  the method; whatever follows the status number on the status line is skipped.
\<close>

theorem response_message_parsed:
  assumes "needmore_law env" and "recycle_law env" and "m_ctx st = http_ctx_init" and "pos_ok (m_in st)"
    and "errno_ok (m_errno st)"
    and "unread (m_in st) = status_text maj mnr w status phrase @ crlf @ headers_text fs @ crlf @ frame_text fr @ rest"
    and "blanks w" and "CR \<notin> set phrase" and "\<not> c_isdigit (hd (phrase @ crlf))"
    and "maj < 2 ^ 31" and "mnr < 2 ^ 31" and "status < 2 ^ 31"
    and "list_all good_field fs"
    and "announced fr (fold header_effect (map name_value fs) http_ctx_init)"
  shows "\<exists>n st'. http_parse_response n env (Some (line_reader k)) (Some (header_reader g))
        (Some (body_reader h)) st = Returned (RC 0, st') \<and>
    code (m_ctx st') = int status \<and> request_uri (m_ctx st') = None \<and>
    version_major (m_ctx st') = int maj \<and> version_minor (m_ctx st') = int mnr \<and>
    bodysz (m_ctx st') = int (frame_length fr) \<and> unread (m_in st') = rest \<and>
    m_udata st' = fold h (frame_pieces fr) (fold (read_field g) fs
      (k (int status) None (int maj) (int mnr) (m_udata st)))"
  using response_parsed [OF assms, of k g h] unfolding left_over_def by blast

theorem response_message_parsed_witness:
  "\<exists>n st'. http_parse_response n fragment_env (Some (line_reader note_line)) (Some (header_reader note_field))
      (Some (body_reader note_body)) (fragment_state sample_response [] []) = Returned (RC 0, st') \<and>
    code (m_ctx st') = 200 \<and> bodysz (m_ctx st') = 13 \<and> unread (m_in st') = '''' \<and>
    m_udata st' = [''200'', '''', ''Transfer-Encoding'', ''chunked'', ''abc'', ''0123456789'', '''']"
proof -
  let ?fs = "[(''Transfer-Encoding'', '''', ''chunked'')]"
  let ?fr = "Chunks [(''3'', ''abc''), (''0A'', ''0123456789'')] ''0''"
  have *: "unread (m_in (fragment_state sample_response [] ([] :: string list))) =
      status_text 1 0 '' '' 200 '' OK'' @ crlf @ headers_text ?fs @ crlf @ frame_text ?fr @ ''''"
    "blanks '' ''" "CR \<notin> set '' OK''" "\<not> c_isdigit (hd ('' OK'' @ crlf))" "list_all good_field ?fs"
    "announced ?fr (fold header_effect (map name_value ?fs) http_ctx_init)"
    "frame_length ?fr = 13"
    by code_simp+
  have l: "length sample_response < 2 ^ 31" by (simp add: sample_response_def)
  have "fold note_body (frame_pieces ?fr) (fold (read_field note_field) ?fs
      (note_line (int 200) None (int 1) (int 0) [])) =
      [''200'', '''', ''Transfer-Encoding'', ''chunked'', ''abc'', ''0123456789'', '''']" by code_simp
  then show ?thesis
    using response_message_parsed [OF fragment_needmore fragment_recycle_law _ _ _ *(1-4) _ _ _ *(5,6),
        of note_line note_field note_body] *(7) l
    by fastforce
qed

section \<open>Deviations\<close>

text \<open>A body callback that notes the stream position and the size of the body it is shown.\<close>

definition position_reader :: "(int \<times> int) mnhttp_cb" where
  "position_reader ctx b u = (0, ctx, b, (spos b, br_end (body ctx) - br_start (body ctx)))"

text \<open>
  C32. A message whose header section gives a negative body size - in particular one with no
  \<open>Content-Length\<close> and no chunked coding, for which \<open>bodysz\<close> is still -1 - makes the parser step
  back in the stream: at the empty line it moves past the line end and then \<open>k\<close> bytes back, and
  the body callback is shown a body of size \<open>- k\<close>.
\<close>

theorem negative_body_steps_back:
  assumes "needmore_law env" and "at_empty_line st after" and "\<not> chunked (m_ctx st)"
    and "bodysz (m_ctx st) = - k" and "0 < k"
  shows "\<exists>st'. message_step env pl lcb hcb (Some position_reader) st = Some (Inr (RC 0, st')) \<and>
    m_udata st' = (spos (m_in st) + 2 - k, - k)"
proof -
  let ?st = "after_empty_line st"
  note r = empty_line_round [OF assms(1,2)]
  have p: "spos (m_in ?st) \<le> seod (m_in ?st)" using r(2) by (simp add: pos_ok_def)
  have h: "body (m_ctx ?st) = \<lparr>br_start = spos (m_in ?st), br_end = spos (m_in ?st)\<rparr>"
    "bodysz (m_ctx ?st) = - k" "\<not> chunked (m_ctx ?st)" "spos (m_in ?st) = spos (m_in st) + 2"
    using assms(3,4) by (simp_all add: after_empty_line_def Let_def)
  have m: "min (seod (m_in ?st) - (spos (m_in st) + 2)) (- k) = - k" using p assms(5) by (simp add: h(4))
  show ?thesis
    unfolding r(1) step_body_in_def process_body_def process_plain_body_def Let_def
    by (simp add: h m call_cb_def position_reader_def set_state_def split: prod.split)
qed

theorem negative_body_steps_back_witness:
  "\<exists>st'. message_step fragment_env (parse_request_line fragment_env) None None (Some position_reader)
      ((fragment_state crlf [] (0, 0))\<lparr>m_ctx := http_ctx_init\<lparr>parser_state := PS_HEADER_FIELD_OUT\<rparr>\<rparr>) =
      Some (Inr (RC 0, st')) \<and> m_udata st' = (1, -1)"
proof -
  let ?st = "(fragment_state crlf [] (0 :: int, 0 :: int))\<lparr>m_ctx := http_ctx_init\<lparr>parser_state := PS_HEADER_FIELD_OUT\<rparr>\<rparr>"
  have "at_empty_line ?st []" "\<not> chunked (m_ctx ?st)" "bodysz (m_ctx ?st) = - 1" "spos (m_in ?st) = 0"
    by (simp_all add: at_empty_line_def fragment_state_def http_ctx_init_def no_range_def pos_ok_def
        stream_ok_def unread_def)
  then show ?thesis using negative_body_steps_back [OF fragment_needmore, of ?st "[]" 1] by simp
qed

lemma split_line_end:
  assumes "needmore_law env" and "recycle_law env" and "parser_state (m_ctx st) = PS_HEADER_FIELD_OUT"
    and "pos_ok (m_in st)" and "unread (m_in st) = LF # s @ c # rest" and "s \<noteq> []"
    and "0 < spos (m_in st)" and "br_start (current_header_name (m_ctx st)) = spos (m_in st) - 1"
    and "sbuf (m_in st) ! nat (spos (m_in st) - 1) = CR" and "announced (Whole s) (m_ctx st)"
  shows "\<exists>st'. message_step env pl lcb hcb (Some (body_reader h)) st = Some (Inr (RC 0, st')) \<and>
    m_udata st' = h (tl (s @ [c])) (m_udata st) \<and> unread (m_in st') = rest \<and> refill env st = Inl st"
proof -
  define b where "b = m_in st"
  let ?st = "after_empty_line st"
  have ok: "pos_ok b" and u: "unread b = [LF, hd s] @ tl (s @ [c]) @ rest" "unread b = [LF] @ s @ c # rest"
    using assms(4-6) by (simp_all add: b_def)
  obtain pre r where s: "sbuf b = pre @ [LF, hd s] @ r" "int (length pre) = spos b" "spos b + int (length [LF, hd s]) \<le> seod b"
    "pos_ok (b\<lparr>spos := spos b + int (length [LF, hd s])\<rparr>)"
    "unread (b\<lparr>spos := spos b + int (length [LF, hd s])\<rparr>) = tl (s @ [c]) @ rest"
    using unread_split [OF ok u(1)] by blast
  have lt: "spos (m_in st) < seod (m_in st)" using s(3) by (simp add: b_def)
  obtain pre' where pre: "pre = pre' @ [CR]"
  proof -
    have "pre \<noteq> []" using s(2) assms(7) by (auto simp: b_def)
    moreover have "nat (spos b - 1) = length pre - 1" using s(2) by simp
    then have "sbuf b ! (length pre - 1) = CR" using assms(9) by (simp add: b_def)
    then have "last pre = CR" using s(1) calculation by (simp add: last_conv_nth nth_append)
    ultimately show thesis using that by (metis append_butlast_last_id)
  qed
  have d: "drop (nat (spos b - 1)) (sbuf b) = [] @ CR # LF # hd s # r"
    unfolding s(2) [symmetric] by (simp add: s(1) pre)
  have "c_int (seod b - (spos b - 1)) = seod b - (spos b - 1)"
    using ok assms(7) by (intro stream_int_ok [of b]) (auto simp: pos_ok_def stream_ok_def b_def)
  moreover have "findcrlf (sbuf b) (spos b - 1) (seod b - (spos b - 1)) = Some (Some (spos b - 1 + int (length ([] :: string))))"
    by (rule findcrlf_layout [OF _ d]) (use ok s(3) assms(7) in \<open>simp_all add: pos_ok_def stream_ok_def b_def\<close>)
  ultimately have r: "message_step env pl lcb hcb (Some (body_reader h)) st = step_body_in env (Some (body_reader h)) ?st"
    using assms(3,8)
    by (simp add: message_step_def refill_none [OF assms(1) lt] dispatch_def step_header_out_def
        after_empty_line_def Let_def b_def)
  have h: "body (m_ctx ?st) = \<lparr>br_start = spos (m_in ?st), br_end = spos (m_in ?st)\<rparr>"
    "current_chunk (m_ctx ?st) = \<lparr>br_start = spos (m_in ?st), br_end = spos (m_in ?st)\<rparr>"
    "bodysz (m_ctx ?st) = int (length (tl (s @ [c])))" "\<not> chunked (m_ctx ?st)" "m_udata ?st = m_udata st"
    using assms(10) by (simp_all add: after_empty_line_def Let_def)
  have p: "pos_ok (m_in ?st)" "unread (m_in ?st) = tl (s @ [c]) @ rest"
    using s(4,5) by (simp_all add: after_empty_line_def Let_def b_def)
  obtain ctx' b' where "process_plain_body env (Some (body_reader h)) (m_ctx ?st) (m_in ?st) (m_udata ?st) (m_errno ?st) =
      Some (RC 0, ctx', b', h (tl (s @ [c])) (m_udata ?st), m_errno ?st)" "unread b' = rest"
    using plain_body_complete [OF assms(2) p h(1-3), of h "m_udata ?st" "m_errno ?st"] by blast
  with h show ?thesis by (simp add: r step_body_in_def process_body_def set_state_def refill_none [OF assms(1) lt])
qed

text \<open>
  C33. When the carriage return of the empty line has been read in an earlier round and the round at hand reads on, from its
  line feed, the parser skips one byte too many: the body callback is given the
  body without its first byte and with the first byte after the message, which is lost
  from the stream. (\<open>st0\<close> is the state after the read; it is \<open>st\<close> when no read is needed.)
\<close>

theorem split_line_end_shifts_body:
  assumes "needmore_law env" and "recycle_law env" and "refill env st = Inl st0" and "parser_state (m_ctx st0) = PS_HEADER_FIELD_OUT"
    and "pos_ok (m_in st0)" and "unread (m_in st0) = LF # s @ c # rest" and "s \<noteq> []"
    and "0 < spos (m_in st0)" and "br_start (current_header_name (m_ctx st0)) = spos (m_in st0) - 1"
    and "sbuf (m_in st0) ! nat (spos (m_in st0) - 1) = CR" and "announced (Whole s) (m_ctx st0)"
  shows "\<exists>st'. message_step env pl lcb hcb (Some (body_reader h)) st = Some (Inr (RC 0, st')) \<and>
    m_udata st' = h (tl (s @ [c])) (m_udata st) \<and> unread (m_in st') = rest"
proof -
  obtain st' where st': "message_step env pl lcb hcb (Some (body_reader h)) st0 = Some (Inr (RC 0, st'))"
      "m_udata st' = h (tl (s @ [c])) (m_udata st0)" "unread (m_in st') = rest" "refill env st0 = Inl st0"
    using split_line_end [OF assms(1,2,4-11)] by blast
  have "m_udata st0 = m_udata st"
    using assms(3) by (auto simp: refill_def Let_def split: if_split_asm prod.split_asm)
  then show ?thesis using st' assms(3) by (simp add: message_step_def)
qed

theorem split_line_end_shifts_body_witness:
  "\<exists>st'. message_step fragment_env (parse_request_line fragment_env) None None (Some (body_reader note_body))
      ((fragment_state [CR] [LF # ''xyz'' @ ''GET''] [])\<lparr>
         m_ctx := http_ctx_init\<lparr>parser_state := PS_HEADER_FIELD_OUT, bodysz := 3\<rparr>,
         m_in := \<lparr>sbuf = [CR], saddr = 4096, seod = 1, spos = 1\<rparr>\<rparr>) =
      Some (Inr (RC 0, st')) \<and> m_udata st' = [''yzG''] \<and> unread (m_in st') = ''ET''"
proof -
  let ?b = "\<lparr>sbuf = crlf @ ''xyz'' @ ''GET'', saddr = 4096, seod = 8, spos = 1\<rparr>"
  let ?st = "(fragment_state [CR] [LF # ''xyz'' @ ''GET''] [])\<lparr>
         m_ctx := http_ctx_init\<lparr>parser_state := PS_HEADER_FIELD_OUT, bodysz := 3\<rparr>,
         m_in := \<lparr>sbuf = [CR], saddr = 4096, seod = 1, spos = 1\<rparr>\<rparr>"
  let ?after = "?st\<lparr>m_in := ?b, m_fd := []\<rparr>"
  have r: "refill fragment_env ?st = Inl ?after"
    by (simp add: refill_def fragment_env_def fragment_consume_def fragment_state_def)
  have "pos_ok ?b" "unread ?b = LF # ''xyz'' @ CHR ''G'' # ''ET''" "spos ?b = 1" "sbuf ?b ! nat (spos ?b - 1) = CR"
    by (simp_all add: pos_ok_def stream_ok_def unread_def)
  moreover have "br_start (current_header_name (m_ctx ?after)) = 0" "announced (Whole ''xyz'') (m_ctx ?after)"
    by (simp_all add: http_ctx_init_def no_range_def)
  ultimately show ?thesis
    using split_line_end_shifts_body [OF fragment_needmore fragment_recycle_law r, of "''xyz''" "CHR ''G''" "''ET''"
        "parse_request_line fragment_env" None None note_body]
    by (simp add: note_body_def fragment_state_def)
qed

end
