(* ===== verification/HttpEnds.thy ===== *)
theory HttpEnds
  imports HttpMessage
begin

text \<open>
  The parser on arbitrary input. Whatever bytes arrive, in whatever pieces, the loop of \<open>_http_parse_message\<close> keeps the
  read position and the starts of the line, field or chunk at hand between 0 and the end of the data, except that in the body they
  may be up to two bytes past it (\<open>live\<close>: the line ends behind the header and behind a chunk are skipped before they have
  arrived). Every round that does not read more data makes progress in a lexicographic measure (\<open>progress\<close>): the phase of the
  message, then how far the field or chunk at hand is from the end of the data, then the data left to look at. So the loop stops
  once the input does: it returns, or a round is undefined behaviour of the C code.
\<close>

section \<open>What the libraries promise\<close>

text \<open>
  Reading more appends to the data and does not move the position; \<open>stock\<close> bounds how often it can succeed. Recycling
  drops a number of bytes before \<open>until\<close> and moves the end of the data and the position by it, also when the position is
  past the end.
\<close>

definition supply_law :: "'w bs_env \<Rightarrow> ('w \<Rightarrow> nat) \<Rightarrow> bool" where
  "supply_law env stock \<longleftrightarrow>
     (\<forall>b w e b' w' e'. bytestream_consume_data env b w e = (0, b', w', e') \<longrightarrow> stream_ok b \<longrightarrow>
        stream_ok b' \<and> spos b' = spos b \<and> seod b \<le> seod b' \<and> stock w' < stock w)"

definition shift_law :: "'w bs_env \<Rightarrow> bool" where
  "shift_law env \<longleftrightarrow>
     (\<forall>b n u. stream_ok b \<longrightarrow> 0 \<le> u \<longrightarrow> u \<le> spos b \<longrightarrow>
        (case bytestream_recycle env b n u of (r, b') \<Rightarrow>
           0 \<le> r \<and> r \<le> u \<and> r \<le> seod b \<and> length (sbuf b') = length (sbuf b) \<and> seod b' = seod b - r \<and> spos b' = spos b - r))"

text \<open>A callback that looks at the context and the stream but does not change them.\<close>

definition tame_cb :: "'u mnhttp_cb option \<Rightarrow> bool" where
  "tame_cb cb \<longleftrightarrow> (\<forall>ctx b u. \<exists>r u'. call_cb cb ctx b u = (r, ctx, b, u'))"

lemma tame_cbD:
  assumes "tame_cb cb" and "call_cb cb ctx b u = (r, ctx', b', u')"
  shows "ctx' = ctx \<and> b' = b"
  using assms unfolding tame_cb_def by (metis Pair_inject)

section \<open>Where the positions are\<close>

definition body_live :: "mnhttp_ctx \<Rightarrow> bytestream \<Rightarrow> bool" where
  "body_live ctx b \<longleftrightarrow> stream_ok b \<and> 0 \<le> spos b \<and> spos b \<le> seod b + 2 \<and>
     (chunked ctx \<longrightarrow>
        chunk_parser_state ctx = PS_CHUNK_SIZE \<and> 0 \<le> br_start (current_chunk ctx) \<and> br_start (current_chunk ctx) \<le> seod b + 2 \<or>
        chunk_parser_state ctx = PS_CHUNK_DATA \<and> spos b \<le> seod b)"

definition head_live :: "mnhttp_ctx \<Rightarrow> bytestream \<Rightarrow> bool" where
  "head_live ctx b \<longleftrightarrow> stream_ok b \<and> 0 \<le> spos b \<and> spos b \<le> seod b \<and> (chunked ctx \<longrightarrow> chunk_parser_state ctx = PS_CHUNK_SIZE)"

definition within :: "int \<Rightarrow> bytestream \<Rightarrow> bool" where
  "within i b \<longleftrightarrow> 0 \<le> i \<and> i \<le> seod b"

definition live :: "('w, 'u) mstate \<Rightarrow> bool" where
  "live st \<longleftrightarrow> (let ctx = m_ctx st; b = m_in st; s = parser_state ctx in
     s = PS_START \<and> head_live ctx b \<or>
     s = PS_LINE \<and> head_live ctx b \<and> within (br_start (first_line ctx)) b \<or>
     s = PS_HEADER_FIELD_IN \<and> head_live ctx b \<or>
     s = PS_HEADER_FIELD_OUT \<and> head_live ctx b \<and> within (br_start (current_header_name ctx)) b \<or>
     s = PS_BODY \<and> body_live ctx b)"

section \<open>Progress\<close>

text \<open>Where the field or chunk at hand starts; the end of the data is that far away.\<close>

definition body_start :: "mnhttp_ctx \<Rightarrow> bytestream \<Rightarrow> int" where
  "body_start ctx b = (if \<not> chunked ctx then seod b
     else if chunk_parser_state ctx = PS_CHUNK_SIZE then br_start (current_chunk ctx) else spos b)"

definition phase :: "mnhttp_ctx \<Rightarrow> nat" where
  "phase ctx = nat (6 - (if parser_state ctx = PS_HEADER_FIELD_OUT then PS_HEADER_FIELD_IN else parser_state ctx))"

definition distance :: "mnhttp_ctx \<Rightarrow> bytestream \<Rightarrow> nat" where
  "distance ctx b = (let s = parser_state ctx in
     if s = PS_HEADER_FIELD_IN then nat (seod b - spos b)
     else if s = PS_HEADER_FIELD_OUT then nat (seod b - br_start (current_header_name ctx))
     else if s = PS_BODY then nat (seod b - body_start ctx b) else 0)"

definition rank :: "mnhttp_ctx \<Rightarrow> nat" where
  "rank ctx = (if parser_state ctx = PS_HEADER_FIELD_IN then 1 else 0)"

definition progress :: "(mnhttp_ctx \<times> bytestream) rel" where
  "progress = measures [\<lambda>(c, b). phase c, \<lambda>(c, b). distance c b, \<lambda>(c, b). rank c, \<lambda>(c, b). nat (seod b - spos b)]"

lemma findcrlf_end:
  assumes "stream_ok b" and "0 \<le> s" and "s \<le> seod b + 2" and "findcrlf (sbuf b) s (c_int (seod b - s)) = Some (Some i)"
  shows "s \<le> i" and "i + 2 \<le> seod b"
proof -
  have c: "c_int (seod b - s) = seod b - s" using assms(1-3) by (intro c_int_id) (auto simp: int_ok_def stream_ok_def)
  have "s + (seod b - s) \<le> int (length (sbuf b))" using assms(1) by (simp add: stream_ok_def)
  from crlf.find_SomeD [OF assms(2) this] assms(4) show "s \<le> i" "i + 2 \<le> seod b" unfolding c by auto
qed

section \<open>The body\<close>

lemma chunk_size_live:
  assumes "process_chunk_size env ctx b u e = Some (RC MNHTTP_PARSE_NEED_MORE, ctx', b', u', e')"
    and "body_live ctx b" and "chunked ctx" and "chunk_parser_state ctx = PS_CHUNK_SIZE"
  shows "body_live ctx' b' \<and> chunked ctx' \<and> parser_state ctx' = parser_state ctx \<and>
    (spos b < seod b \<longrightarrow> nat (seod b' - body_start ctx' b') < nat (seod b - body_start ctx b) \<or>
       seod b' - body_start ctx' b' = seod b - body_start ctx b \<and> nat (seod b' - spos b') < nat (seod b - spos b))"
proof -
  let ?s = "br_start (current_chunk ctx)"
  have l: "stream_ok b" "0 \<le> ?s" "?s \<le> seod b + 2" using assms(2-4) by (auto simp: body_live_def)
  obtain r where r: "findcrlf (sbuf b) ?s (c_int (seod b - ?s)) = Some r" using assms(1) by (auto simp: process_chunk_size_def Let_def split: Option.bind_split_asm)
  show ?thesis
  proof (cases r)
    case None
    then have "ctx' = ctx" "b' = b\<lparr>spos := seod b\<rparr>" using assms(1) r by (auto simp: process_chunk_size_def)
    then show ?thesis using assms(2-4) by (auto simp: body_live_def body_start_def stream_ok_def)
  next
    case (Some i)
    note f = findcrlf_end [OF l r [unfolded Some]]
    obtain v z where "ctx' = ctx\<lparr>current_chunk_size := v, bodysz := z, current_chunk := \<lparr>br_start = i + 2, br_end = i + 2\<rparr>,
        chunk_parser_state := PS_CHUNK_DATA\<rparr>" "b' = b\<lparr>spos := i + 2\<rparr>"
      using assms(1) r Some by (auto simp: process_chunk_size_def Let_def split: Option.bind_split_asm if_split_asm prod.split_asm)
    then show ?thesis using assms(3,4) f l by (auto simp: body_live_def body_start_def stream_ok_def)
  qed
qed

lemma chunk_data_live:
  assumes "process_chunk_data env cb ctx b u e = Some (RC MNHTTP_PARSE_NEED_MORE, ctx', b', u', e')"
    and "body_live ctx b" and "chunked ctx" and "chunk_parser_state ctx = PS_CHUNK_DATA" and "tame_cb cb" and "shift_law env"
  shows "body_live ctx' b' \<and> chunked ctx' \<and> parser_state ctx' = parser_state ctx \<and>
    (spos b < seod b \<longrightarrow> nat (seod b' - body_start ctx' b') < nat (seod b - body_start ctx b))"
proof -
  let ?cc = "current_chunk ctx"
  let ?n = "c_int (current_chunk_size ctx - (br_end ?cc - br_start ?cc))"
  have l: "stream_ok b" "0 \<le> spos b" "spos b \<le> seod b" using assms(2-4) by (auto simp: body_live_def)
  then have c: "c_int (seod b - spos b) = seod b - spos b" by (intro c_int_id) (auto simp: int_ok_def stream_ok_def)
  show ?thesis
  proof (cases "0 < ?n")
    case True
    then have "ctx' = ctx\<lparr>current_chunk := ?cc\<lparr>br_end := br_end ?cc + min ?n (seod b - spos b)\<rparr>\<rparr>"
        "b' = b\<lparr>spos := spos b + min ?n (seod b - spos b)\<rparr>"
      using assms(1) c by (auto simp: process_chunk_data_def Let_def)
    then show ?thesis using assms(3,4) l True by (auto simp: body_live_def body_start_def stream_ok_def)
  next
    case False
    obtain q ctx1 b1 u1 where q: "call_cb cb ctx b u = (q, ctx1, b1, u1)" by (cases "call_cb cb ctx b u")
    note t = tame_cbD [OF assms(5) q]
    let ?p = "spos b + 2"
    let ?ctx2 = "ctx\<lparr>chunk_parser_state := PS_CHUNK_SIZE, current_chunk := \<lparr>br_start = ?p, br_end = ?p\<rparr>\<rparr>"
    obtain r b2 where r: "bytestream_recycle env (b\<lparr>spos := ?p\<rparr>) 512 ?p = (r, b2)" by (rule prod.exhaust)
    have "stream_ok (b\<lparr>spos := ?p\<rparr>)" using l(1) by (simp add: stream_ok_def)
    then have s: "0 \<le> r" "r \<le> ?p" "r \<le> seod b" "length (sbuf b2) = length (sbuf b)" "seod b2 = seod b - r" "spos b2 = ?p - r"
      using assms(6) [unfolded shift_law_def, rule_format, of "b\<lparr>spos := ?p\<rparr>" ?p 512] l unfolding r by auto
    have "b' = b2" "chunked ctx' = chunked ctx" "chunk_parser_state ctx' = PS_CHUNK_SIZE" "br_start (current_chunk ctx') = ?p - r"
        "parser_state ctx' = parser_state ctx"
      using assms(1) False q t r by (auto simp: process_chunk_data_def recycle_stream_buffer_def Let_def split: if_split_asm)
    then show ?thesis using s l assms(3,4) by (auto simp: body_live_def body_start_def stream_ok_def)
  qed
qed

lemma plain_body_live:
  assumes "process_plain_body env cb ctx b u e = Some (RC MNHTTP_PARSE_NEED_MORE, ctx', b', u', e')"
    and "body_live ctx b" and "\<not> chunked ctx"
  shows "body_live ctx' b' \<and> \<not> chunked ctx' \<and> parser_state ctx' = parser_state ctx \<and> b' = b\<lparr>spos := seod b\<rparr>"
proof -
  let ?bd = "body ctx"
  let ?i = "min (seod b - spos b) (bodysz ctx - (br_end ?bd - br_start ?bd))"
  have "br_end ?bd + ?i - br_start ?bd < bodysz ctx \<and> ctx' = ctx\<lparr>body := ?bd\<lparr>br_end := br_end ?bd + ?i\<rparr>,
      current_chunk := (current_chunk ctx)\<lparr>br_end := br_end ?bd + ?i\<rparr>\<rparr> \<and> b' = b\<lparr>spos := spos b + ?i\<rparr>"
    using assms(1) by (auto simp: process_plain_body_def Let_def split: if_split_asm prod.split_asm)
  moreover from this have "?i = seod b - spos b" by linarith
  ultimately show ?thesis using assms(2,3) by (auto simp: body_live_def stream_ok_def)
qed

lemma process_body_live:
  assumes "process_body env cb ctx b u e = Some (RC MNHTTP_PARSE_NEED_MORE, ctx', b', u', e')"
    and "body_live ctx b" and "tame_cb cb" and "shift_law env"
  shows "body_live ctx' b' \<and> parser_state ctx' = parser_state ctx \<and>
    (spos b < seod b \<longrightarrow> nat (seod b' - body_start ctx' b') < nat (seod b - body_start ctx b) \<or>
       seod b' - body_start ctx' b' = seod b - body_start ctx b \<and> nat (seod b' - spos b') < nat (seod b - spos b))"
proof (cases "chunked ctx")
  case True
  then consider "chunk_parser_state ctx = PS_CHUNK_SIZE" | "chunk_parser_state ctx = PS_CHUNK_DATA"
    using assms(2) by (auto simp: body_live_def)
  then show ?thesis
  proof cases
    case 1
    then show ?thesis using chunk_size_live [of env ctx b u e ctx' b' u' e'] assms(1,2) True by (simp add: process_body_def)
  next
    case 2
    then show ?thesis using chunk_data_live [of env cb ctx b u e ctx' b' u' e'] assms True by (simp add: process_body_def)
  qed
next
  case False
  then show ?thesis using plain_body_live [of env cb ctx b u e ctx' b' u' e'] assms(1,2) by (auto simp: process_body_def body_start_def)
qed

section \<open>A round\<close>

text \<open>What a round without reading does to a live state.\<close>

definition moves :: "('w, 'u) mstate \<Rightarrow> ('w, 'u) mstate \<Rightarrow> bool" where
  "moves st st' \<longleftrightarrow> live st' \<and> m_fd st' = m_fd st \<and>
     (spos (m_in st) < seod (m_in st) \<longrightarrow> ((m_ctx st', m_in st'), (m_ctx st, m_in st)) \<in> progress)"

lemmas progress_defs = progress_def phase_def distance_def rank_def Let_def

lemma step_start_moves: "live st \<Longrightarrow> parser_state (m_ctx st) = PS_START \<Longrightarrow> step_start st = Some (Inl st') \<Longrightarrow> moves st st'"
  by (auto simp: step_start_def moves_def live_def head_live_def within_def progress_defs)

lemma step_header_in_moves:
  "live st \<Longrightarrow> parser_state (m_ctx st) = PS_HEADER_FIELD_IN \<Longrightarrow> step_header_in st = Some (Inl st') \<Longrightarrow> moves st st'"
  by (auto simp: step_header_in_def moves_def live_def head_live_def within_def progress_defs)

context line_parser
begin

lemma step_line_moves:
  assumes "live st" and "parser_state (m_ctx st) = PS_LINE" and "tame_cb line_cb"
    and "step_line parse_line line_cb st = Some (Inl st')"
  shows "moves st st'"
proof -
  have l: "head_live (m_ctx st) (m_in st)" "within (br_start (first_line (m_ctx st))) (m_in st)"
    using assms(1,2) by (auto simp: live_def Let_def)
  obtain r ctx b e where p: "parse_line (m_ctx st) (m_in st) (m_errno st) = Some (r, ctx, b, e)"
    using assms(4) by (auto simp: step_line_def split: Option.bind_split_asm)
  obtain q ctx2 b2 u2 where q: "call_cb line_cb ctx b (m_udata st) = (q, ctx2, b2, u2)" by (cases "call_cb line_cb ctx b (m_udata st)")
  note t = tame_cbD [OF assms(3) q]
  consider "r = RC MNHTTP_PARSE_NEED_MORE" "ctx = m_ctx st" "b = (m_in st)\<lparr>spos := seod (m_in st)\<rparr>"
    | i where "r = RC 0" "parser_state ctx = PS_HEADER_FIELD_IN" "same_body (m_ctx st) ctx" "b = (m_in st)\<lparr>spos := i + 2\<rparr>"
      "findcrlf (sbuf (m_in st)) (br_start (first_line (m_ctx st))) (c_int (seod (m_in st) - br_start (first_line (m_ctx st)))) = Some (Some i)"
    | k where "r = ERR HTTP_PARSE_MESSAGE k"
    using line_result [OF p] by blast
  then show ?thesis
  proof cases
    case 1
    then have "st' = st\<lparr>m_in := b, m_errno := e\<rparr>" using assms(4) p by (auto simp: step_line_def)
    then show ?thesis using l assms(2) 1 by (auto simp: moves_def live_def head_live_def within_def stream_ok_def progress_defs)
  next
    case (2 i)
    have i: "0 \<le> i" "i + 2 \<le> seod (m_in st)"
      using findcrlf_end [OF _ _ _ 2(5)] l by (auto simp: head_live_def within_def)
    have "st' = st\<lparr>m_ctx := ctx, m_in := b, m_errno := e, m_udata := u2\<rparr>"
      using assms(4) p q t 2(1) by (auto simp: step_line_def Let_def split: if_split_asm)
    then show ?thesis using l assms(2) 2(2-4) i by (auto simp: moves_def live_def head_live_def stream_ok_def same_body_def progress_defs)
  next
    case 3
    then show ?thesis using assms(4) p by (auto simp: step_line_def)
  qed
qed

end

lemma step_body_moves:
  assumes "live st" and "parser_state (m_ctx st) = PS_BODY" and "tame_cb body_cb" and "shift_law env"
    and "step_body env body_cb st = Some (Inl st')"
  shows "moves st st'"
proof -
  obtain ctx b u e where p: "process_body env body_cb (m_ctx st) (m_in st) (m_udata st) (m_errno st) =
      Some (RC MNHTTP_PARSE_NEED_MORE, ctx, b, u, e)" "st' = st\<lparr>m_ctx := ctx, m_in := b, m_udata := u, m_errno := e\<rparr>"
    using assms(5) by (auto simp: step_body_def Let_def split: Option.bind_split_asm if_split_asm)
  have "body_live (m_ctx st) (m_in st)" using assms(1,2) by (auto simp: live_def)
  from process_body_live [OF p(1) this assms(3,4)] p(2) assms(2) show ?thesis
    by (auto simp: moves_def live_def progress_defs)
qed

lemma process_header_live:
  "process_header env ctx b e = Some (r, ctx', e') \<Longrightarrow>
     (chunked ctx \<longrightarrow> chunk_parser_state ctx = PS_CHUNK_SIZE) \<Longrightarrow> chunked ctx' \<longrightarrow> chunk_parser_state ctx' = PS_CHUNK_SIZE"
  by (auto simp: process_header_def split: Option.bind_split_asm if_split_asm prod.split_asm)

lemma header_line_moves:
  assumes "live st" and "parser_state (m_ctx st) = PS_HEADER_FIELD_OUT" and "tame_cb header_cb"
    and "br_start (current_header_name (m_ctx st)) \<le> i" and "i + 2 \<le> seod (m_in st)"
    and "header_line env header_cb i st = Some (Inl st')"
  shows "moves st st'"
proof -
  have l: "head_live (m_ctx st) (m_in st)" "within (br_start (current_header_name (m_ctx st))) (m_in st)"
    using assms(1,2) by (auto simp: live_def Let_def)
  let ?b = "m_in st" and ?ctx = "m_ctx st"
  let ?ctx1 = "?ctx\<lparr>current_header_value := (current_header_value ?ctx)\<lparr>br_end := i\<rparr>\<rparr>"
  obtain t buf1 v buf where w: "memchr (sbuf ?b) (br_start (current_header_name ?ctx)) (CHR '':'') (i - br_start (current_header_name ?ctx)) = Some (Some t)"
      "wr (sbuf ?b) t NUL = Some buf1" "findnosp buf1 (t + 1) (c_int (i - (t + 1))) = Some v" "wr buf1 i NUL = Some buf"
    using assms(6) by (auto simp: header_line_def Let_def split: Option.bind_split_asm option.split_asm)
  define ctx2 where "ctx2 = ?ctx1\<lparr>current_header_name := (current_header_name ?ctx1)\<lparr>br_end := t\<rparr>,
      current_header_value := (current_header_value ?ctx1)\<lparr>br_start := SDPOS ?b v\<rparr>\<rparr>"
  have p234: "chunked ctx2 = chunked ?ctx" "chunk_parser_state ctx2 = chunk_parser_state ?ctx" "length buf = length (sbuf ?b)"
    using w(2,4) by (auto simp: ctx2_def wr_eq_Some)
  obtain r ctx3 e3 where p1: "process_header env ctx2 (?b\<lparr>sbuf := buf\<rparr>) (m_errno st) = Some (r, ctx3, e3)"
    using assms(6) w by (auto simp: header_line_def Let_def ctx2_def split: Option.bind_split_asm)
  note p = p1 p234
  obtain cr ctx4 b4 u4 where c: "call_cb header_cb ctx3 ((m_in st)\<lparr>sbuf := buf\<rparr>) (m_udata st) = (cr, ctx4, b4, u4)"
    by (cases "call_cb header_cb ctx3 ((m_in st)\<lparr>sbuf := buf\<rparr>) (m_udata st)")
  note t = tame_cbD [OF assms(3) c]
  have "chunked ctx3 \<longrightarrow> chunk_parser_state ctx3 = PS_CHUNK_SIZE" using process_header_live [OF p(1)] p(2,3) l by (simp add: head_live_def)
  moreover have "st' = st\<lparr>m_ctx := ctx3\<lparr>parser_state := PS_HEADER_FIELD_IN\<rparr>, m_in := (m_in st)\<lparr>sbuf := buf, spos := i + 2\<rparr>,
      m_errno := e3, m_udata := u4\<rparr>"
    using assms(6) w p1 c t by (auto simp: header_line_def Let_def ctx2_def set_state_def split: if_split_asm)
  ultimately show ?thesis using l p(4) assms(2,4,5) by (auto simp: moves_def live_def head_live_def within_def stream_ok_def progress_defs)
qed

lemma step_header_out_moves:
  assumes "live st" and "parser_state (m_ctx st) = PS_HEADER_FIELD_OUT" and "tame_cb header_cb" and "tame_cb body_cb" and "shift_law env"
    and "step_header_out env header_cb body_cb st = Some (Inl st')"
  shows "moves st st'"
proof -
  let ?ctx = "m_ctx st" and ?b = "m_in st"
  let ?s = "br_start (current_header_name ?ctx)"
  have l: "head_live ?ctx ?b" "within ?s ?b" using assms(1,2) by (auto simp: live_def Let_def)
  obtain r where r: "findcrlf (sbuf ?b) ?s (c_int (seod ?b - ?s)) = Some r"
    using assms(6) by (auto simp: step_header_out_def Let_def split: Option.bind_split_asm)
  show ?thesis
  proof (cases r)
    case None
    then have "st' = st\<lparr>m_in := ?b\<lparr>spos := seod ?b\<rparr>\<rparr>" using assms(6) r by (simp add: step_header_out_def Let_def)
    then show ?thesis using l assms(2) by (auto simp: moves_def live_def head_live_def within_def stream_ok_def progress_defs)
  next
    case (Some i)
    have i: "?s \<le> i" "i + 2 \<le> seod ?b" using findcrlf_end [OF _ _ _ r [unfolded Some]] l by (auto simp: head_live_def within_def)
    show ?thesis
    proof (cases "i = ?s")
      case False
      then have "header_line env header_cb i st = Some (Inl st')" using assms(6) r Some by (simp add: step_header_out_def Let_def)
      then show ?thesis by (rule header_line_moves [OF assms(1,2,3) i])
    next
      case True
      let ?p = "spos ?b + 2"
      let ?ctx1 = "?ctx\<lparr>body := \<lparr>br_start = ?p, br_end = ?p\<rparr>, current_chunk := \<lparr>br_start = ?p, br_end = ?p\<rparr>, parser_state := PS_BODY_IN\<rparr>"
      obtain ctx b u e where p: "process_body env body_cb ?ctx1 (?b\<lparr>spos := ?p\<rparr>) (m_udata st) (m_errno st) =
          Some (RC MNHTTP_PARSE_NEED_MORE, ctx, b, u, e)"
          "st' = set_state PS_BODY (st\<lparr>m_ctx := ctx, m_in := b, m_udata := u, m_errno := e\<rparr>)"
        using assms(6) r Some True
        by (auto simp: step_header_out_def step_body_in_def Let_def split: Option.bind_split_asm if_split_asm)
      have "body_live ?ctx1 (?b\<lparr>spos := ?p\<rparr>)" using l(1) by (auto simp: body_live_def head_live_def stream_ok_def)
      from process_body_live [OF p(1) this assms(4,5)] have "body_live (ctx\<lparr>parser_state := PS_BODY\<rparr>) b" by (simp add: body_live_def)
      then show ?thesis using p(2) assms(2) by (auto simp: moves_def live_def set_state_def progress_defs)
    qed
  qed
qed

context line_parser
begin

lemma dispatch_moves:
  assumes "live st" and "tame_cb line_cb" and "tame_cb header_cb" and "tame_cb body_cb" and "shift_law env"
    and "dispatch env parse_line line_cb header_cb body_cb st = Some (Inl st')"
  shows "moves st st'"
proof -
  consider "parser_state (m_ctx st) = PS_START" | "parser_state (m_ctx st) = PS_LINE" | "parser_state (m_ctx st) = PS_HEADER_FIELD_IN"
    | "parser_state (m_ctx st) = PS_HEADER_FIELD_OUT" | "parser_state (m_ctx st) = PS_BODY"
    using assms(1) by (auto simp: live_def Let_def)
  then show ?thesis
  proof cases
    case 1
    then show ?thesis using step_start_moves [OF assms(1)] assms(6) by (simp add: dispatch_def)
  next
    case 2
    then show ?thesis using step_line_moves [OF assms(1) _ assms(2)] assms(6) by (simp add: dispatch_def)
  next
    case 3
    then show ?thesis using step_header_in_moves [OF assms(1)] assms(6) by (simp add: dispatch_def)
  next
    case 4
    then show ?thesis using step_header_out_moves [OF assms(1) _ assms(3-5)] assms(6) by (simp add: dispatch_def)
  next
    case 5
    then show ?thesis using step_body_moves [OF assms(1) _ assms(4,5)] assms(6) by (simp add: dispatch_def)
  qed
qed

end

text \<open>Reading more keeps a live state live.\<close>

lemma refill_live:
  assumes "refill env st = Inl st1" and "live st" and "supply_law env stock" and "needmore_law env"
  shows "live st1 \<and> (st1 = st \<and> spos (m_in st) < seod (m_in st) \<or> stock (m_fd st1) < stock (m_fd st))"
proof (cases "seod (m_in st) \<le> spos (m_in st)")
  case False
  then show ?thesis using assms by (auto simp: refill_def needmore_law_def)
next
  case True
  obtain b w e where c: "bytestream_consume_data env (m_in st) (m_fd st) (m_errno st) = (0, b, w, e)" "st1 = st\<lparr>m_in := b, m_fd := w, m_errno := e\<rparr>"
    using assms(1,4) True by (auto simp: refill_def needmore_law_def Let_def split: prod.split_asm if_split_asm)
  have "stream_ok (m_in st)" using assms(2) by (auto simp: live_def Let_def head_live_def body_live_def)
  from assms(3) [unfolded supply_law_def, rule_format, OF c(1) this] have "stream_ok b" "spos b = spos (m_in st)" "seod (m_in st) \<le> seod b" "stock w < stock (m_fd st)"
    by auto
  note g = this
  have "head_live ctx (m_in st) \<Longrightarrow> head_live ctx b" "body_live ctx (m_in st) \<Longrightarrow> body_live ctx b" "within i (m_in st) \<Longrightarrow> within i b" for ctx i
    using g unfolding head_live_def body_live_def within_def by auto
  then have "live st1" using assms(2) c(2) unfolding live_def Let_def by auto
  then show ?thesis using g(4) c(2) by simp
qed

text \<open>What the loop can return, and where the stream is while it runs.\<close>

definition parse_result :: "res \<Rightarrow> bool" where
  "parse_result r \<longleftrightarrow> r \<in> {RC 0, RC MNHTTP_PARSE_EMPTY, RC MNHTTP_PARSE_CONSUME_DATA_ERROR} \<or> (\<exists>k. r = ERR HTTP_PARSE_MESSAGE k)"

definition in_bounds :: "('w, 'u) mstate \<Rightarrow> bool" where
  "in_bounds st \<longleftrightarrow> (let b = m_in st in
     0 \<le> seod b \<and> seod b \<le> int (length (sbuf b)) \<and> 0 \<le> spos b \<and> spos b \<le> seod b + 2 \<and>
     (parser_state (m_ctx st) \<noteq> PS_BODY \<longrightarrow> spos b \<le> seod b))"

lemma live_in_bounds: "live st \<Longrightarrow> in_bounds st"
  by (auto simp: live_def in_bounds_def head_live_def body_live_def stream_ok_def Let_def)

text \<open>A round reads, or it moves on.\<close>

definition ahead :: "('w \<Rightarrow> nat) \<Rightarrow> ('w, 'u) mstate rel" where
  "ahead stock = inv_image (less_than <*lex*> progress) (\<lambda>st. (stock (m_fd st), m_ctx st, m_in st))"

lemma wf_ahead: "wf (ahead stock)"
  by (simp add: ahead_def progress_def wf_lex_prod)

context line_parser
begin

lemma message_step_ahead:
  assumes "live st" and "supply_law env stock" and "needmore_law env" and "shift_law env"
    and "tame_cb line_cb" and "tame_cb header_cb" and "tame_cb body_cb"
    and "message_step env parse_line line_cb header_cb body_cb st = Some (Inl st')"
  shows "live st' \<and> (st', st) \<in> ahead stock"
proof -
  obtain st1 where 1: "refill env st = Inl st1" "dispatch env parse_line line_cb header_cb body_cb st1 = Some (Inl st')"
    using assms(8) by (auto simp: message_step_def split: sum.split_asm)
  note r = refill_live [OF 1(1) assms(1-3)]
  have m: "moves st1 st'" using dispatch_moves [OF _ assms(5-7,4) 1(2)] r by blast
  show ?thesis using r m by (auto simp: moves_def ahead_def)
qed

lemma message_step_result:
  assumes "message_step env parse_line line_cb header_cb body_cb st = Some (Inr (r, st'))"
  shows "parse_result r"
proof (cases "refill env st")
  case (Inl st1)
  then have d: "dispatch env parse_line line_cb header_cb body_cb st1 = Some (Inr (r, st'))" using assms by (simp add: message_step_def)
  have line: "parse_result r" if l: "step_line parse_line line_cb st1 = Some (Inr (r, st'))"
  proof -
    obtain q ctx b e where p: "parse_line (m_ctx st1) (m_in st1) (m_errno st1) = Some (q, ctx, b, e)"
      using l by (auto simp: step_line_def split: Option.bind_split_asm)
    from line_result [OF p] show ?thesis
      using l p by (auto simp: step_line_def parse_result_def Let_def split: if_split_asm prod.split_asm)
  qed
  have body_in: "parse_result r" if "step_body_in env body_cb s = Some (Inr (r, st'))" for s
    using that by (auto simp: step_body_in_def parse_result_def Let_def split: Option.bind_split_asm if_split_asm)
  have "parse_result r" if "step_body env body_cb st1 = Some (Inr (r, st'))"
    using that by (auto simp: step_body_def parse_result_def Let_def split: Option.bind_split_asm if_split_asm)
  moreover have "parse_result r" if "header_line env header_cb i st1 = Some (Inr (r, st'))" for i
    using that by (auto simp: header_line_def parse_result_def Let_def split: Option.bind_split_asm option.split_asm if_split_asm prod.split_asm)
  moreover from this body_in have "parse_result r" if "step_header_out env header_cb body_cb st1 = Some (Inr (r, st'))"
    using that by (auto simp: step_header_out_def Let_def split: Option.bind_split_asm option.split_asm if_split_asm)
  ultimately show ?thesis
    using d line body_in by (auto simp: dispatch_def step_start_def step_header_in_def parse_result_def Let_def split: if_split_asm)
next
  case (Inr p)
  then show ?thesis using assms
    by (auto simp: message_step_def refill_def parse_result_def Let_def split: if_split_asm prod.split_asm)
qed

lemma parse_message_ends:
  assumes "live st" and "supply_law env stock" and "needmore_law env" and "shift_law env"
    and "tame_cb line_cb" and "tame_cb header_cb" and "tame_cb body_cb"
  shows "(\<exists>n. http_parse_message n env parse_line line_cb header_cb body_cb st = Undefined \<or>
       (\<exists>r s. http_parse_message n env parse_line line_cb header_cb body_cb st = Returned (r, s) \<and> parse_result r)) \<and>
    (\<forall>n s. http_parse_message n env parse_line line_cb header_cb body_cb st = Running s \<longrightarrow> in_bounds s)"
proof -
  let ?f = "message_step env parse_line line_cb header_cb body_cb"
  note step = message_step_ahead [OF _ assms(2-7)]
  obtain n where n: "\<forall>s. run_steps n ?f st \<noteq> Running s"
    using run_steps_ends [OF wf_ahead [of stock] step assms(1)] by blast
  have keeps: "(\<exists>s'. q = Inl s' \<and> live s') \<or> (\<exists>x. q = Inr x \<and> parse_result (fst x))" if "live s" "?f s = Some q" for s q
  proof (cases q)
    case (Inl s')
    then show ?thesis using step [OF that(1)] that(2) by simp
  next
    case (Inr x)
    then show ?thesis using message_step_result [of env line_cb header_cb body_cb s "fst x" "snd x"] that(2) by simp
  qed
  have "parse_result (fst x)" if "run_steps n ?f st = Returned x" for x
    by (rule run_steps_keeps [where I = live and R = "\<lambda>x. parse_result (fst x)", OF keeps assms(1) that])
  then have "run_steps n ?f st = Undefined \<or> (\<exists>r s. run_steps n ?f st = Returned (r, s) \<and> parse_result r)"
    using n by (cases "run_steps n ?f st") auto
  moreover have "run_steps n ?f st = Running s \<Longrightarrow> live s" for n s
    using assms(1)
  proof (induction n arbitrary: st)
    case (Suc n)
    then show ?case using step [of st] by (auto split: option.split_asm sum.split_asm)
  qed simp
  ultimately show ?thesis unfolding http_parse_message_def using live_in_bounds by blast
qed

end

section \<open>Claim\<close>

lemma live_init: "m_ctx st = http_ctx_init \<Longrightarrow> pos_ok (m_in st) \<Longrightarrow> live st"
  by (simp add: live_def http_ctx_init_def head_live_def pos_ok_def)

text \<open>
  C3. Whatever arrives, the parsers of requests and responses do not run for ever: from a fresh context and a stream in
  order, with callbacks that only look at what they are shown, and when reading can succeed only finitely often, the loop stops
  after finitely many rounds. Either it returns (success, nothing to read, a read error or a diagnostic of
  \<open>_http_parse_message\<close>) or a round is undefined behaviour of the C code (such as a field without a value, or a chunk size
  that overflows). After every round before that the end of the data is inside the buffer and the read position is between 0 and
  the end of the data, except that in the body it may be up to two bytes past the end of the data.
\<close>

theorem parser_ends:
  assumes "supply_law env stock" and "needmore_law env" and "shift_law env"
    and "tame_cb line_cb" and "tame_cb header_cb" and "tame_cb body_cb"
    and "m_ctx st = http_ctx_init" and "pos_ok (m_in st)"
  shows "(\<exists>n. http_parse_request n env line_cb header_cb body_cb st = Undefined \<or>
       (\<exists>r s. http_parse_request n env line_cb header_cb body_cb st = Returned (r, s) \<and> parse_result r)) \<and>
    (\<forall>n s. http_parse_request n env line_cb header_cb body_cb st = Running s \<longrightarrow> in_bounds s) \<and>
    (\<exists>n. http_parse_response n env line_cb header_cb body_cb st = Undefined \<or>
       (\<exists>r s. http_parse_response n env line_cb header_cb body_cb st = Returned (r, s) \<and> parse_result r)) \<and>
    (\<forall>n s. http_parse_response n env line_cb header_cb body_cb st = Running s \<longrightarrow> in_bounds s)"
  using req.parse_message_ends [OF live_init [OF assms(7,8)] assms(1-6), of env]
    resp.parse_message_ends [OF live_init [OF assms(7,8)] assms(1-6), of env]
  unfolding http_parse_request_def http_parse_response_def by blast

text \<open>A stream of at most 4096 bytes that arrive in fragments.\<close>

definition small_env :: "string list bs_env" where
  "small_env = \<lparr>SNEEDMORE = (\<lambda>b. seod b \<le> spos b),
     bytestream_consume_data = (\<lambda>b w e. if length (concat (take 1 w)) + nat (seod b) \<le> 4096 then fragment_consume b w e else (-2, b, w, e)),
     bytestream_recycle = (\<lambda>b n u. let r = min u (seod b) in
       (r, b\<lparr>sbuf := drop (nat r) (sbuf b) @ replicate (nat r) NUL, seod := seod b - r, spos := spos b - r\<rparr>)),
     strtol_einval = False\<rparr>"

lemma small_env_laws: "supply_law small_env length" "needmore_law small_env" "shift_law small_env"
  by (auto simp: supply_law_def needmore_law_def shift_law_def small_env_def fragment_consume_def stream_ok_def Let_def min_def
      split: list.split_asm if_split_asm)

theorem parser_ends_witness:
  "\<exists>n. http_parse_request n small_env None None None
       (fragment_state ''POST /a HTTP/1.1'' [crlf, ''Transfer-Encoding: chunked'' @ crlf @ [CR], [LF], ''5'' @ crlf, ''ab'', ''x''] ()) = Undefined \<or>
     (\<exists>r s. http_parse_request n small_env None None None
       (fragment_state ''POST /a HTTP/1.1'' [crlf, ''Transfer-Encoding: chunked'' @ crlf @ [CR], [LF], ''5'' @ crlf, ''ab'', ''x''] ()) = Returned (r, s) \<and>
       parse_result r)"
proof -
  have t: "tame_cb None" by (simp add: tame_cb_def call_cb_def)
  show ?thesis
    using parser_ends [OF small_env_laws t t t, of "fragment_state ''POST /a HTTP/1.1''
      [crlf, ''Transfer-Encoding: chunked'' @ crlf @ [CR], [LF], ''5'' @ crlf, ''ab'', ''x''] ()"] by simp
qed

end
