(* ===== verification/HttpWait.thy ===== *)
theory HttpWait
  imports HttpMessage
begin

text \<open>
  Data that arrives in pieces. \<open>arrival_law\<close> says what the source of the data does, \<open>flow\<close> follows what is left of the data, in the
  stream and to come. A line may need any number of reads: as long as its end is missing the parser leaves the context alone, and
  looks at the line again from its start when there is more data (\<open>line_arrives\<close>).
\<close>

section \<open>Data to come\<close>

text \<open>
  \<open>incoming w\<close> is what is still to come from the source, \<open>stock\<close> bounds how many reads that takes, and \<open>live\<close> holds of the
  states the source goes through. A read appends some of the data to come, at least one byte, to the data, which still fits the buffer, leaves the position
  alone, and does not report an error through \<open>errno\<close>.
\<close>

definition arrival_law :: "'w bs_env \<Rightarrow> ('w \<Rightarrow> bool) \<Rightarrow> ('w \<Rightarrow> string) \<Rightarrow> ('w \<Rightarrow> nat) \<Rightarrow> bool" where
  "arrival_law env live incoming stock \<longleftrightarrow>
     (\<forall>b w e. pos_ok b \<longrightarrow> live w \<longrightarrow> incoming w \<noteq> [] \<longrightarrow> seod b + int (length (incoming w)) < 2 ^ 31 \<longrightarrow>
        (\<exists>b' w' e' t. bytestream_consume_data env b w e = (0, b', w', e') \<and> live w' \<and> (errno_ok e \<longrightarrow> errno_ok e') \<and>
           incoming w = t @ incoming w' \<and> t \<noteq> [] \<and> stock w' < stock w \<and>
           pos_ok b' \<and> spos b' = spos b \<and> seod b' = seod b + int (length t) \<and>
           take (nat (seod b')) (sbuf b') = take (nat (seod b)) (sbuf b) @ t))"

text \<open>What is left of the data, in the stream and to come.\<close>

definition flow :: "('w \<Rightarrow> bool) \<Rightarrow> ('w \<Rightarrow> string) \<Rightarrow> bytestream \<Rightarrow> 'w \<Rightarrow> string \<Rightarrow> bool" where
  "flow live incoming b w s \<longleftrightarrow> pos_ok b \<and> live w \<and> unread b @ incoming w = s \<and> seod b + int (length (incoming w)) < 2 ^ 31"

lemma unread_from: "pos_ok b \<Longrightarrow> unread b = drop (nat (spos b)) (take (nat (seod b)) (sbuf b))"
  by (simp add: unread_def drop_take nat_diff_distrib pos_ok_def)

lemma unread_length: "pos_ok b \<Longrightarrow> int (length (unread b)) = seod b - spos b"
  by (auto simp: unread_def pos_ok_def stream_ok_def min_def)

text \<open>A read adds to the data after any position.\<close>

lemma data_arrives:
  assumes "arrival_law env live incoming stock" and "flow live incoming (b\<lparr>spos := p\<rparr>) w s" and "incoming w \<noteq> []"
    and "p \<le> spos b" and "spos b \<le> seod b"
  obtains b' w' e' t where "bytestream_consume_data env b w e = (0, b', w', e')" and "flow live incoming (b'\<lparr>spos := p\<rparr>) w' s"
    and "unread (b'\<lparr>spos := p\<rparr>) = unread (b\<lparr>spos := p\<rparr>) @ t" and "stock w' < stock w" and "errno_ok e \<longrightarrow> errno_ok e'"
    and "spos b' = spos b" and "spos b' < seod b'"
proof -
  have f: "pos_ok (b\<lparr>spos := p\<rparr>)" "live w" "unread (b\<lparr>spos := p\<rparr>) @ incoming w = s" "seod b + int (length (incoming w)) < 2 ^ 31"
    using assms(2) by (simp_all add: flow_def)
  have ok: "pos_ok b" using f(1) assms(4,5) by (simp add: pos_ok_def stream_ok_def)
  obtain b' w' e' t where c: "bytestream_consume_data env b w e = (0, b', w', e')" "live w'" "errno_ok e \<longrightarrow> errno_ok e'"
      "incoming w = t @ incoming w'" "stock w' < stock w" "t \<noteq> []" "pos_ok b'" "spos b' = spos b" "seod b' = seod b + int (length t)"
      "take (nat (seod b')) (sbuf b') = take (nat (seod b)) (sbuf b) @ t"
    using assms(1) [unfolded arrival_law_def, rule_format, OF ok f(2) assms(3) f(4), of e] by blast
  have ok': "pos_ok (b'\<lparr>spos := p\<rparr>)" using f(1) c(7-9) assms(4,5) by (simp add: pos_ok_def stream_ok_def)
  have "nat p \<le> length (take (nat (seod b)) (sbuf b))" using f(1) by (auto simp: pos_ok_def stream_ok_def)
  then have "drop (nat p) (take (nat (seod b')) (sbuf b')) = drop (nat p) (take (nat (seod b)) (sbuf b)) @ t" unfolding c(10) by simp
  then have u: "unread (b'\<lparr>spos := p\<rparr>) = unread (b\<lparr>spos := p\<rparr>) @ t" using unread_from [OF f(1)] unread_from [OF ok'] by simp
  moreover have "flow live incoming (b'\<lparr>spos := p\<rparr>) w' s"
    using ok' c(2,4,9) f(3,4) by (simp add: flow_def u)
  moreover have "spos b' < seod b'" using c(6,8,9) assms(5) by (cases t) simp_all
  ultimately show thesis using that [OF c(1)] c(3,5,8) by blast
qed

section \<open>A line that arrives in pieces\<close>

lemma findcrlf_none:
  assumes "stream_ok b" and "0 \<le> p" and "p \<le> seod b" and "\<not> has_crlf (unread (b\<lparr>spos := p\<rparr>))"
  shows "findcrlf (sbuf b) p (c_int (seod b - p)) = Some None"
proof -
  let ?n = "nat (seod b - p)"
  have c: "c_int (seod b - p) = seod b - p" using assms(1-3) by (intro stream_int_ok) (auto simp: stream_ok_def)
  have l: "nat p + ?n \<le> length (sbuf b)" using assms(1-3) by (auto simp: stream_ok_def)
  have "\<not> crlf_hit (sbuf b) (p + (seod b - p)) j" if j: "p \<le> j" "j < p + (seod b - p)" for j
  proof
    assume h: "crlf_hit (sbuf b) (p + (seod b - p)) j"
    define i where "i = nat (j - p)"
    have i: "nat j = nat p + i" "nat (j + 1) = nat p + Suc i" "Suc i < ?n" using j h assms(2) by (auto simp: i_def)
    have "has_crlf (unread (b\<lparr>spos := p\<rparr>))"
      unfolding has_crlf_iff using h i l by (intro exI [of _ i]) (simp add: unread_def)
    then show False using assms(4) by simp
  qed
  then show ?thesis unfolding c using assms(1-3) by (intro crlf.find_none) (auto simp: stream_ok_def)
qed

text \<open>The beginning of a line that lacks its end has no line end, and a complete one has it where the line has it.\<close>

lemma incomplete_no_crlf:
  assumes "g @ x = L @ crlf @ after" and "CR \<notin> set L" and "length g < length L + 2"
  shows "\<not> has_crlf g"
proof
  assume "has_crlf g"
  then obtain i where i: "Suc i < length g" "g ! i = CR" by (auto simp: has_crlf_iff)
  then have "i < length L" using assms(3) by simp
  moreover have "(g @ x) ! i = CR" using i by (simp add: nth_append)
  ultimately have "L ! i = CR" unfolding assms(1) by (simp add: nth_append)
  then show False using assms(2) \<open>i < length L\<close> nth_mem by metis
qed

lemma complete_line:
  assumes "g @ x = L @ crlf @ after" and "length L + 2 \<le> length g"
  obtains t where "g = L @ crlf @ t" and "t @ x = after"
proof
  have "take (length L + 2) (g @ x) = L @ crlf" "drop (length L + 2) (g @ x) = after" unfolding assms(1) by simp_all
  then have "take (length L + 2) g = L @ crlf" and d: "drop (length L + 2) g @ x = after" using assms(2) by simp_all
  then show "g = L @ crlf @ drop (length L + 2) g" by (metis append_assoc append_take_drop_id)
  show "drop (length L + 2) g @ x = after" by (rule d)
qed

text \<open>Reading from the source when the data has run out, and only then.\<close>

lemma refill_from:
  assumes "arrival_law env live incoming stock" and "needmore_law env" and "flow live incoming ((m_in st)\<lparr>spos := p\<rparr>) (m_fd st) s"
    and "p \<le> spos (m_in st)" and "spos (m_in st) \<le> seod (m_in st)" and "spos (m_in st) < p + int (length s)"
  obtains b w e where "refill env st = Inl (st\<lparr>m_in := b, m_fd := w, m_errno := e\<rparr>)" and "flow live incoming (b\<lparr>spos := p\<rparr>) w s"
    and "spos b = spos (m_in st)" and "spos b < seod b" and "errno_ok (m_errno st) \<longrightarrow> errno_ok e"
proof (cases "spos (m_in st) < seod (m_in st)")
  case True
  with that [where b = "m_in st" and w = "m_fd st" and e = "m_errno st"] show thesis using refill_none [OF assms(2) True] assms(3) by simp
next
  case False
  let ?b = "m_in st"
  have eq: "spos ?b = seod ?b" using False assms(5) by simp
  have "int (length (unread (?b\<lparr>spos := p\<rparr>))) = seod ?b - p" using assms(3) unread_length [of "?b\<lparr>spos := p\<rparr>"] by (simp add: flow_def)
  then have ne: "incoming (m_fd st) \<noteq> []" using assms(3,6) eq by (auto simp: flow_def)
  obtain b w e t where c: "bytestream_consume_data env ?b (m_fd st) (m_errno st) = (0, b, w, e)"
      "flow live incoming (b\<lparr>spos := p\<rparr>) w s" "spos b = spos ?b" "spos b < seod b" "errno_ok (m_errno st) \<longrightarrow> errno_ok e"
    by (rule data_arrives [OF assms(1,3) ne assms(4,5)])
  moreover have "refill env st = Inl (st\<lparr>m_in := b, m_fd := w, m_errno := e\<rparr>)"
    using c(1) eq assms(2) by (simp add: refill_def needmore_law_def Let_def)
  ultimately show thesis using that by blast
qed

lemma refill_flow:
  assumes "arrival_law env live incoming stock" and "needmore_law env" and "flow live incoming (m_in st) (m_fd st) s" and "s \<noteq> []"
  obtains b w e where "refill env st = Inl (st\<lparr>m_in := b, m_fd := w, m_errno := e\<rparr>)" and "flow live incoming b w s"
    and "spos b = spos (m_in st)" and "errno_ok (m_errno st) \<longrightarrow> errno_ok e"
proof -
  have fl: "flow live incoming ((m_in st)\<lparr>spos := spos (m_in st)\<rparr>) (m_fd st) s" "spos (m_in st) \<le> seod (m_in st)"
      "spos (m_in st) < spos (m_in st) + int (length s)"
    using assms(3,4) by (simp_all add: flow_def pos_ok_def)
  obtain b w e where r: "refill env st = Inl (st\<lparr>m_in := b, m_fd := w, m_errno := e\<rparr>)"
      "flow live incoming (b\<lparr>spos := spos (m_in st)\<rparr>) w s" "spos b = spos (m_in st)" "errno_ok (m_errno st) \<longrightarrow> errno_ok e"
    by (rule refill_from [OF assms(1,2) fl(1) order_refl fl(2,3)])
  moreover have "b\<lparr>spos := spos (m_in st)\<rparr> = b" using r(3) by simp
  ultimately show thesis using that by metis
qed

text \<open>
  The end of the wait for a line that starts at \<open>p\<close>: \<open>split_read\<close> says that the line was looked at before, when only \<open>g\<close> of it was there.
\<close>

definition split_read :: "('w \<Rightarrow> bool) \<Rightarrow> ('w \<Rightarrow> string) \<Rightarrow> string \<Rightarrow> string \<Rightarrow> bool" where
  "split_read live incoming L after \<longleftrightarrow>
     (\<exists>g w. live w \<and> g \<noteq> [] \<and> length g < length L + 2 \<and> g @ incoming w = L @ crlf @ after)"

definition line_here :: "('w \<Rightarrow> bool) \<Rightarrow> ('w \<Rightarrow> string) \<Rightarrow> int \<Rightarrow> string \<Rightarrow> string \<Rightarrow> bytestream \<Rightarrow> 'w \<Rightarrow> bool" where
  "line_here live incoming p L after b w \<longleftrightarrow>
     flow live incoming (b\<lparr>spos := p\<rparr>) w (L @ crlf @ after) \<and> length L + 2 \<le> length (unread (b\<lparr>spos := p\<rparr>)) \<and> spos b \<le> seod b \<and>
     p \<le> spos b \<and> (spos b = p \<or> split_read live incoming L after)"

lemma line_here_layout:
  assumes "line_here live incoming p L after b w"
  obtains pre r where "sbuf b = pre @ L @ crlf @ r" and "int (length pre) = p" and "p + int (length L) + 2 \<le> seod b" and "stream_ok b"
    and "flow live incoming (b\<lparr>spos := p + int (length L) + 2\<rparr>) w after"
proof -
  let ?b = "b\<lparr>spos := p\<rparr>"
  have fl: "pos_ok ?b" "live w" "unread ?b @ incoming w = L @ crlf @ after" "seod b + int (length (incoming w)) < 2 ^ 31" "length L + 2 \<le> length (unread ?b)"
    using assms by (simp_all add: line_here_def flow_def)
  obtain t where t: "unread ?b = L @ crlf @ t" "t @ incoming w = after" by (rule complete_line [OF fl(3,5)])
  have u: "unread ?b = (L @ crlf) @ t" using t(1) by simp
  obtain pre r where "sbuf b = pre @ (L @ crlf) @ r" "int (length pre) = p" "p + int (length (L @ crlf)) \<le> seod b"
      "pos_ok (b\<lparr>spos := p + int (length (L @ crlf))\<rparr>)" "unread (b\<lparr>spos := p + int (length (L @ crlf))\<rparr>) = t"
    using unread_split [OF fl(1) u] by auto
  moreover have "p + int (length (L @ crlf)) = p + int (length L) + 2" by simp
  ultimately show thesis using that [of pre r] fl(1,2,4) t(2) by (simp add: flow_def pos_ok_def stream_ok_def ac_simps)
qed

lemma line_arrives_waiting:
  assumes "arrival_law env live incoming stock" and "needmore_law env" and "CR \<notin> set L" and "0 \<le> p"
    and idle: "\<And>b w e. findcrlf (sbuf b) p (c_int (seod b - p)) = Some None \<Longrightarrow>
      dispatch env pl lcb hcb bcb (st\<lparr>m_in := b, m_fd := w, m_errno := e\<rparr>) =
        Some (Inl (st\<lparr>m_in := b\<lparr>spos := seod b\<rparr>, m_fd := w, m_errno := e\<rparr>))"
    and "p \<le> spos b" and "spos b = seod b" and "flow live incoming (b\<lparr>spos := p\<rparr>) w (L @ crlf @ after)"
    and "length (unread (b\<lparr>spos := p\<rparr>)) < length L + 2"
  shows "\<exists>n st1 b' w' e'. run_steps n (message_step env pl lcb hcb bcb) (st\<lparr>m_in := b, m_fd := w, m_errno := e\<rparr>) = Running st1 \<and>
    refill env st1 = Inl (st\<lparr>m_in := b', m_fd := w', m_errno := e'\<rparr>) \<and> line_here live incoming p L after b' w' \<and>
    (errno_ok e \<longrightarrow> errno_ok e')"
  using assms(6-)
proof (induction "stock w" arbitrary: b w e rule: less_induct)
  case less
  let ?F = "message_step env pl lcb hcb bcb" and ?st = "st\<lparr>m_in := b, m_fd := w, m_errno := e\<rparr>" and ?g = "unread (b\<lparr>spos := p\<rparr>)"
  have f: "?g @ incoming w = L @ crlf @ after" "live w" using less.prems(3) by (simp_all add: flow_def)
  have "length ?g + length (incoming w) = length L + 2 + length after" using arg_cong [OF f(1), of length] by simp
  then have ne: "incoming w \<noteq> []" using less.prems(4) by auto
  have le: "spos b \<le> seod b" using less.prems(2) by simp
  obtain b1 w1 e1 t where c: "bytestream_consume_data env b w e = (0, b1, w1, e1)" "flow live incoming (b1\<lparr>spos := p\<rparr>) w1 (L @ crlf @ after)"
      "unread (b1\<lparr>spos := p\<rparr>) = ?g @ t" "stock w1 < stock w" "errno_ok e \<longrightarrow> errno_ok e1" "spos b1 = spos b" "spos b1 < seod b1"
    by (rule data_arrives [OF assms(1) less.prems(3) ne less.prems(1) le])
  have rf: "refill env ?st = Inl (st\<lparr>m_in := b1, m_fd := w1, m_errno := e1\<rparr>)"
    using c(1) less.prems(2) assms(2) by (simp add: refill_def needmore_law_def Let_def)
  show ?case
  proof (cases "length (unread (b1\<lparr>spos := p\<rparr>)) < length L + 2")
    case True
    have fl: "pos_ok (b1\<lparr>spos := p\<rparr>)" "unread (b1\<lparr>spos := p\<rparr>) @ incoming w1 = L @ crlf @ after" using c(2) by (simp_all add: flow_def)
    then have "findcrlf (sbuf b1) p (c_int (seod b1 - p)) = Some None"
      using incomplete_no_crlf [OF fl(2) assms(3) True] by (intro findcrlf_none) (simp_all add: pos_ok_def stream_ok_def)
    then have F: "?F ?st = Some (Inl (st\<lparr>m_in := b1\<lparr>spos := seod b1\<rparr>, m_fd := w1, m_errno := e1\<rparr>))"
      using idle rf by (simp add: message_step_def)
    obtain n st1 b' w' e' where "run_steps n ?F (st\<lparr>m_in := b1\<lparr>spos := seod b1\<rparr>, m_fd := w1, m_errno := e1\<rparr>) = Running st1"
        "refill env st1 = Inl (st\<lparr>m_in := b', m_fd := w', m_errno := e'\<rparr>)" "line_here live incoming p L after b' w'" "errno_ok e1 \<longrightarrow> errno_ok e'"
      using less.hyps [OF c(4), of "b1\<lparr>spos := seod b1\<rparr>" e1] c(2) True fl(1) by (auto simp: pos_ok_def)
    with F c(5) show ?thesis by (intro exI [of _ "Suc n"] exI [of _ st1] exI [of _ b'] exI [of _ w'] exI [of _ e']) simp
  next
    case False
    have "spos b1 = p \<or> split_read live incoming L after"
    proof (cases "?g = []")
      case True
      then have "seod b = p" using less.prems(3) unread_length [of "b\<lparr>spos := p\<rparr>"] by (simp add: flow_def)
      then show ?thesis using c(6) less.prems(2) by simp
    next
      case False
      then show ?thesis using f less.prems(4) by (auto simp: split_read_def)
    qed
    then have "line_here live incoming p L after b1 w1" using c(2,6,7) False less.prems(1) by (simp add: line_here_def)
    then show ?thesis using rf c(5) by (intro exI [of _ 0] exI [of _ ?st] exI [of _ b1] exI [of _ w1] exI [of _ e1]) simp
  qed
qed

lemma line_arrives:
  assumes "arrival_law env live incoming stock" and "needmore_law env" and "CR \<notin> set L"
    and idle: "\<And>b w e. findcrlf (sbuf b) (spos (m_in st)) (c_int (seod b - spos (m_in st))) = Some None \<Longrightarrow>
      dispatch env pl lcb hcb bcb (st\<lparr>m_in := b, m_fd := w, m_errno := e\<rparr>) =
        Some (Inl (st\<lparr>m_in := b\<lparr>spos := seod b\<rparr>, m_fd := w, m_errno := e\<rparr>))"
    and "flow live incoming (m_in st) (m_fd st) (L @ crlf @ after)"
  shows "\<exists>n st1 b w e. run_steps n (message_step env pl lcb hcb bcb) st = Running st1 \<and>
    refill env st1 = Inl (st\<lparr>m_in := b, m_fd := w, m_errno := e\<rparr>) \<and> line_here live incoming (spos (m_in st)) L after b w \<and>
    (errno_ok (m_errno st) \<longrightarrow> errno_ok e)"
proof (cases "length (unread (m_in st)) < length L + 2")
  case False
  let ?b = "m_in st"
  have ok: "pos_ok ?b" using assms(5) by (simp add: flow_def)
  have "unread ?b \<noteq> []" using False by auto
  then have "refill env st = Inl st" using refill_none [OF assms(2)] unread_nonempty [OF ok] by simp
  moreover have "line_here live incoming (spos ?b) L after ?b (m_fd st)" using False assms(5) ok by (simp add: line_here_def pos_ok_def)
  ultimately show ?thesis by (intro exI [of _ 0] exI [of _ st] exI [of _ ?b] exI [of _ "m_fd st"] exI [of _ "m_errno st"]) simp
next
  case True
  let ?b = "m_in st" and ?F = "message_step env pl lcb hcb bcb"
  have f: "pos_ok ?b" "unread ?b @ incoming (m_fd st) = L @ crlf @ after" using assms(5) by (simp_all add: flow_def)
  have st: "st\<lparr>m_in := ?b, m_fd := m_fd st, m_errno := m_errno st\<rparr> = st" by simp
  have fl: "flow live incoming (?b\<lparr>spos := seod ?b, spos := spos ?b\<rparr>) (m_fd st) (L @ crlf @ after)" using assms(5) by simp
  have wait: "\<exists>n st1 b w e. run_steps n ?F (st\<lparr>m_in := ?b\<lparr>spos := seod ?b\<rparr>, m_fd := m_fd st, m_errno := m_errno st\<rparr>) = Running st1 \<and>
      refill env st1 = Inl (st\<lparr>m_in := b, m_fd := w, m_errno := e\<rparr>) \<and> line_here live incoming (spos ?b) L after b w \<and>
      (errno_ok (m_errno st) \<longrightarrow> errno_ok e)"
    using line_arrives_waiting [OF assms(1-3) _ idle, where b = "?b\<lparr>spos := seod ?b\<rparr>" and w = "m_fd st" and after = after and e = "m_errno st"] f(1) fl True by (simp add: pos_ok_def)
  show ?thesis
  proof (cases "spos ?b = seod ?b")
    case True
    then have "?b\<lparr>spos := seod ?b\<rparr> = ?b" by (cases ?b) simp
    then show ?thesis using wait st by simp
  next
    case False
    then have "spos ?b < seod ?b" using f(1) by (simp add: pos_ok_def)
    from refill_none [OF assms(2) this] have "refill env st = Inl st" .
    moreover have "findcrlf (sbuf ?b) (spos ?b) (c_int (seod ?b - spos ?b)) = Some None"
      using incomplete_no_crlf [OF f(2) assms(3) True] f(1) by (intro findcrlf_none) (simp_all add: pos_ok_def)
    ultimately have F: "?F st = Some (Inl (st\<lparr>m_in := ?b\<lparr>spos := seod ?b\<rparr>, m_fd := m_fd st, m_errno := m_errno st\<rparr>))"
      using idle [where b = ?b and w = "m_fd st" and e = "m_errno st"] st by (simp add: message_step_def)
    obtain n st1 b w e where "run_steps n ?F (st\<lparr>m_in := ?b\<lparr>spos := seod ?b\<rparr>, m_fd := m_fd st, m_errno := m_errno st\<rparr>) = Running st1"
      "refill env st1 = Inl (st\<lparr>m_in := b, m_fd := w, m_errno := e\<rparr>)" "line_here live incoming (spos ?b) L after b w" "errno_ok (m_errno st) \<longrightarrow> errno_ok e"
      using wait by blast
    with F show ?thesis by (intro exI [of _ "Suc n"] exI [of _ st1] exI [of _ b] exI [of _ w] exI [of _ e]) simp
  qed
qed

end
