(* ===== verification/HttpPieces.thy ===== *)
theory HttpPieces
  imports HttpWait
begin

text \<open>
  Bodies of known length that arrive in pieces. \<open>body_at\<close> is the invariant of the rounds in between: the part of the body that has
  arrived is the range the body callback will be shown.
\<close>

section \<open>The part that has arrived\<close>

definition body_at :: "mnhttp_ctx \<Rightarrow> bytestream \<Rightarrow> string \<Rightarrow> bool" where
  "body_at ctx b got \<longleftrightarrow> pos_ok b \<and> \<not> chunked ctx \<and> br_start (current_chunk ctx) = br_start (body ctx) \<and>
     0 \<le> br_start (body ctx) \<and> br_start (body ctx) \<le> spos b \<and> br_end (body ctx) = spos b \<and>
     drop (nat (br_start (body ctx))) (take (nat (spos b)) (sbuf b)) = got"

lemma body_at_length: "body_at ctx b got \<Longrightarrow> int (length got) = spos b - br_start (body ctx)"
  by (auto simp: body_at_def pos_ok_def stream_ok_def min_def)

lemma drop_take_extend: "i \<le> j \<Longrightarrow> j \<le> k \<Longrightarrow> drop i (take k xs) = drop i (take j xs) @ drop j (take k xs)"
proof -
  assume le: "i \<le> j" "j \<le> k"
  have "take j (take k xs) @ drop j (take k xs) = take k xs" by (rule append_take_drop_id)
  then have "take k xs = take j xs @ drop j (take k xs)" using le(2) by (simp add: min_def)
  then have "drop i (take k xs) = drop i (take j xs) @ drop (i - length (take j xs)) (drop j (take k xs))" by (metis drop_append)
  also have "drop (i - length (take j xs)) (drop j (take k xs)) = drop j (take k xs)" using le(1) by (cases "j \<le> length xs") simp_all
  finally show ?thesis .
qed

text \<open>A round with too little data keeps all of it; one with enough shows the callback the whole body.\<close>

lemma plain_body_part:
  assumes "body_at ctx b got" and "int (length (got @ unread b)) < bodysz ctx"
  shows "\<exists>ctx'. process_plain_body env bcb ctx b u e = Some (RC MNHTTP_PARSE_NEED_MORE, ctx', b\<lparr>spos := seod b\<rparr>, u, e) \<and>
    body_at ctx' (b\<lparr>spos := seod b\<rparr>) (got @ unread b) \<and> same_head ctx' ctx \<and> bodysz ctx' = bodysz ctx \<and> parser_state ctx' = parser_state ctx"
proof -
  have ok: "pos_ok b" "0 \<le> br_start (body ctx)" "br_start (body ctx) \<le> spos b" "br_end (body ctx) = spos b" using assms(1) by (auto simp: body_at_def)
  note l = unread_length [OF ok(1)]
  note g = body_at_length [OF assms(1)]
  have "nat (br_start (body ctx)) \<le> nat (spos b)" "nat (spos b) \<le> nat (seod b)" using ok by (auto simp: pos_ok_def intro: nat_mono)
  from drop_take_extend [OF this, of "sbuf b"]
  have "drop (nat (br_start (body ctx))) (take (nat (seod b)) (sbuf b)) = got @ drop (nat (spos b)) (take (nat (seod b)) (sbuf b))"
    using assms(1) by (simp add: body_at_def)
  moreover note unread_from [OF ok(1)]
  ultimately have "body_at (ctx\<lparr>body := (body ctx)\<lparr>br_end := seod b\<rparr>, current_chunk := (current_chunk ctx)\<lparr>br_end := seod b\<rparr>\<rparr>)
      (b\<lparr>spos := seod b\<rparr>) (got @ unread b)"
    using assms(1) ok by (simp add: body_at_def pos_ok_def stream_ok_def)
  moreover have "min (seod b - spos b) (bodysz ctx - (spos b - br_start (body ctx))) = seod b - spos b" "seod b - br_start (body ctx) < bodysz ctx"
    using assms(2) g l by simp_all
  ultimately show ?thesis using ok(4) by (auto simp: process_plain_body_def Let_def same_head_def)
qed

lemma plain_body_rest:
  assumes "recycle_law env" and "body_at ctx b got" and "unread b = s @ rest" and "int (length (got @ s)) = bodysz ctx"
  shows "\<exists>ctx' b'. process_plain_body env (Some (body_reader h)) ctx b u e = Some (RC 0, ctx', b', h (got @ s) u, e) \<and>
    left_over b' rest \<and> same_head ctx' ctx \<and> bodysz ctx' = bodysz ctx"
proof -
  let ?i = "br_start (body ctx)"
  have ok: "pos_ok b" "0 \<le> ?i" "?i \<le> spos b" "br_end (body ctx) = spos b" "br_start (current_chunk ctx) = ?i" using assms(2) by (auto simp: body_at_def)
  obtain pre r where sp: "sbuf b = pre @ s @ r" "int (length pre) = spos b" "spos b + int (length s) \<le> seod b"
      "pos_ok (b\<lparr>spos := spos b + int (length s)\<rparr>)" "unread (b\<lparr>spos := spos b + int (length s)\<rparr>) = rest"
    using unread_split [OF ok(1) assms(3)] by blast
  define q where "q = spos b + int (length s)"
  define ctx1 where "ctx1 = ctx\<lparr>body := (body ctx)\<lparr>br_end := q\<rparr>, current_chunk := (current_chunk ctx)\<lparr>br_end := q\<rparr>\<rparr>"
  note g = body_at_length [OF assms(2)]
  have "nat ?i \<le> length pre" using ok(3) sp(2) by (simp add: nat_le_iff)
  then have "drop (nat ?i) (sbuf b) = got @ s @ r"
    using assms(2) by (simp add: body_at_def sp(1) sp(2) [symmetric])
  then have cb: "chunk_bytes ctx1 (b\<lparr>spos := q\<rparr>) = got @ s" using g by (simp add: chunk_bytes_def ctx1_def ok(5) q_def)
  have q: "pos_ok (b\<lparr>spos := q\<rparr>)" "unread (b\<lparr>spos := q\<rparr>) = rest" using sp(4,5) by (simp_all add: q_def)
  obtain ctx' b' where rc: "recycle_stream_buffer env ctx1 (b\<lparr>spos := q\<rparr>) = (ctx', b')" "pos_ok b'" "unread b' = rest"
      "same_head ctx' ctx1" "bodysz ctx' = bodysz ctx1"
    using recycle_stream_buffer_law [OF assms(1) q(1), of ctx1] ok q(2) by (auto simp: ctx1_def q_def)
  have m: "min (seod b - spos b) (bodysz ctx - (spos b - ?i)) = int (length s)" "\<not> q - ?i < bodysz ctx"
    using assms(4) g sp(3) by (simp_all add: q_def)
  have "process_plain_body env (Some (body_reader h)) ctx b u e = Some (RC 0, ctx', b', h (got @ s) u, e)"
    using m rc(1) cb ok(4) by (simp add: process_plain_body_def call_cb_def body_reader_def q_def [symmetric] ctx1_def [symmetric] Let_def)
  with rc show ?thesis by (auto simp: left_over_def ctx1_def same_head_def)
qed

section \<open>The rounds\<close>

text \<open>In the body, everything that has arrived has been taken.\<close>

definition partial_body :: "('w, 'u) mstate \<Rightarrow> string \<Rightarrow> string \<Rightarrow> bool" where
  "partial_body st got bdy \<longleftrightarrow> parser_state (m_ctx st) = PS_BODY \<and> body_at (m_ctx st) (m_in st) got \<and> spos (m_in st) = seod (m_in st) \<and>
     bodysz (m_ctx st) = int (length bdy) \<and> length got < length bdy"

lemma split_at:
  assumes "got @ t @ after = bdy @ rest" and "length bdy \<le> length (got @ t)" and "length got < length bdy"
  obtains s t' where "bdy = got @ s" and "t = s @ t'" and "rest = t' @ after"
proof
  have "take (length bdy) (got @ t @ after) = bdy" "drop (length bdy) (got @ t @ after) = rest" using assms(1) by simp_all
  moreover have "length bdy - (length got + length t) = 0" using assms(2) by simp
  ultimately show "bdy = got @ take (length bdy - length got) t" "rest = drop (length bdy - length got) t @ after"
    using assms(3) by (simp_all add: diff_diff_eq)
qed simp

text \<open>The state after reading: the new piece is unread.\<close>

lemma piece_arrives:
  assumes "arrival_law env live incoming stock" and "needmore_law env" and "partial_body st got bdy" and "live (m_fd st)"
    and "got @ incoming (m_fd st) = bdy @ rest" and "seod (m_in st) + int (length (incoming (m_fd st))) < 2 ^ 31"
  obtains b w e t where "refill env st = Inl (st\<lparr>m_in := b, m_fd := w, m_errno := e\<rparr>)" and "incoming (m_fd st) = t @ incoming w"
    and "live w" and "stock w < stock (m_fd st)" and "body_at (m_ctx st) b got" and "unread b = t" and "seod b = seod (m_in st) + int (length t)"
proof -
  let ?b = "m_in st" and ?ctx = "m_ctx st" and ?i = "br_start (body (m_ctx st))"
  have at: "body_at ?ctx ?b got" "spos ?b = seod ?b" "length got < length bdy" using assms(3) by (auto simp: partial_body_def)
  have ok: "pos_ok ?b" using at(1) by (auto simp: body_at_def)
  have "length got + length (incoming (m_fd st)) = length bdy + length rest" using arg_cong [OF assms(5), of length] by simp
  then have ne: "incoming (m_fd st) \<noteq> []" using at(3) by auto
  obtain b w e t where c: "bytestream_consume_data env ?b (m_fd st) (m_errno st) = (0, b, w, e)" "live w" "incoming (m_fd st) = t @ incoming w"
      "stock w < stock (m_fd st)" "pos_ok b" "spos b = spos ?b" "seod b = seod ?b + int (length t)"
      "take (nat (seod b)) (sbuf b) = take (nat (seod ?b)) (sbuf ?b) @ t"
    using assms(1) [unfolded arrival_law_def, rule_format, OF ok assms(4) ne assms(6), of "m_errno st"] by blast
  have le: "nat (spos b) \<le> nat (seod b)" "nat (seod ?b) \<le> length (sbuf ?b)" using c(5) ok by (auto simp: pos_ok_def stream_ok_def)
  have "take (nat (spos b)) (sbuf b) = take (nat (spos b)) (take (nat (seod b)) (sbuf b))" using le(1) by simp
  also have "\<dots> = take (nat (spos ?b)) (sbuf ?b)" unfolding c(8) using le(2) at(2) c(6) by simp
  finally have "body_at ?ctx b got" using at(1) c(5,6) by (simp add: body_at_def)
  moreover have "unread b = t" unfolding unread_from [OF c(5)] c(8) using le(2) at(2) c(6) by simp
  moreover have "refill env st = Inl (st\<lparr>m_in := b, m_fd := w, m_errno := e\<rparr>)"
    using c(1) at(2) assms(2) by (simp add: refill_def needmore_law_def Let_def)
  ultimately show thesis using that c(2-4,7) by blast
qed

lemma piece_round:
  assumes "refill env st = Inl st1" and "parser_state (m_ctx st1) = PS_BODY"
  shows "message_step env pl lcb hcb bcb st = step_body env bcb st1"
  using assms by (simp add: message_step_def dispatch_def)

lemma pieces_rounds:
  assumes "arrival_law env live incoming stock" and "needmore_law env" and "recycle_law env" and "partial_body st got bdy" and "live (m_fd st)"
    and "got @ incoming (m_fd st) = bdy @ rest" and "seod (m_in st) + int (length (incoming (m_fd st))) < 2 ^ 31"
  shows "\<exists>n st'. run_steps n (message_step env pl lcb hcb (Some (body_reader h))) st = Returned (RC 0, st') \<and>
    same_head (m_ctx st') (m_ctx st) \<and> bodysz (m_ctx st') = int (length bdy) \<and> m_udata st' = h bdy (m_udata st) \<and>
    pos_ok (m_in st') \<and> unread (m_in st') @ incoming (m_fd st') = rest"
  using assms(4-7)
proof (induction "stock (m_fd st)" arbitrary: st got rule: less_induct)
  case less
  let ?F = "message_step env pl lcb hcb (Some (body_reader h))"
  obtain b w e t where r: "refill env st = Inl (st\<lparr>m_in := b, m_fd := w, m_errno := e\<rparr>)" "incoming (m_fd st) = t @ incoming w"
      "live w" "stock w < stock (m_fd st)" "body_at (m_ctx st) b got" "unread b = t" "seod b = seod (m_in st) + int (length t)"
    by (rule piece_arrives [OF assms(1,2) less.prems])
  have p: "parser_state (m_ctx st) = PS_BODY" "bodysz (m_ctx st) = int (length bdy)" "length got < length bdy"
    using less.prems(1) by (auto simp: partial_body_def)
  have F: "?F st = step_body env (Some (body_reader h)) (st\<lparr>m_in := b, m_fd := w, m_errno := e\<rparr>)"
    by (rule piece_round [OF r(1)]) (simp add: p)
  have nc: "\<not> chunked (m_ctx st)" using r(5) by (simp add: body_at_def)
  show ?case
  proof (cases "length (got @ t) < length bdy")
    case True
    then have "int (length (got @ unread b)) < bodysz (m_ctx st)" using r(6) p(2) by simp
    then obtain ctx' where c: "process_plain_body env (Some (body_reader h)) (m_ctx st) b (m_udata st) e =
        Some (RC MNHTTP_PARSE_NEED_MORE, ctx', b\<lparr>spos := seod b\<rparr>, m_udata st, e)" "body_at ctx' (b\<lparr>spos := seod b\<rparr>) (got @ t)"
        "same_head ctx' (m_ctx st)" "bodysz ctx' = bodysz (m_ctx st)" "parser_state ctx' = parser_state (m_ctx st)"
      using plain_body_part [OF r(5), of env "Some (body_reader h)" "m_udata st" e] r(6) by blast
    let ?st1 = "st\<lparr>m_ctx := ctx', m_in := b\<lparr>spos := seod b\<rparr>, m_fd := w, m_errno := e\<rparr>"
    have F1: "?F st = Some (Inl ?st1)" using F c(1) nc by (simp add: step_body_def process_body_def)
    have "partial_body ?st1 (got @ t) bdy" using c p True by (simp add: partial_body_def)
    then obtain n st' where "run_steps n ?F ?st1 = Returned (RC 0, st')" "same_head (m_ctx st') ctx'" "bodysz (m_ctx st') = int (length bdy)"
        "m_udata st' = h bdy (m_udata st)" "pos_ok (m_in st')" "unread (m_in st') @ incoming (m_fd st') = rest"
      using less.hyps [of ?st1 "got @ t"] r(2,3,4,7) less.prems(3,4) by auto
    then show ?thesis using F1 c(3) same_head_trans by (intro exI [of _ "Suc n"] exI [of _ st']) auto
  next
    case False
    then obtain s t' where sp: "bdy = got @ s" "t = s @ t'" "rest = t' @ incoming w"
      using split_at [of got t "incoming w" bdy rest] less.prems(3) r(2) p(3) by auto
    obtain ctx' b' where c: "process_plain_body env (Some (body_reader h)) (m_ctx st) b (m_udata st) e = Some (RC 0, ctx', b', h (got @ s) (m_udata st), e)"
        "left_over b' t'" "same_head ctx' (m_ctx st)" "bodysz ctx' = bodysz (m_ctx st)"
      using plain_body_rest [OF assms(3) r(5), of s t' h "m_udata st" e] r(6) sp(1,2) p(2) by auto
    let ?st1 = "st\<lparr>m_ctx := ctx', m_in := b', m_fd := w, m_errno := e, m_udata := h bdy (m_udata st)\<rparr>"
    have "?F st = Some (Inr (RC 0, ?st1))" using F c(1) nc sp(1) by (simp add: step_body_def process_body_def)
    then have "run_steps 1 ?F st = Returned (RC 0, ?st1)" by simp
    then show ?thesis using c(2-4) p(2) sp(3) by (intro exI [of _ 1] exI [of _ ?st1]) (simp add: left_over_def)
  qed
qed

lemma body_in_pieces:
  assumes "arrival_law env live incoming stock" and "needmore_law env" and "recycle_law env" and "at_empty_line st got" and "live (m_fd st)"
    and "announced (Whole bdy) (m_ctx st)" and "got @ incoming (m_fd st) = bdy @ rest"
    and "seod (m_in st) + int (length (incoming (m_fd st))) < 2 ^ 31"
  shows "\<exists>n st'. run_steps n (message_step env pl lcb hcb (Some (body_reader h))) st = Returned (RC 0, st') \<and>
    same_head (m_ctx st') (m_ctx st) \<and> bodysz (m_ctx st') = int (length bdy) \<and> m_udata st' = h bdy (m_udata st) \<and>
    pos_ok (m_in st') \<and> unread (m_in st') @ incoming (m_fd st') = rest"
proof (cases "length got < length bdy")
  case False
  let ?F = "message_step env pl lcb hcb (Some (body_reader h))"
  have "take (length bdy) (got @ incoming (m_fd st)) = bdy" using assms(7) by simp
  then have "take (length bdy) got = bdy" using False by simp
  then obtain g where g: "got = bdy @ g" by (metis append_take_drop_id)
  then have "rest = g @ incoming (m_fd st)" using assms(7) by simp
  moreover obtain st' where F: "?F st = Some (Inr (RC 0, st'))" and f: "left_over (m_in st') g" "m_udata st' = h bdy (m_udata st)"
      "same_head (m_ctx st') (m_ctx st)" "bodysz (m_ctx st') = int (length bdy)" "m_fd st' = m_fd st"
    using whole_body_rounds [OF assms(2,3) assms(4) [unfolded g] assms(6), of pl lcb hcb h] by blast
  moreover have "run_steps 1 ?F st = Returned (RC 0, st')" using F by simp
  ultimately show ?thesis by (intro exI [of _ 1] exI [of _ st']) (simp add: left_over_def del: One_nat_def)
next
  case True
  let ?F = "message_step env pl lcb hcb (Some (body_reader h))"
  let ?st = "after_empty_line st"
  note r = empty_line_round [OF assms(2,4)]
  have at: "body_at (m_ctx ?st) (m_in ?st) []"
    using r(2) assms(6) by (simp add: body_at_def after_empty_line_def Let_def pos_ok_def)
  have f: "bodysz (m_ctx ?st) = int (length bdy)" "\<not> chunked (m_ctx ?st)" "same_head (m_ctx ?st) (m_ctx st)" "m_fd ?st = m_fd st"
      "m_udata ?st = m_udata st" "seod (m_in ?st) = seod (m_in st)"
    using assms(6) by (simp_all add: after_empty_line_def Let_def same_head_def)
  obtain ctx' where c: "process_plain_body env (Some (body_reader h)) (m_ctx ?st) (m_in ?st) (m_udata ?st) (m_errno ?st) =
      Some (RC MNHTTP_PARSE_NEED_MORE, ctx', (m_in ?st)\<lparr>spos := seod (m_in ?st)\<rparr>, m_udata ?st, m_errno ?st)"
      "body_at ctx' ((m_in ?st)\<lparr>spos := seod (m_in ?st)\<rparr>) got" "same_head ctx' (m_ctx ?st)" "bodysz ctx' = bodysz (m_ctx ?st)"
    using plain_body_part [OF at, of env "Some (body_reader h)" "m_udata ?st" "m_errno ?st"] r(3) f(1) True by auto
  let ?st1 = "set_state PS_BODY (?st\<lparr>m_ctx := ctx', m_in := (m_in ?st)\<lparr>spos := seod (m_in ?st)\<rparr>\<rparr>)"
  have F1: "?F st = Some (Inl ?st1)" using r(1) c(1) f(2) by (simp add: step_body_in_def process_body_def set_state_def)
  have "partial_body ?st1 got bdy" using c f True by (simp add: partial_body_def set_state_def body_at_def)
  then obtain n st' where "run_steps n ?F ?st1 = Returned (RC 0, st')" "same_head (m_ctx st') (m_ctx ?st1)" "bodysz (m_ctx st') = int (length bdy)"
      "m_udata st' = h bdy (m_udata ?st1)" "pos_ok (m_in st')" "unread (m_in st') @ incoming (m_fd st') = rest"
    using pieces_rounds [OF assms(1-3), of ?st1 got bdy rest pl lcb hcb h] assms(5,7,8) f by (auto simp: set_state_def)
  then show ?thesis using F1 c(3) f(3,5) same_head_trans
    by (intro exI [of _ "Suc n"] exI [of _ st']) (auto simp: set_state_def same_head_def)
qed

end
