(* ===== verification/HttpChunks.thy ===== *)
theory HttpChunks
  imports HttpWait
begin

text \<open>
  Chunked bodies that arrive in pieces. Size lines are waited for like any other line; the data of a chunk is collected in the range
  \<open>current_chunk\<close> until it is complete (\<open>data_here\<close>). The line end behind the data is skipped without a look, so a read must not
  end between its two bytes.
\<close>

section \<open>The size line\<close>

text \<open>In the data of a chunk: \<open>k\<close> bytes of it have been taken.\<close>

definition data_here :: "('w \<Rightarrow> bool) \<Rightarrow> ('w \<Rightarrow> string) \<Rightarrow> string \<Rightarrow> string \<Rightarrow> nat \<Rightarrow> ('w, 'u) mstate \<Rightarrow> bool" where
  "data_here live incoming data after k st \<longleftrightarrow> parser_state (m_ctx st) = PS_BODY \<and> chunked (m_ctx st) \<and>
     chunk_parser_state (m_ctx st) = PS_CHUNK_DATA \<and> current_chunk_size (m_ctx st) = int (length data) \<and>
     br_start (current_chunk (m_ctx st)) + int k = spos (m_in st) \<and> br_end (current_chunk (m_ctx st)) = spos (m_in st) \<and>
     spos (m_in st) \<le> seod (m_in st) \<and> k \<le> length data \<and> length data < 2 ^ 31 \<and>
     flow live incoming ((m_in st)\<lparr>spos := br_start (current_chunk (m_ctx st))\<rparr>) (m_fd st) (data @ crlf @ after)"

lemma good_chunk_CR: "good_chunk c \<Longrightarrow> CR \<notin> set (fst c)"
  using is_digit_CR by (auto simp: good_chunk_def list_all_iff simp del: is_digit_CR)

lemma size_in_pieces:
  assumes "arrival_law env live incoming stock" and "needmore_law env" and "size_state st"
    and "flow live incoming (m_in st) (m_fd st) (chunk_text c @ after)" and "good_chunk c" and "int_ok (bodysz (m_ctx st) + int (length (snd c)))"
  shows "\<exists>n st'. run_steps n (message_step env pl lcb hcb bcb) st = Running st' \<and> data_here live incoming (snd c) after 0 st' \<and>
    m_udata st' = m_udata st \<and> same_head (m_ctx st') (m_ctx st) \<and> bodysz (m_ctx st') = bodysz (m_ctx st) + int (length (snd c))"
proof -
  let ?F = "message_step env pl lcb hcb bcb" and ?p = "spos (m_in st)" and ?ds = "fst c" and ?data = "snd c"
  have ss: "parser_state (m_ctx st) = PS_BODY" "chunked (m_ctx st)" "chunk_parser_state (m_ctx st) = PS_CHUNK_SIZE"
      "br_start (current_chunk (m_ctx st)) = ?p"
    using assms(3) by (simp_all add: size_state_def)
  have fl: "flow live incoming (m_in st) (m_fd st) (?ds @ crlf @ ?data @ crlf @ after)" using assms(4) by (simp add: chunk_text_def)
  obtain n st1 b w e where 1: "run_steps n ?F st = Running st1" "refill env st1 = Inl (st\<lparr>m_in := b, m_fd := w, m_errno := e\<rparr>)"
      "line_here live incoming ?p ?ds (?data @ crlf @ after) b w"
    using line_arrives [OF assms(1,2) good_chunk_CR [OF assms(5)] _ fl, of pl lcb hcb bcb] ss
    by (auto simp: dispatch_def step_body_def process_body_def process_chunk_size_def)
  obtain pre r where s: "sbuf b = pre @ ?ds @ crlf @ r" "int (length pre) = ?p" "?p + int (length ?ds) + 2 \<le> seod b" "stream_ok b"
      "flow live incoming (b\<lparr>spos := ?p + int (length ?ds) + 2\<rparr>) w (?data @ crlf @ after)"
    by (rule line_here_layout [OF 1(3)])
  have d: "drop (nat ?p) (sbuf b) = ?ds @ crlf @ r" unfolding s(2) [symmetric] by (simp add: s(1))
  have p0: "0 \<le> ?p" using s(2) by linarith
  have gc: "good_chunk (?ds, ?data)" using assms(5) by simp
  define q where "q = ?p + int (length ?ds) + 2"
  let ?ctx = "(m_ctx st)\<lparr>current_chunk_size := int (length ?data), bodysz := bodysz (m_ctx st) + int (length ?data),
      current_chunk := \<lparr>br_start = q, br_end = q\<rparr>, chunk_parser_state := PS_CHUNK_DATA\<rparr>"
  let ?st2 = "st\<lparr>m_ctx := ?ctx, m_in := b\<lparr>spos := q\<rparr>, m_fd := w, m_errno := e\<rparr>"
  have "process_chunk_size env (m_ctx st) b (m_udata st) e = Some (RC MNHTTP_PARSE_NEED_MORE, ?ctx, b\<lparr>spos := q\<rparr>, m_udata st, e)"
    unfolding q_def by (rule chunk_size_at [OF s(4) p0 d s(3) gc ss(4) assms(6)])
  then have F: "?F st1 = Some (Inl ?st2)" using 1(2) ss by (simp add: message_step_def dispatch_def step_body_def process_body_def)
  have "q \<le> seod b" using s(3) by (simp add: q_def)
  then have "data_here live incoming ?data after 0 ?st2"
    using ss s(5) [folded q_def] gc by (simp add: data_here_def good_chunk_def)
  moreover have "run_steps (n + 1) ?F st = Running ?st2" using run_steps_trans [OF 1(1), of 1] F by simp
  ultimately show ?thesis by (intro exI [of _ "n + 1"] exI [of _ ?st2]) (simp add: same_head_def)
qed

section \<open>The data\<close>

text \<open>A round takes what there is of the data, and there is some after a read.\<close>

lemma data_piece:
  assumes "arrival_law env live incoming stock" and "needmore_law env" and "data_here live incoming data after k st" and "k < length data"
  shows "\<exists>k' st'. message_step env pl lcb hcb bcb st = Some (Inl st') \<and> k < k' \<and> data_here live incoming data after k' st' \<and>
    m_udata st' = m_udata st \<and> same_head (m_ctx st') (m_ctx st) \<and> bodysz (m_ctx st') = bodysz (m_ctx st)"
proof -
  let ?ctx = "m_ctx st" and ?i = "br_start (current_chunk (m_ctx st))"
  have h: "parser_state ?ctx = PS_BODY" "chunked ?ctx" "chunk_parser_state ?ctx = PS_CHUNK_DATA" "current_chunk_size ?ctx = int (length data)"
      "?i + int k = spos (m_in st)" "br_end (current_chunk ?ctx) = spos (m_in st)" "length data < 2 ^ 31"
    using assms(3) by (simp_all add: data_here_def)
  have fl: "flow live incoming ((m_in st)\<lparr>spos := ?i\<rparr>) (m_fd st) (data @ crlf @ after)" "?i \<le> spos (m_in st)" "spos (m_in st) \<le> seod (m_in st)"
      "spos (m_in st) < ?i + int (length (data @ crlf @ after))"
    using assms(3,4) by (simp_all add: data_here_def)
  obtain b w e where r: "refill env st = Inl (st\<lparr>m_in := b, m_fd := w, m_errno := e\<rparr>)" "flow live incoming (b\<lparr>spos := ?i\<rparr>) w (data @ crlf @ after)"
      "spos b = spos (m_in st)" "spos b < seod b"
    by (rule refill_from [OF assms(1,2) fl])
  have i0: "0 \<le> ?i" "stream_ok b" using r(2) by (auto simp: flow_def pos_ok_def stream_ok_def)
  define n where "n = nat (min (int (length data) - int k) (seod b - spos b))"
  have n: "int n = min (int (length data) - int k) (seod b - spos b)" "0 < n" using assms(4) r(4) by (simp_all add: n_def)
  have nb: "k + n \<le> length data" "spos b + int n \<le> seod b" using n(1) assms(4) by (simp_all add: min_def split: if_splits)
  have c: "c_int (int (length data) - int k) = int (length data) - int k" using h(7) assms(4) by (intro c_int_id) (simp add: int_ok_def)
  have c': "c_int (seod b - spos b) = seod b - spos b"
    using i0 fl(2) r(3,4) by (intro stream_int_ok) (auto simp: stream_ok_def)
  have e: "br_end (current_chunk ?ctx) - ?i = int k" using h(5,6) by simp
  let ?st1 = "st\<lparr>m_ctx := ?ctx\<lparr>current_chunk := (current_chunk ?ctx)\<lparr>br_end := br_end (current_chunk ?ctx) + int n\<rparr>\<rparr>,
      m_in := b\<lparr>spos := spos b + int n\<rparr>, m_fd := w, m_errno := e\<rparr>"
  have "process_chunk_data env bcb ?ctx b (m_udata st) e = Some (RC MNHTTP_PARSE_NEED_MORE,
      ?ctx\<lparr>current_chunk := (current_chunk ?ctx)\<lparr>br_end := br_end (current_chunk ?ctx) + int n\<rparr>\<rparr>, b\<lparr>spos := spos b + int n\<rparr>, m_udata st, e)"
    using assms(4) by (simp add: process_chunk_data_def Let_def h(4) e c c' n(1))
  then have "message_step env pl lcb hcb bcb st = Some (Inl ?st1)"
    using r(1) h(1-3) by (simp add: message_step_def dispatch_def step_body_def process_body_def)
  moreover have "data_here live incoming data after (k + n) ?st1"
    using h r(2,3) nb by (simp add: data_here_def)
  ultimately show ?thesis using n(2) by (intro exI [of _ "k + n"] exI [of _ ?st1]) (simp add: same_head_def)
qed

lemma data_in_pieces:
  assumes "arrival_law env live incoming stock" and "needmore_law env" and "data_here live incoming data after k st"
  shows "\<exists>n st'. run_steps n (message_step env pl lcb hcb bcb) st = Running st' \<and> data_here live incoming data after (length data) st' \<and>
    m_udata st' = m_udata st \<and> same_head (m_ctx st') (m_ctx st) \<and> bodysz (m_ctx st') = bodysz (m_ctx st)"
  using assms(3)
proof (induction "length data - k" arbitrary: k st rule: less_induct)
  case less
  let ?F = "message_step env pl lcb hcb bcb"
  show ?case
  proof (cases "k < length data")
    case True
    obtain k' st1 where 1: "?F st = Some (Inl st1)" "k < k'" "data_here live incoming data after k' st1" "m_udata st1 = m_udata st"
        "same_head (m_ctx st1) (m_ctx st)" "bodysz (m_ctx st1) = bodysz (m_ctx st)"
      using data_piece [OF assms(1,2) less.prems True] by blast
    have "length data - k' < length data - k" using True 1(2) by simp
    then obtain n st' where "run_steps n ?F st1 = Running st'" "data_here live incoming data after (length data) st'" "m_udata st' = m_udata st1"
        "same_head (m_ctx st') (m_ctx st1)" "bodysz (m_ctx st') = bodysz (m_ctx st1)"
      using less.hyps 1(3) by blast
    with 1 show ?thesis using same_head_trans by (intro exI [of _ "Suc n"] exI [of _ st']) auto
  next
    case False
    then have "k = length data" using less.prems by (simp add: data_here_def)
    then show ?thesis using less.prems by (intro exI [of _ 0] exI [of _ st]) (simp add: same_head_def)
  qed
qed

text \<open>The round that hands the chunk over.\<close>

lemma chunk_end_in_pieces:
  assumes "arrival_law env live incoming stock" and "needmore_law env" and "recycle_law env" and "data_here live incoming data after (length data) st"
    and "\<forall>w. live w \<longrightarrow> incoming w \<noteq> LF # after"
  shows "\<exists>st'. message_step env pl lcb hcb (Some (body_reader h)) st = Some (if data \<noteq> [] then Inl st' else Inr (RC 0, st')) \<and>
    size_state st' \<and> flow live incoming (m_in st') (m_fd st') after \<and> m_udata st' = h data (m_udata st) \<and>
    same_head (m_ctx st') (m_ctx st) \<and> bodysz (m_ctx st') = bodysz (m_ctx st)"
proof -
  let ?F = "message_step env pl lcb hcb (Some (body_reader h))" and ?ctx = "m_ctx st" and ?i = "br_start (current_chunk (m_ctx st))"
  have h: "parser_state ?ctx = PS_BODY" "chunked ?ctx" "chunk_parser_state ?ctx = PS_CHUNK_DATA" "current_chunk_size ?ctx = int (length data)"
      "?i + int (length data) = spos (m_in st)" "br_end (current_chunk ?ctx) = spos (m_in st)"
    using assms(4) by (simp_all add: data_here_def)
  have fl: "flow live incoming ((m_in st)\<lparr>spos := ?i\<rparr>) (m_fd st) (data @ crlf @ after)" "?i \<le> spos (m_in st)" "spos (m_in st) \<le> seod (m_in st)"
      "spos (m_in st) < ?i + int (length (data @ crlf @ after))"
    using assms(4) by (simp_all add: data_here_def)
  obtain b w e where r: "refill env st = Inl (st\<lparr>m_in := b, m_fd := w, m_errno := e\<rparr>)" "flow live incoming (b\<lparr>spos := ?i\<rparr>) w (data @ crlf @ after)"
      "spos b = spos (m_in st)" "spos b < seod b"
    by (rule refill_from [OF assms(1,2) fl])
  let ?st1 = "st\<lparr>m_in := b, m_fd := w, m_errno := e\<rparr>"
  have f: "pos_ok (b\<lparr>spos := ?i\<rparr>)" "live w" "unread (b\<lparr>spos := ?i\<rparr>) @ incoming w = data @ crlf @ after" "seod b + int (length (incoming w)) < 2 ^ 31"
    using r(2) by (simp_all add: flow_def)
  have l: "int (length (unread (b\<lparr>spos := ?i\<rparr>))) = seod b - ?i" using unread_length [OF f(1)] by simp
  then have dl: "length data < length (unread (b\<lparr>spos := ?i\<rparr>))" using r(3,4) h(5) by linarith
  obtain u where u: "unread (b\<lparr>spos := ?i\<rparr>) = data @ u" "u @ incoming w = crlf @ after" "u \<noteq> []"
    using f(3) dl by (auto simp: append_eq_append_conv2)
  obtain t where t: "u = crlf @ t" "t @ incoming w = after"
  proof (cases u rule: list.exhaust [case_names Nil Cons])
    case (Cons x u')
    then have "u' \<noteq> []" using u(2) assms(5) f(2) by auto
    then show thesis using that u(2) Cons by (cases u') auto
  qed (use u(3) in simp)
  obtain pre rs where "sbuf (b\<lparr>spos := ?i\<rparr>) = pre @ data @ rs" "int (length pre) = spos (b\<lparr>spos := ?i\<rparr>)"
      "unread (b\<lparr>spos := ?i\<rparr>\<lparr>spos := spos (b\<lparr>spos := ?i\<rparr>) + int (length data)\<rparr>) = u"
      "pos_ok (b\<lparr>spos := ?i\<rparr>\<lparr>spos := spos (b\<lparr>spos := ?i\<rparr>) + int (length data)\<rparr>)"
    by (rule unread_split [OF f(1) u(1)])
  then have sp: "sbuf b = pre @ data @ rs" "int (length pre) = ?i" "unread (b\<lparr>spos := ?i + int (length data)\<rparr>) = u"
      "pos_ok (b\<lparr>spos := ?i + int (length data)\<rparr>)" by simp_all
  have b: "b\<lparr>spos := ?i + int (length data)\<rparr> = b" using h(5) r(3) by simp
  have cb: "chunk_bytes ?ctx b = data" using sp(1) h(5,6) by (simp add: chunk_bytes_def sp(2) [symmetric])
  have cc: "current_chunk ?ctx = \<lparr>br_start = spos b - int (length data), br_end = spos b\<rparr>" using h(5,6) r(3) by (cases "current_chunk ?ctx") simp
  have "?F st = ?F ?st1" using r(1,4) refill_none [OF assms(2), of ?st1] by (simp add: message_step_def)
  moreover obtain st' where "?F ?st1 = Some (if data \<noteq> [] then Inl st' else Inr (RC 0, st'))" "size_state st'" "unread (m_in st') = t"
      "m_udata st' = h data (m_udata st)" "same_head (m_ctx st') ?ctx" "bodysz (m_ctx st') = bodysz ?ctx" "m_fd st' = w" "seod (m_in st') \<le> seod b"
    using chunk_end_round [OF assms(2,3), of ?st1 t data pl lcb hcb h] sp(3,4) [unfolded b] t(1) cb cc h(1-4) by auto
  ultimately show ?thesis using t(2) f(2,4)
    by (intro exI [of _ st']) (simp add: flow_def size_state_def)
qed

section \<open>All chunks\<close>

text \<open>What is left when a read ends inside the line end behind the data of a chunk.\<close>

fun chunk_cuts :: "(string \<times> string) list \<Rightarrow> string \<Rightarrow> string \<Rightarrow> string list" where
  "chunk_cuts [] ds rest = [LF # rest]"
| "chunk_cuts (c # cs) ds rest = (LF # chunks_text cs ds @ rest) # chunk_cuts cs ds rest"

lemma chunk_in_pieces:
  assumes "arrival_law env live incoming stock" and "needmore_law env" and "recycle_law env" and "size_state st"
    and "flow live incoming (m_in st) (m_fd st) (chunk_text c @ after)" and "good_chunk c" and "int_ok (bodysz (m_ctx st) + int (length (snd c)))"
    and "\<forall>w. live w \<longrightarrow> incoming w \<noteq> LF # after"
  shows "\<exists>n st'. run_steps n (message_step env pl lcb hcb (Some (body_reader h))) st =
      (if snd c \<noteq> [] then Running st' else Returned (RC 0, st')) \<and>
    size_state st' \<and> flow live incoming (m_in st') (m_fd st') after \<and> m_udata st' = h (snd c) (m_udata st) \<and>
    same_head (m_ctx st') (m_ctx st) \<and> bodysz (m_ctx st') = bodysz (m_ctx st) + int (length (snd c))"
proof -
  let ?F = "message_step env pl lcb hcb (Some (body_reader h))"
  obtain n1 st1 where 1: "run_steps n1 ?F st = Running st1" "data_here live incoming (snd c) after 0 st1" "m_udata st1 = m_udata st"
      "same_head (m_ctx st1) (m_ctx st)" "bodysz (m_ctx st1) = bodysz (m_ctx st) + int (length (snd c))"
    using size_in_pieces [OF assms(1,2,4-7)] by blast
  obtain n2 st2 where 2: "run_steps n2 ?F st1 = Running st2" "data_here live incoming (snd c) after (length (snd c)) st2" "m_udata st2 = m_udata st1"
      "same_head (m_ctx st2) (m_ctx st1)" "bodysz (m_ctx st2) = bodysz (m_ctx st1)"
    using data_in_pieces [OF assms(1,2) 1(2)] by blast
  obtain st3 where 3: "?F st2 = Some (if snd c \<noteq> [] then Inl st3 else Inr (RC 0, st3))" "size_state st3" "flow live incoming (m_in st3) (m_fd st3) after"
      "m_udata st3 = h (snd c) (m_udata st2)" "same_head (m_ctx st3) (m_ctx st2)" "bodysz (m_ctx st3) = bodysz (m_ctx st2)"
    using chunk_end_in_pieces [OF assms(1-3) 2(2) assms(8), of pl lcb hcb h] by blast
  have "run_steps (n1 + (n2 + 1)) ?F st = (if snd c \<noteq> [] then Running st3 else Returned (RC 0, st3))"
    using run_steps_trans [OF 1(1), of "n2 + 1"] run_steps_trans [OF 2(1), of 1] 3(1) by simp
  moreover have "same_head (m_ctx st3) (m_ctx st)" using 3(5) 2(4) 1(4) same_head_trans by blast
  ultimately show ?thesis using 3 2(3,5) 1(3,5) by (intro exI [of _ "n1 + (n2 + 1)"] exI [of _ st3]) simp
qed

lemma chunks_in_pieces:
  assumes "arrival_law env live incoming stock" and "needmore_law env" and "recycle_law env" and "size_state st"
    and "flow live incoming (m_in st) (m_fd st) (chunks_text cs ds @ rest)"
    and "list_all (\<lambda>c. good_chunk c \<and> snd c \<noteq> []) cs" and "good_chunk (ds, [])"
    and "0 \<le> bodysz (m_ctx st)" and "bodysz (m_ctx st) + int (data_length cs) < 2 ^ 31"
    and "\<forall>w. live w \<longrightarrow> incoming w \<notin> set (chunk_cuts cs ds rest)"
  shows "\<exists>n st'. run_steps n (message_step env pl lcb hcb (Some (body_reader h))) st = Returned (RC 0, st') \<and>
    flow live incoming (m_in st') (m_fd st') rest \<and> m_udata st' = fold h (map snd cs @ [[]]) (m_udata st) \<and>
    same_head (m_ctx st') (m_ctx st) \<and> bodysz (m_ctx st') = bodysz (m_ctx st) + int (data_length cs)"
  using assms(4-)
proof (induction cs arbitrary: st)
  case Nil
  have fl: "flow live incoming (m_in st) (m_fd st) (chunk_text (ds, []) @ rest)" using Nil.prems(2) by (simp add: chunks_text_def)
  have sz: "int_ok (bodysz (m_ctx st) + int (length (snd (ds, []))))" and ct: "\<forall>w. live w \<longrightarrow> incoming w \<noteq> LF # rest"
    using Nil.prems(5-7) by (simp_all add: int_ok_def data_length_def)
  show ?case
    using chunk_in_pieces [OF assms(1-3) Nil.prems(1) fl Nil.prems(4) sz ct, of pl lcb hcb h] by (simp add: data_length_def) blast
next
  case (Cons c cs)
  let ?F = "message_step env pl lcb hcb (Some (body_reader h))"
  have fl: "flow live incoming (m_in st) (m_fd st) (chunk_text c @ chunks_text cs ds @ rest)" using Cons.prems(2) by (simp add: chunks_text_def)
  have g: "good_chunk c" "snd c \<noteq> []" "list_all (\<lambda>c. good_chunk c \<and> snd c \<noteq> []) cs" using Cons.prems(3) by simp_all
  have sz: "int_ok (bodysz (m_ctx st) + int (length (snd c)))" using Cons.prems(5,6) by (auto simp: data_length_def)
  have ct: "\<forall>w. live w \<longrightarrow> incoming w \<noteq> LF # chunks_text cs ds @ rest" "\<forall>w. live w \<longrightarrow> incoming w \<notin> set (chunk_cuts cs ds rest)"
    using Cons.prems(7) by simp_all
  obtain n st1 where 1: "run_steps n ?F st = Running st1" "size_state st1" "flow live incoming (m_in st1) (m_fd st1) (chunks_text cs ds @ rest)"
      "m_udata st1 = h (snd c) (m_udata st)" "same_head (m_ctx st1) (m_ctx st)" "bodysz (m_ctx st1) = bodysz (m_ctx st) + int (length (snd c))"
    using chunk_in_pieces [OF assms(1-3) Cons.prems(1) fl g(1) sz ct(1), of pl lcb hcb h] g(2) by auto
  have b1: "0 \<le> bodysz (m_ctx st1)" "bodysz (m_ctx st1) + int (data_length cs) < 2 ^ 31"
    using Cons.prems(5,6) by (simp_all add: 1(6) data_length_def)
  obtain m st' where 2: "run_steps m ?F st1 = Returned (RC 0, st')" "flow live incoming (m_in st') (m_fd st') rest"
      "m_udata st' = fold h (map snd cs @ [[]]) (m_udata st1)" "same_head (m_ctx st') (m_ctx st1)"
      "bodysz (m_ctx st') = bodysz (m_ctx st1) + int (data_length cs)"
    using Cons.IH [OF 1(2,3) g(3) Cons.prems(4) b1 ct(2)] by blast
  have "run_steps (n + m) ?F st = Returned (RC 0, st')" using run_steps_trans [OF 1(1)] 2(1) by simp
  moreover have "same_head (m_ctx st') (m_ctx st)" using 2(4) 1(5) same_head_trans by blast
  ultimately show ?case using 2(2,3,5) 1(4,6) by (intro exI [of _ "n + m"] exI [of _ st']) (simp add: data_length_def)
qed

text \<open>
  The first size line is looked for in the round that reads the empty line; whatever it finds of the line, the next rounds go on as if
  it had not looked.
\<close>

lemma chunk_size_state:
  "process_chunk_size env ctx b u e = Some (RC MNHTTP_PARSE_NEED_MORE, ctx', b', u', e') \<Longrightarrow>
   process_chunk_size env (ctx\<lparr>parser_state := x\<rparr>) b u e = Some (RC MNHTTP_PARSE_NEED_MORE, ctx'\<lparr>parser_state := x\<rparr>, b', u', e')"
  by (auto simp: process_chunk_size_def Let_def split: Option.bind_split_asm option.split_asm if_split_asm prod.split_asm)

lemma chunk_size_asks:
  assumes "pos_ok b" and "unread b @ x = chunk_text c @ after" and "good_chunk c" and "br_start (current_chunk ctx) = spos b" and "bodysz ctx = 0"
  shows "\<exists>ctx' b'. process_chunk_size env ctx b u e = Some (RC MNHTTP_PARSE_NEED_MORE, ctx', b', u, e) \<and>
    (unread b = [] \<longrightarrow> ctx' = ctx \<and> b' = b)"
proof -
  let ?after = "snd c @ crlf @ after"
  have eq: "unread b @ x = fst c @ crlf @ ?after" using assms(2) by (simp add: chunk_text_def)
  show ?thesis
  proof (cases "length (unread b) < length (fst c) + 2")
    case True
    have "findcrlf (sbuf b) (spos b) (c_int (seod b - spos b)) = Some None"
      using incomplete_no_crlf [OF eq good_chunk_CR [OF assms(3)] True] assms(1) by (intro findcrlf_none) (simp_all add: pos_ok_def)
    moreover have "b\<lparr>spos := seod b\<rparr> = b" if "unread b = []" using that unread_length [OF assms(1)] by (cases b) simp
    ultimately show ?thesis using assms(4) by (simp add: process_chunk_size_def)
  next
    case False
    then obtain t where "unread b = fst c @ crlf @ t" using complete_line [OF eq] by auto
    moreover have "int_ok (bodysz ctx + int (length (snd c)))" using assms(3,5) by (simp add: good_chunk_def int_ok_def)
    ultimately show ?thesis using chunk_size_read [OF assms(1), of "fst c" t "snd c" ctx env u e] assms(3,4) by auto
  qed
qed

lemma chunks_entered:
  assumes "needmore_law env" and "at_empty_line st got" and "announced (Chunks cs ds) (m_ctx st)" and "got @ x = chunks_text cs ds @ rest"
    and "sb = set_state PS_BODY (after_empty_line st)"
  shows "message_step env pl lcb hcb bcb st = message_step env pl lcb hcb bcb sb \<or> message_step env pl lcb hcb bcb st = Some (Inl sb)"
proof -
  let ?st = "after_empty_line st" and ?F = "message_step env pl lcb hcb bcb"
  note r = empty_line_round [OF assms(1,2)]
  have a: "chunked (m_ctx ?st)" "chunk_parser_state (m_ctx ?st) = PS_CHUNK_SIZE" "bodysz (m_ctx ?st) = 0"
      "br_start (current_chunk (m_ctx ?st)) = spos (m_in ?st)"
    using assms(3) by (simp_all add: after_empty_line_def Let_def)
  have g: "list_all (\<lambda>c. good_chunk c \<and> snd c \<noteq> []) cs" "good_chunk (ds, [])" using assms(3) by simp_all
  obtain c after where c: "chunks_text cs ds @ rest = chunk_text c @ after" "good_chunk c"
  proof (cases cs)
    case Nil
    then show thesis using that [of "(ds, [])" rest] g(2) by (simp add: chunks_text_def)
  next
    case (Cons d cs')
    then show thesis using that [of d "chunks_text cs' ds @ rest"] g(1) by (simp add: chunks_text_def)
  qed
  obtain ctx' b' where p: "process_chunk_size env (m_ctx ?st) (m_in ?st) (m_udata ?st) (m_errno ?st) =
      Some (RC MNHTTP_PARSE_NEED_MORE, ctx', b', m_udata ?st, m_errno ?st)" "got = [] \<longrightarrow> ctx' = m_ctx ?st \<and> b' = m_in ?st"
    using chunk_size_asks [OF r(2), of x c after "m_ctx ?st" env "m_udata ?st" "m_errno ?st"] r(3) assms(4) c a(3,4) by auto
  have F: "?F st = Some (Inl (set_state PS_BODY (?st\<lparr>m_ctx := ctx', m_in := b'\<rparr>)))"
    using r(1) p(1) a(1,2) by (simp add: step_body_in_def process_body_def)
  show ?thesis
  proof (cases "got = []")
    case True
    then show ?thesis using F p(2) by (simp add: assms(5))
  next
    case False
    have lt: "spos (m_in sb) < seod (m_in sb)" using unread_nonempty [OF r(2)] r(3) False by (simp add: assms(5) set_state_def)
    have ps: "parser_state (m_ctx sb) = PS_BODY" by (simp add: assms(5) set_state_def)
    have "?F sb = Some (Inl (set_state PS_BODY (?st\<lparr>m_ctx := ctx', m_in := b'\<rparr>)))"
      unfolding body_round [OF assms(1) ps lt] using chunk_size_state [OF p(1), of PS_BODY] a(1,2)
      by (simp add: step_body_def process_body_def assms(5) set_state_def)
    then show ?thesis using F by simp
  qed
qed

lemma chunked_body_in_pieces:
  assumes "arrival_law env live incoming stock" and "needmore_law env" and "recycle_law env" and "at_empty_line st got" and "live (m_fd st)"
    and "announced (Chunks cs ds) (m_ctx st)" and "got @ incoming (m_fd st) = chunks_text cs ds @ rest"
    and "seod (m_in st) + int (length (incoming (m_fd st))) < 2 ^ 31" and "\<forall>w. live w \<longrightarrow> incoming w \<notin> set (chunk_cuts cs ds rest)"
  shows "\<exists>n st'. run_steps n (message_step env pl lcb hcb (Some (body_reader h))) st = Returned (RC 0, st') \<and>
    same_head (m_ctx st') (m_ctx st) \<and> bodysz (m_ctx st') = int (data_length cs) \<and>
    m_udata st' = fold h (map snd cs @ [[]]) (m_udata st) \<and> unread (m_in st') @ incoming (m_fd st') = rest"
proof -
  let ?F = "message_step env pl lcb hcb (Some (body_reader h))" and ?sb = "set_state PS_BODY (after_empty_line st)"
  note r = empty_line_round [OF assms(2,4)]
  have a: "list_all (\<lambda>c. good_chunk c \<and> snd c \<noteq> []) cs" "good_chunk (ds, [])" using assms(6) by simp_all
  have sb: "size_state ?sb" "same_head (m_ctx ?sb) (m_ctx st)" "m_udata ?sb = m_udata st" "bodysz (m_ctx ?sb) = 0"
      "flow live incoming (m_in ?sb) (m_fd ?sb) (chunks_text cs ds @ rest)" "data_length cs < 2 ^ 31"
    using assms(5-8) r(2,3) by (simp_all add: size_state_def set_state_def after_empty_line_def Let_def same_head_def flow_def)
  obtain n st' where n: "run_steps n ?F ?sb = Returned (RC 0, st')" "flow live incoming (m_in st') (m_fd st') rest"
      "m_udata st' = fold h (map snd cs @ [[]]) (m_udata ?sb)" "same_head (m_ctx st') (m_ctx ?sb)"
      "bodysz (m_ctx st') = bodysz (m_ctx ?sb) + int (data_length cs)"
    using chunks_in_pieces [OF assms(1-3) sb(1,5) a _ _ assms(9), of pl lcb hcb h] sb(4,6) by auto
  have "run_steps n ?F st = Returned (RC 0, st') \<or> run_steps (Suc n) ?F st = Returned (RC 0, st')"
    using chunks_entered [OF assms(2,4,6,7) refl, of pl lcb hcb "Some (body_reader h)"] n(1) by (cases n) auto
  then have "\<exists>n. run_steps n ?F st = Returned (RC 0, st')" by blast
  moreover have "same_head (m_ctx st') (m_ctx st)" using n(4) sb(2) same_head_trans by blast
  moreover have "unread (m_in st') @ incoming (m_fd st') = rest" using n(2) by (simp add: flow_def)
  ultimately show ?thesis using n(3,5) sb(3,4) by auto
qed

end
