(* ===== verification/HttpArrive.thy ===== *)
theory HttpArrive
  imports HttpPieces HttpChunks
begin

text \<open>
  Messages that arrive in pieces, from their first byte to their last. The places where the division into reads matters are the line ends the
  parser skips without looking at them: that of the empty line (see \<open>split_line_end_shifts_body\<close>) and those behind the data of chunks. A read
  must not end between their two bytes (\<open>message_cuts\<close>); anywhere else it may, and the result is the one for the whole text.
\<close>

section \<open>The first line in pieces\<close>

text \<open>A line parser that reads the line \<open>L\<close> at \<open>p\<close> once it is there.\<close>

definition reads_line :: "line_parser \<Rightarrow> mnhttp_ctx \<Rightarrow> int \<Rightarrow> string \<Rightarrow> mnhttp_ctx \<Rightarrow> bool" where
  "reads_line parse_line ctx p L ctx' \<longleftrightarrow>
     (\<forall>b e r. stream_ok b \<longrightarrow> drop (nat p) (sbuf b) = L @ crlf @ r \<longrightarrow> p + int (length L) + 2 \<le> seod b \<longrightarrow> errno_ok e \<longrightarrow>
        parse_line ctx b e = Some (line_done ctx' b (p + int (length L)) e))"

text \<open>A line parser that does nothing but wait as long as the line has no end.\<close>

locale waiting_line_parser = line_parser +
  assumes line_incomplete: "findcrlf (sbuf b) (br_start (first_line ctx)) (c_int (seod b - br_start (first_line ctx))) = Some None \<Longrightarrow>
    parse_line ctx b e = Some (RC MNHTTP_PARSE_NEED_MORE, ctx, b\<lparr>spos := seod b\<rparr>, e)"
begin

lemma line_in_pieces:
  assumes "arrival_law env live incoming stock" and "needmore_law env" and "CR \<notin> set L" and "parser_state (m_ctx st) = PS_START"
    and "flow live incoming (m_in st) (m_fd st) (L @ crlf @ after)" and "errno_ok (m_errno st)"
    and "reads_line parse_line (line_ctx st) (spos (m_in st)) L ctxL"
  shows "\<exists>n st'. run_steps n (message_step env parse_line (Some (line_reader k)) hcb bcb) st = Running st' \<and>
    parser_state (m_ctx st') = PS_HEADER_FIELD_IN \<and> flow live incoming (m_in st') (m_fd st') after \<and>
    m_udata st' = k (code ctxL) (request_uri ctxL) (version_major ctxL) (version_minor ctxL) (m_udata st) \<and>
    same_head (m_ctx st') ctxL \<and> same_frame (m_ctx st') (m_ctx st)"
proof -
  let ?F = "message_step env parse_line (Some (line_reader k)) hcb bcb"
  define p where "p = spos (m_in st)"
  have ne: "L @ crlf @ after \<noteq> []" by simp
  obtain b0 w0 e0 where 0: "refill env st = Inl (st\<lparr>m_in := b0, m_fd := w0, m_errno := e0\<rparr>)" "flow live incoming b0 w0 (L @ crlf @ after)"
      "spos b0 = p" "errno_ok (m_errno st) \<longrightarrow> errno_ok e0"
    unfolding p_def by (rule refill_flow [OF assms(1,2,5) ne])
  let ?st0 = "st\<lparr>m_in := b0, m_fd := w0, m_errno := e0, m_ctx := line_ctx st\<rparr>"
  have F0: "?F st = Some (Inl ?st0)"
    using 0(1,3) assms(4) by (simp add: message_step_def dispatch_def step_start_def line_ctx_def p_def)
  have ps: "parser_state (line_ctx st) = PS_LINE" "br_start (first_line (line_ctx st)) = p" by (simp_all add: line_ctx_def p_def)
  obtain n st1 b w e where 1: "run_steps n ?F ?st0 = Running st1" "refill env st1 = Inl (?st0\<lparr>m_in := b, m_fd := w, m_errno := e\<rparr>)"
      "line_here live incoming p L after b w" "errno_ok e0 \<longrightarrow> errno_ok e"
    using line_arrives [OF assms(1-3), where st = ?st0 and after = after and pl = parse_line and lcb = "Some (line_reader k)" and hcb = hcb and bcb = bcb]
      line_incomplete [of _ "line_ctx st"] ps 0(2,3) by (auto simp: dispatch_def step_line_def)
  obtain pre r where s: "sbuf b = pre @ L @ crlf @ r" "int (length pre) = p" "p + int (length L) + 2 \<le> seod b" "stream_ok b"
      "flow live incoming (b\<lparr>spos := p + int (length L) + 2\<rparr>) w after"
    by (rule line_here_layout [OF 1(3)])
  have pl: "parse_line (line_ctx st) b e = Some (line_done ctxL b (p + int (length L)) e)"
    using assms(7) [unfolded reads_line_def, rule_format, of b r e] s(1-4) 0(4) 1(4) assms(6) by (auto simp: p_def)
  let ?st2 = "?st0\<lparr>m_ctx := ctxL\<lparr>parser_state := PS_HEADER_FIELD_IN\<rparr>, m_in := b\<lparr>spos := p + int (length L) + 2\<rparr>, m_fd := w, m_errno := e,
    m_udata := k (code ctxL) (request_uri ctxL) (version_major ctxL) (version_minor ctxL) (m_udata st)\<rparr>"
  have F1: "?F st1 = Some (Inl ?st2)"
    using 1(2) ps pl by (simp add: message_step_def dispatch_def step_line_def line_done_def call_cb_def line_reader_def)
  have "same_body (line_ctx st) (ctxL\<lparr>parser_state := PS_HEADER_FIELD_IN\<rparr>)"
    using line_result [OF pl [unfolded line_done_def]] by auto
  then have "same_frame (m_ctx ?st2) (m_ctx st)" by (simp add: same_frame_def same_body_def line_ctx_def)
  moreover have "run_steps (Suc n) ?F st = Running st1" using F0 1(1) by simp
  from run_steps_trans [OF this, of 1] have "run_steps (Suc n + 1) ?F st = Running ?st2" using F1 by simp
  ultimately show ?thesis using s(5) by (intro exI [of _ "Suc n + 1"] exI [of _ ?st2]) (simp add: same_head_def)
qed

end

interpretation req_wait: waiting_line_parser "parse_request_line env" for env :: "'w bs_env"
  by unfold_locales (simp add: parse_request_line_def)

interpretation resp_wait: waiting_line_parser "parse_status_line env" for env :: "'w bs_env"
  by unfold_locales (simp add: parse_status_line_def)

section \<open>The header section in pieces\<close>

text \<open>A line of the header section, up to the round that finds its end.\<close>

definition header_at :: "('w, 'u) mstate \<Rightarrow> int \<Rightarrow> ('w, 'u) mstate" where
  "header_at st p = st\<lparr>m_ctx := (m_ctx st)\<lparr>current_header_name := (current_header_name (m_ctx st))\<lparr>br_start := p\<rparr>,
     parser_state := PS_HEADER_FIELD_OUT\<rparr>\<rparr>"

lemma header_arrives:
  assumes "arrival_law env live incoming stock" and "needmore_law env" and "CR \<notin> set L" and "parser_state (m_ctx st) = PS_HEADER_FIELD_IN"
    and "flow live incoming (m_in st) (m_fd st) (L @ crlf @ after)"
  shows "\<exists>n st1 p b w e. run_steps n (message_step env pl lcb hcb bcb) st = Running st1 \<and> 0 \<le> p \<and>
    refill env st1 = Inl ((header_at st p)\<lparr>m_in := b, m_fd := w, m_errno := e\<rparr>) \<and> line_here live incoming p L after b w"
proof -
  let ?F = "message_step env pl lcb hcb bcb"
  have ne: "L @ crlf @ after \<noteq> []" by simp
  define p where "p = spos (m_in st)"
  obtain b0 w0 e0 where 0: "refill env st = Inl (st\<lparr>m_in := b0, m_fd := w0, m_errno := e0\<rparr>)" "flow live incoming b0 w0 (L @ crlf @ after)"
      "spos b0 = p"
    unfolding p_def by (rule refill_flow [OF assms(1,2,5) ne])
  let ?st0 = "(header_at st p)\<lparr>m_in := b0, m_fd := w0, m_errno := e0\<rparr>"
  have F0: "?F st = Some (Inl ?st0)"
    using 0(1,3) assms(4) by (simp add: message_step_def dispatch_def step_header_in_def header_at_def)
  obtain n st1 b w e where 1: "run_steps n ?F ?st0 = Running st1" "refill env st1 = Inl (?st0\<lparr>m_in := b, m_fd := w, m_errno := e\<rparr>)"
      "line_here live incoming p L after b w"
    using line_arrives [OF assms(1-3), where st = ?st0 and after = after and pl = pl and lcb = lcb and hcb = hcb and bcb = bcb] 0(2,3)
    by (auto simp: dispatch_def step_header_out_def header_at_def)
  have "0 \<le> p" using assms(5) by (simp add: flow_def pos_ok_def p_def)
  then show ?thesis using F0 1
    by (intro exI [of _ "Suc n"] exI [of _ st1] exI [of _ p] exI [of _ b] exI [of _ w] exI [of _ e]) simp
qed

lemma header_in_pieces:
  assumes "arrival_law env live incoming stock" and "needmore_law env" and "good_field f" and "parser_state (m_ctx st) = PS_HEADER_FIELD_IN"
    and "flow live incoming (m_in st) (m_fd st) (field_text f @ crlf @ after)"
  shows "\<exists>n st'. run_steps n (message_step env pl lcb (Some (header_reader g)) bcb) st = Running st' \<and>
    parser_state (m_ctx st') = PS_HEADER_FIELD_IN \<and> flow live incoming (m_in st') (m_fd st') after \<and>
    m_udata st' = read_field g f (m_udata st) \<and> same_head (m_ctx st') (m_ctx st) \<and>
    same_frame (m_ctx st') (header_effect (name_value f) (m_ctx st))"
proof -
  let ?F = "message_step env pl lcb (Some (header_reader g)) bcb"
  have CR: "CR \<notin> set (field_text f)" using assms(3) by (rule good_field_CR)
  obtain n st1 p b w e where 1: "run_steps n ?F st = Running st1" "0 \<le> p"
      "refill env st1 = Inl ((header_at st p)\<lparr>m_in := b, m_fd := w, m_errno := e\<rparr>)" "line_here live incoming p (field_text f) after b w"
    using header_arrives [OF assms(1,2) CR assms(4,5)] by blast
  let ?st1 = "(header_at st p)\<lparr>m_in := b, m_fd := w, m_errno := e\<rparr>" and ?L = "field_text f"
  define q where "q = p + int (length ?L) + 2"
  obtain pre r where s: "sbuf b = pre @ ?L @ crlf @ r" "int (length pre) = p" "p + int (length ?L) + 2 \<le> seod b" "stream_ok b"
      "flow live incoming (b\<lparr>spos := q\<rparr>) w after"
    unfolding q_def by (rule line_here_layout [OF 1(4)])
  obtain cn cv e' pre' where h: "step_header_out env (Some (header_reader g)) bcb ?st1 =
      Some (Inl (?st1\<lparr>m_errno := e', m_udata := read_field g f (m_udata st),
                    m_ctx := (header_effect (name_value f) (m_ctx ?st1))\<lparr>current_header_name := cn,
                                current_header_value := cv, parser_state := PS_HEADER_FIELD_IN\<rparr>,
                    m_in := b\<lparr>sbuf := pre' @ r, spos := int (length pre')\<rparr>\<rparr>))"
      and l: "length pre' = length pre + length ?L + 2"
    using header_step_out [where st = ?st1 and pre = pre and f = f and rest = r and env = env and g = g and bcb = bcb] s(1-4) assms(3)
    by (auto simp: header_at_def)
  let ?st2 = "?st1\<lparr>m_errno := e', m_udata := read_field g f (m_udata st),
      m_ctx := (header_effect (name_value f) (m_ctx ?st1))\<lparr>current_header_name := cn,
                  current_header_value := cv, parser_state := PS_HEADER_FIELD_IN\<rparr>,
      m_in := b\<lparr>sbuf := pre' @ r, spos := int (length pre')\<rparr>\<rparr>"
  have F: "?F st1 = Some (Inl ?st2)" using 1(3) h by (simp add: message_step_def dispatch_def header_at_def)
  have q: "q = int (length pre')" "q = int (length (pre @ ?L @ crlf))" using l s(2) by (simp_all add: q_def)
  have "unread (b\<lparr>sbuf := pre' @ r, spos := q\<rparr>) = take (nat (seod b) - length pre') r"
    using unread_past [of "b\<lparr>sbuf := pre' @ r, spos := q\<rparr>" pre' r] q(1) by simp
  also have "\<dots> = unread (b\<lparr>spos := q\<rparr>)"
    using unread_past [of "b\<lparr>spos := q\<rparr>" "pre @ ?L @ crlf" r] q(2) s(1) l by simp
  finally have "unread (m_in ?st2) = unread (b\<lparr>spos := q\<rparr>)" by (simp add: q(1) [symmetric])
  moreover have "pos_ok (b\<lparr>sbuf := pre' @ r, spos := q\<rparr>)" using s(1,2,4,5) l by (simp add: flow_def pos_ok_def stream_ok_def)
  then have "pos_ok (m_in ?st2)" unfolding q(1) by simp
  ultimately have "flow live incoming (m_in ?st2) (m_fd ?st2) after" using s(5) by (simp add: flow_def)
  moreover have "same_head (m_ctx ?st2) (m_ctx st)" "same_frame (m_ctx ?st2) (header_effect (name_value f) (m_ctx st))"
    by (simp_all add: header_at_def same_head_def same_frame_def header_effect_def)
  moreover have "run_steps (n + 1) ?F st = Running ?st2" using run_steps_trans [OF 1(1), of 1] F by simp
  ultimately show ?thesis by (intro exI [of _ "n + 1"] exI [of _ ?st2]) simp
qed

lemma headers_in_pieces:
  assumes "arrival_law env live incoming stock" and "needmore_law env" and "list_all good_field fs"
    and "parser_state (m_ctx st) = PS_HEADER_FIELD_IN" and "flow live incoming (m_in st) (m_fd st) (headers_text fs @ after)"
  shows "\<exists>n st'. run_steps n (message_step env pl lcb (Some (header_reader g)) bcb) st = Running st' \<and>
    parser_state (m_ctx st') = PS_HEADER_FIELD_IN \<and> flow live incoming (m_in st') (m_fd st') after \<and>
    m_udata st' = fold (read_field g) fs (m_udata st) \<and> same_head (m_ctx st') (m_ctx st) \<and>
    same_frame (m_ctx st') (fold header_effect (map name_value fs) (m_ctx st))"
  using assms(3-)
proof (induction fs arbitrary: st)
  case Nil
  then show ?case by (intro exI [of _ 0] exI [of _ st]) (simp add: headers_text_def same_head_def same_frame_def)
next
  case (Cons f fs)
  let ?F = "message_step env pl lcb (Some (header_reader g)) bcb"
  have fl: "flow live incoming (m_in st) (m_fd st) (field_text f @ crlf @ headers_text fs @ after)"
    using Cons.prems(3) by (simp add: headers_text_def)
  have f: "good_field f" "list_all good_field fs" using Cons.prems(1) by simp_all
  obtain n st1 where 1: "run_steps n ?F st = Running st1" "parser_state (m_ctx st1) = PS_HEADER_FIELD_IN"
      "flow live incoming (m_in st1) (m_fd st1) (headers_text fs @ after)" "m_udata st1 = read_field g f (m_udata st)"
      "same_head (m_ctx st1) (m_ctx st)" "same_frame (m_ctx st1) (header_effect (name_value f) (m_ctx st))"
    using header_in_pieces [OF assms(1,2) f(1) Cons.prems(2) fl] by blast
  obtain m st2 where 2: "run_steps m ?F st1 = Running st2" "parser_state (m_ctx st2) = PS_HEADER_FIELD_IN"
      "flow live incoming (m_in st2) (m_fd st2) after" "m_udata st2 = fold (read_field g) fs (m_udata st1)"
      "same_head (m_ctx st2) (m_ctx st1)" "same_frame (m_ctx st2) (fold header_effect (map name_value fs) (m_ctx st1))"
    using Cons.IH [OF f(2) 1(2,3)] by blast
  have "run_steps (n + m) ?F st = Running st2" using run_steps_trans [OF 1(1)] 2(1) by simp
  moreover have "same_frame (m_ctx st2) (fold header_effect (map name_value (f # fs)) (m_ctx st))"
    using 2(6) same_frame_effects [OF 1(6)] by (simp add: same_frame_def)
  moreover have "same_head (m_ctx st2) (m_ctx st)" using 2(5) 1(5) same_head_trans by blast
  ultimately show ?case using 2(2-4) 1(4) by (intro exI [of _ "n + m"] exI [of _ st2]) simp
qed

text \<open>The empty line, when its two bytes are not separated.\<close>

lemma empty_line_in_pieces:
  assumes "arrival_law env live incoming stock" and "needmore_law env" and "parser_state (m_ctx st) = PS_HEADER_FIELD_IN"
    and "flow live incoming (m_in st) (m_fd st) (crlf @ after)" and "\<forall>w. live w \<longrightarrow> incoming w \<noteq> LF # after"
  shows "\<exists>n st1 st2 got. run_steps n (message_step env pl lcb hcb bcb) st = Running st1 \<and>
    message_step env pl lcb hcb bcb st1 = message_step env pl lcb hcb bcb st2 \<and> at_empty_line st2 got \<and>
    live (m_fd st2) \<and> got @ incoming (m_fd st2) = after \<and> seod (m_in st2) + int (length (incoming (m_fd st2))) < 2 ^ 31 \<and>
    m_udata st2 = m_udata st \<and> same_head (m_ctx st2) (m_ctx st) \<and> same_frame (m_ctx st2) (m_ctx st)"
proof -
  let ?F = "message_step env pl lcb hcb bcb"
  have nil: "CR \<notin> set []" "flow live incoming (m_in st) (m_fd st) ([] @ crlf @ after)" using assms(4) by simp_all
  obtain n st1 p b w e where 1: "run_steps n ?F st = Running st1" "0 \<le> p"
      "refill env st1 = Inl ((header_at st p)\<lparr>m_in := b, m_fd := w, m_errno := e\<rparr>)" "line_here live incoming p [] after b w"
    using header_arrives [OF assms(1,2) nil(1) assms(3) nil(2)] by blast
  let ?st2 = "(header_at st p)\<lparr>m_in := b, m_fd := w, m_errno := e\<rparr>"
  have "\<not> split_read live incoming [] after"
  proof
    assume "split_read live incoming [] after"
    then obtain g w where g: "live w" "g \<noteq> []" "length g < 2" "g @ incoming w = CR # LF # after" by (auto simp: split_read_def)
    then have "incoming w = LF # after" by (cases g) auto
    then show False using assms(5) g(1) by blast
  qed
  then have p: "spos b = p" using 1(4) by (simp add: line_here_def)
  then have fl: "flow live incoming b w (crlf @ after)" "2 \<le> length (unread b)" using 1(4) by (auto simp: line_here_def)
  then obtain t where t: "unread b = [] @ crlf @ t" "t @ incoming w = after"
    using complete_line [of "unread b" "incoming w" "[]" after] by (auto simp: flow_def)
  have ok: "pos_ok b" using fl(1) by (simp add: flow_def)
  have "at_empty_line ?st2 t" using ok t(1) p by (simp add: at_empty_line_def header_at_def)
  moreover have "?F st1 = ?F ?st2"
    using 1(3) refill_none [OF assms(2), of ?st2] unread_nonempty [OF ok] t(1) by (simp add: message_step_def)
  moreover have "same_head (m_ctx ?st2) (m_ctx st)" "same_frame (m_ctx ?st2) (m_ctx st)" "m_udata ?st2 = m_udata st"
    by (simp_all add: header_at_def same_head_def same_frame_def)
  ultimately show ?thesis using 1(1) fl(1) t(2)
    by (intro exI [of _ n] exI [of _ st1] exI [of _ ?st2] exI [of _ t]) (simp add: flow_def)
qed

section \<open>Bodies and messages in pieces\<close>

text \<open>What is left when a read ends inside a line end that is skipped.\<close>

fun frame_cuts :: "framing \<Rightarrow> string \<Rightarrow> string list" where
  "frame_cuts (Whole s) rest = []"
| "frame_cuts (Chunks cs ds) rest = chunk_cuts cs ds rest"

definition message_cuts :: "framing \<Rightarrow> string \<Rightarrow> string list" where
  "message_cuts fr rest = (LF # frame_text fr @ rest) # frame_cuts fr rest"

lemma frame_in_pieces:
  assumes "arrival_law env live incoming stock" and "needmore_law env" and "recycle_law env" and "at_empty_line st got" and "live (m_fd st)"
    and "announced fr (m_ctx st)" and "got @ incoming (m_fd st) = frame_text fr @ rest"
    and "seod (m_in st) + int (length (incoming (m_fd st))) < 2 ^ 31" and "\<forall>w. live w \<longrightarrow> incoming w \<notin> set (frame_cuts fr rest)"
  shows "\<exists>n st'. run_steps n (message_step env pl lcb hcb (Some (body_reader h))) st = Returned (RC 0, st') \<and>
    same_head (m_ctx st') (m_ctx st) \<and> bodysz (m_ctx st') = int (frame_length fr) \<and>
    m_udata st' = fold h (frame_pieces fr) (m_udata st) \<and> unread (m_in st') @ incoming (m_fd st') = rest"
proof (cases fr)
  case (Whole s)
  then show ?thesis using body_in_pieces [OF assms(1-5), of s rest pl lcb hcb h] assms(6-8) by fastforce
next
  case (Chunks cs ds)
  then show ?thesis using chunked_body_in_pieces [OF assms(1-5), of cs ds rest pl lcb hcb h] assms(6-9) by auto
qed

context waiting_line_parser
begin

lemma message_in_pieces:
  assumes "arrival_law env live incoming stock" and "needmore_law env" and "recycle_law env" and "m_ctx st = http_ctx_init" and "errno_ok (m_errno st)"
    and "flow live incoming (m_in st) (m_fd st) (L @ crlf @ headers_text fs @ crlf @ frame_text fr @ rest)"
    and "CR \<notin> set L" and "list_all good_field fs" and "announced fr (fold header_effect (map name_value fs) http_ctx_init)"
    and "\<forall>w. live w \<longrightarrow> incoming w \<notin> set (message_cuts fr rest)"
    and "reads_line parse_line (line_ctx st) (spos (m_in st)) L ctxL"
  shows "\<exists>n st'. http_parse_message n env parse_line (Some (line_reader k)) (Some (header_reader g)) (Some (body_reader h)) st =
      Returned (RC 0, st') \<and> same_head (m_ctx st') ctxL \<and> bodysz (m_ctx st') = int (frame_length fr) \<and>
    m_udata st' = fold h (frame_pieces fr) (fold (read_field g) fs (k (code ctxL) (request_uri ctxL) (version_major ctxL) (version_minor ctxL) (m_udata st))) \<and>
    unread (m_in st') @ incoming (m_fd st') = rest"
proof -
  let ?F = "message_step env parse_line (Some (line_reader k)) (Some (header_reader g)) (Some (body_reader h))"
  have ct: "\<forall>w. live w \<longrightarrow> incoming w \<noteq> LF # frame_text fr @ rest" "\<forall>w. live w \<longrightarrow> incoming w \<notin> set (frame_cuts fr rest)"
    using assms(10) by (simp_all add: message_cuts_def)
  have ps: "parser_state (m_ctx st) = PS_START" by (simp add: assms(4) http_ctx_init_def)
  obtain n1 st1 where 1: "run_steps n1 ?F st = Running st1" "parser_state (m_ctx st1) = PS_HEADER_FIELD_IN"
      "flow live incoming (m_in st1) (m_fd st1) (headers_text fs @ crlf @ frame_text fr @ rest)"
      "m_udata st1 = k (code ctxL) (request_uri ctxL) (version_major ctxL) (version_minor ctxL) (m_udata st)"
      "same_head (m_ctx st1) ctxL" "same_frame (m_ctx st1) (m_ctx st)"
    using line_in_pieces [OF assms(1,2,7) ps assms(6,5,11)] by blast
  obtain n2 st2 where 2: "run_steps n2 ?F st1 = Running st2" "parser_state (m_ctx st2) = PS_HEADER_FIELD_IN"
      "flow live incoming (m_in st2) (m_fd st2) (crlf @ frame_text fr @ rest)" "m_udata st2 = fold (read_field g) fs (m_udata st1)"
      "same_head (m_ctx st2) (m_ctx st1)" "same_frame (m_ctx st2) (fold header_effect (map name_value fs) (m_ctx st1))"
    using headers_in_pieces [OF assms(1,2,8) 1(2,3)] by blast
  obtain n3 st3 st4 got where 3: "run_steps n3 ?F st2 = Running st3" "?F st3 = ?F st4" "at_empty_line st4 got" "live (m_fd st4)"
      "got @ incoming (m_fd st4) = frame_text fr @ rest" "seod (m_in st4) + int (length (incoming (m_fd st4))) < 2 ^ 31"
      "m_udata st4 = m_udata st2" "same_head (m_ctx st4) (m_ctx st2)" "same_frame (m_ctx st4) (m_ctx st2)"
    using empty_line_in_pieces [OF assms(1,2) 2(2,3) ct(1)] by blast
  have "same_frame (m_ctx st4) (fold header_effect (map name_value fs) http_ctx_init)"
    using 3(9) 2(6) same_frame_effects [OF 1(6)] by (simp add: same_frame_def assms(4))
  then have an: "announced fr (m_ctx st4)" using assms(9) same_frame_announced by blast
  obtain n4 st5 where 4: "run_steps n4 ?F st4 = Returned (RC 0, st5)" "same_head (m_ctx st5) (m_ctx st4)" "bodysz (m_ctx st5) = int (frame_length fr)"
      "m_udata st5 = fold h (frame_pieces fr) (m_udata st4)" "unread (m_in st5) @ incoming (m_fd st5) = rest"
    using frame_in_pieces [OF assms(1-3) 3(3,4) an 3(5,6) ct(2)] by blast
  have "run_steps n4 ?F st3 = Returned (RC 0, st5)" using 4(1) 3(2) by (cases n4) simp_all
  then have "run_steps (n1 + (n2 + (n3 + n4))) ?F st = Returned (RC 0, st5)"
    using run_steps_trans [OF 1(1)] run_steps_trans [OF 2(1)] run_steps_trans [OF 3(1)] by simp
  moreover have "same_head (m_ctx st5) ctxL" using 4(2) 3(8) 2(5) 1(5) same_head_trans by blast
  ultimately show ?thesis using 4(3-5) 3(7) 2(4) 1(4)
    by (intro exI [of _ "n1 + (n2 + (n3 + n4))"] exI [of _ st5]) (simp add: http_parse_message_def)
qed

end

lemma request_text_CR: "token meth \<Longrightarrow> blanks w1 \<Longrightarrow> token uri \<Longrightarrow> blanks w2 \<Longrightarrow> CR \<notin> set (request_text meth w1 uri w2 maj mnr)"
  using tokenD blanksD CR_not_in_show_nat by (simp add: request_text_def)

lemma status_text_CR: "blanks w \<Longrightarrow> CR \<notin> set phrase \<Longrightarrow> CR \<notin> set (status_text maj mnr w status phrase)"
  using blanksD CR_not_in_show_nat by (simp add: status_text_def)

text \<open>
  C1. A request that arrives in any number of reads, cut anywhere but between the two bytes of the empty line that ends its head or of a
  line end behind the data of a chunk, is parsed completely: the loop returns 0, the context holds method, request URI and
  body size, the callbacks have been given the request line, the header fields in order and the body, in one piece or chunk by chunk
  but never cut where a read ended, and what follows the body is still to be read, in the stream or from the source.
\<close>

theorem request_in_pieces:
  assumes "arrival_law env live incoming stock" and "needmore_law env" and "recycle_law env"
    and "m_ctx st = http_ctx_init" and "errno_ok (m_errno st)" and "pos_ok (m_in st)" and "live (m_fd st)"
    and "unread (m_in st) @ incoming (m_fd st) = request_text meth w1 uri w2 maj mnr @ crlf @ headers_text fs @ crlf @ frame_text fr @ rest"
    and "seod (m_in st) + int (length (incoming (m_fd st))) < 2 ^ 31"
    and "token meth" and "blanks w1" and "token uri" and "blanks w2" and "maj < 2 ^ 31" and "mnr < 2 ^ 31"
    and "list_all good_field fs" and "announced fr (fold header_effect (map name_value fs) http_ctx_init)"
    and "\<forall>w. live w \<longrightarrow> incoming w \<notin> set (message_cuts fr rest)"
  shows "\<exists>n st'. http_parse_request n env (Some (line_reader k)) (Some (header_reader g)) (Some (body_reader h)) st = Returned (RC 0, st') \<and>
    code (m_ctx st') = method_of meth \<and> request_uri (m_ctx st') = Some uri \<and> bodysz (m_ctx st') = int (frame_length fr) \<and>
    unread (m_in st') @ incoming (m_fd st') = rest \<and>
    m_udata st' = fold h (frame_pieces fr) (fold (read_field g) fs (k (method_of meth) (Some uri) (int maj) (int mnr) (m_udata st)))"
proof -
  have fl: "flow live incoming (m_in st) (m_fd st) (request_text meth w1 uri w2 maj mnr @ crlf @ headers_text fs @ crlf @ frame_text fr @ rest)"
    using assms(6-9) by (simp add: flow_def)
  have p0: "0 \<le> br_start (first_line (line_ctx st))" using assms(6) by (simp add: pos_ok_def)
  have p: "reads_line (parse_request_line env) (line_ctx st) (spos (m_in st)) (request_text meth w1 uri w2 maj mnr)
      ((line_ctx st)\<lparr>first_line := (first_line (line_ctx st))\<lparr>br_end := spos (m_in st) + int (length (request_text meth w1 uri w2 maj mnr))\<rparr>,
         code := method_of meth, request_uri := Some uri, version_major := int maj, version_minor := int mnr\<rparr>)"
    unfolding reads_line_def
    using parse_request_line_text [where ctx = "line_ctx st" and env = env, OF _ p0 _ _ assms(10-15)] by simp
  show ?thesis
    using req_wait.message_in_pieces [OF assms(1-5) fl request_text_CR [OF assms(10-13)] assms(16,17,18) p, of k g h]
    by (simp add: http_parse_request_def same_head_def) blast
qed

lemma fragment_arrival:
  assumes "\<And>t w. live (t # w) \<Longrightarrow> t \<noteq> [] \<and> live w"
  shows "arrival_law fragment_env live concat length"
  unfolding arrival_law_def
proof (intro allI impI)
  fix b :: bytestream and w :: "string list" and e
  assume a: "pos_ok b" "live w" "concat w \<noteq> []" "seod b + int (length (concat w)) < 2 ^ 31"
  then obtain t w' where w: "w = t # w'" by (cases w) auto
  let ?b = "b\<lparr>sbuf := take (nat (seod b)) (sbuf b) @ t, seod := seod b + int (length t)\<rparr>"
  have "pos_ok ?b" "take (nat (seod ?b)) (sbuf ?b) = take (nat (seod b)) (sbuf b) @ t"
    using a w by (auto simp: pos_ok_def stream_ok_def nat_add_distrib)
  moreover have "t \<noteq> []" "live w'" using assms a(2) w by blast+
  ultimately show "\<exists>b' w' e' t. bytestream_consume_data fragment_env b w e = (0, b', w', e') \<and> live w' \<and> (errno_ok e \<longrightarrow> errno_ok e') \<and>
      concat w = t @ concat w' \<and> t \<noteq> [] \<and> length w' < length w \<and> pos_ok b' \<and> spos b' = spos b \<and> seod b' = seod b + int (length t) \<and>
      take (nat (seod b')) (sbuf b') = take (nat (seod b)) (sbuf b) @ t"
    by (intro exI [of _ ?b] exI [of _ w'] exI [of _ e] exI [of _ t]) (simp add: w fragment_env_def fragment_consume_def)
qed

text \<open>The fragments that are left at some time.\<close>

definition left_of :: "string list \<Rightarrow> string list \<Rightarrow> bool" where
  "left_of ws w \<longleftrightarrow> [] \<notin> set ws \<and> (\<exists>n. w = drop n ws)"

lemma left_of_tl:
  assumes "left_of ws (t # w)"
  shows "t \<noteq> [] \<and> left_of ws w"
proof -
  obtain n where n: "t # w = drop n ws" and ws: "[] \<notin> set ws" using assms by (auto simp: left_of_def)
  then have "w = drop (Suc n) ws" by (metis drop_Suc list.sel(3) tl_drop)
  moreover have "t \<in> set ws" using n by (metis in_set_dropD list.set_intros(1))
  ultimately show ?thesis using ws by (auto simp: left_of_def)
qed

lemma left_of_arrival: "arrival_law fragment_env (left_of ws) concat length"
  by (rule fragment_arrival) (rule left_of_tl)

definition request_fragments :: "string list" where
  "request_fragments = [''PO'', ''ST /a HTTP/1.1'' @ [CR], LF # ''content-le'', ''ngth: 3'' @ crlf @ crlf @ ''a'', ''bcGET'']"

definition response_fragments :: "string list" where
  "response_fragments = [''HTTP/1.1 2'', ''00 OK'' @ crlf @ ''Transfer-Encoding: chunked'' @ [CR], LF # crlf, ''2'' @ [CR], LF # ''h'', ''i'',
     crlf @ ''0'' @ crlf, crlf @ ''HTTP'']"

theorem request_in_pieces_witness:
  "\<exists>n st'. http_parse_request n fragment_env (Some (line_reader note_line)) (Some (header_reader note_field))
      (Some (body_reader note_body)) (fragment_state [] request_fragments []) = Returned (RC 0, st') \<and>
    unread (m_in st') @ concat (m_fd st') = ''GET'' \<and> m_udata st' = [''4'', ''/a'', ''content-length'', ''3'', ''abc'']"
proof -
  let ?fs = "[(''content-length'', '' '', ''3'')]" and ?st = "fragment_state [] request_fragments ([] :: string list)"
  have *: "unread (m_in ?st) @ concat (m_fd ?st) = request_text ''POST'' '' '' ''/a'' '' '' 1 1 @ crlf @ headers_text ?fs @ crlf @ frame_text (Whole ''abc'') @ ''GET''"
    "token ''POST''" "blanks '' ''" "token ''/a''" "list_all good_field ?fs"
    "announced (Whole ''abc'') (fold header_effect (map name_value ?fs) http_ctx_init)"
    by code_simp+
  have l: "left_of request_fragments (m_fd ?st)" "seod (m_in ?st) + int (length (concat (m_fd ?st))) < 2 ^ 31"
    by (auto simp: left_of_def fragment_state_def request_fragments_def intro: exI [of _ 0])
  have ns: "\<forall>w. left_of request_fragments w \<longrightarrow> concat w \<notin> set (message_cuts (Whole ''abc'') ''GET'')"
    by (auto simp: left_of_def request_fragments_def drop_Cons' message_cuts_def)
  have "method_of ''POST'' = MNHTTP_MPOST" by code_simp
  moreover have "fold note_body (frame_pieces (Whole ''abc'')) (fold (read_field note_field) ?fs (note_line 4 (Some ''/a'') (int 1) (int 1) [])) =
      [''4'', ''/a'', ''content-length'', ''3'', ''abc'']" by code_simp
  ultimately show ?thesis
    using request_in_pieces [OF left_of_arrival fragment_needmore fragment_recycle_law _ _ _
        l(1) *(1) l(2) *(2-4,3) _ _ *(5,6) ns, of note_line note_field note_body]
    by fastforce
qed

text \<open>
  C5. A response that arrives in any number of reads, cut anywhere but inside one of the same line ends, is parsed completely in the same
  sense.
\<close>

theorem response_in_pieces:
  assumes "arrival_law env live incoming stock" and "needmore_law env" and "recycle_law env"
    and "m_ctx st = http_ctx_init" and "errno_ok (m_errno st)" and "pos_ok (m_in st)" and "live (m_fd st)"
    and "unread (m_in st) @ incoming (m_fd st) = status_text maj mnr w status phrase @ crlf @ headers_text fs @ crlf @ frame_text fr @ rest"
    and "seod (m_in st) + int (length (incoming (m_fd st))) < 2 ^ 31"
    and "blanks w" and "CR \<notin> set phrase" and "\<not> c_isdigit (hd (phrase @ crlf))" and "maj < 2 ^ 31" and "mnr < 2 ^ 31" and "status < 2 ^ 31"
    and "list_all good_field fs" and "announced fr (fold header_effect (map name_value fs) http_ctx_init)"
    and "\<forall>w. live w \<longrightarrow> incoming w \<notin> set (message_cuts fr rest)"
  shows "\<exists>n st'. http_parse_response n env (Some (line_reader k)) (Some (header_reader g)) (Some (body_reader h)) st = Returned (RC 0, st') \<and>
    code (m_ctx st') = int status \<and> bodysz (m_ctx st') = int (frame_length fr) \<and> unread (m_in st') @ incoming (m_fd st') = rest \<and>
    m_udata st' = fold h (frame_pieces fr) (fold (read_field g) fs (k (int status) None (int maj) (int mnr) (m_udata st)))"
proof -
  let ?L = "status_text maj mnr w status phrase"
  have fl: "flow live incoming (m_in st) (m_fd st) (?L @ crlf @ headers_text fs @ crlf @ frame_text fr @ rest)"
    using assms(6-9) by (simp add: flow_def)
  have p0: "0 \<le> br_start (first_line (line_ctx st))" using assms(6) by (simp add: pos_ok_def)
  have p: "reads_line (parse_status_line env) (line_ctx st) (spos (m_in st)) ?L
      ((line_ctx st)\<lparr>first_line := (first_line (line_ctx st))\<lparr>br_end := spos (m_in st) + int (length ?L)\<rparr>,
         version_major := int maj, version_minor := int mnr, code := int status\<rparr>)"
    unfolding reads_line_def
    using parse_status_line_text [where ctx = "line_ctx st" and env = env, OF _ p0 _ _ assms(10-15)] by simp
  have u: "request_uri (line_ctx st) = None" using assms(4) by (simp add: line_ctx_def http_ctx_init_def)
  show ?thesis
    using resp_wait.message_in_pieces [OF assms(1-5) fl status_text_CR [OF assms(10,11)] assms(16,17,18) p, of k g h] u
    by (simp add: http_parse_response_def same_head_def) blast
qed

theorem response_in_pieces_witness:
  "\<exists>n st'. http_parse_response n fragment_env (Some (line_reader note_line)) (Some (header_reader note_field))
      (Some (body_reader note_body)) (fragment_state [] response_fragments []) = Returned (RC 0, st') \<and>
    unread (m_in st') @ concat (m_fd st') = ''HTTP'' \<and> m_udata st' = [''200'', '''', ''Transfer-Encoding'', ''chunked'', ''hi'', '''']"
proof -
  let ?fs = "[(''Transfer-Encoding'', '' '', ''chunked'')]" and ?st = "fragment_state [] response_fragments ([] :: string list)"
    and ?fr = "Chunks [(''2'', ''hi'')] ''0''"
  have *: "unread (m_in ?st) @ concat (m_fd ?st) = status_text 1 1 '' '' 200 '' OK'' @ crlf @ headers_text ?fs @ crlf @ frame_text ?fr @ ''HTTP''"
    "blanks '' ''" "CR \<notin> set '' OK''" "\<not> c_isdigit (hd ('' OK'' @ crlf))" "list_all good_field ?fs"
    "announced ?fr (fold header_effect (map name_value ?fs) http_ctx_init)"
    by code_simp+
  have l: "left_of response_fragments (m_fd ?st)" "seod (m_in ?st) + int (length (concat (m_fd ?st))) < 2 ^ 31"
    by (auto simp: left_of_def fragment_state_def response_fragments_def intro: exI [of _ 0])
  have "message_cuts ?fr ''HTTP'' = [LF # ''2'' @ crlf @ ''hi'' @ crlf @ ''0'' @ crlf @ crlf @ ''HTTP'', LF # ''0'' @ crlf @ crlf @ ''HTTP'', LF # ''HTTP'']"
    by code_simp
  then have ns: "\<forall>w. left_of response_fragments w \<longrightarrow> concat w \<notin> set (message_cuts ?fr ''HTTP'')"
    by (auto simp: left_of_def response_fragments_def drop_Cons')
  have "fold note_body (frame_pieces ?fr) (fold (read_field note_field) ?fs (note_line 200 None (int 1) (int 1) [])) =
      [''200'', '''', ''Transfer-Encoding'', ''chunked'', ''hi'', '''']" by code_simp
  then show ?thesis
    using response_in_pieces [OF left_of_arrival fragment_needmore fragment_recycle_law _ _ _
        l(1) *(1) l(2) *(2-4) _ _ _ *(5,6) ns, of note_line note_field note_body]
    by fastforce
qed

end
