(* ===== verification/Bytes.thy ===== *)
theory Bytes
  imports CLib
begin

text \<open>
  Byte strings and output streams of the library \<open>mncommon\<close>, whose code is not part of the
  program: \<open>mnbytes_t\<close> objects and \<open>mnbytestream_t\<close> used for output appear only through the
  operations the program calls, gathered in two records that the definitions take as
  arguments. \<open>bytes_law\<close> and \<open>out_law\<close> state the documented behaviour the program relies on.
  Reference counts (\<open>BYTES_INCREF\<close>, \<open>BYTES_DECREF\<close>) manage memory only and are left out.
\<close>

section \<open>Byte strings\<close>

text \<open>
  \<open>BDATA\<close> is the data of an object, all \<open>BSZ\<close> bytes of it; for objects made from strings it
  ends in the terminator. \<open>bytes_set_sz b n\<close> is the assignment \<open>b->sz = n\<close>. A pointer argument that may be \<open>NULL\<close>
  is an \<open>option\<close>.
\<close>

record 'b bytes_env =
  bytes_new_from_str :: "string \<Rightarrow> 'b"
  bytes_new_from_str_len :: "string \<Rightarrow> nat \<Rightarrow> 'b"
  bytes_new :: "nat \<Rightarrow> 'b"
  BDATA :: "'b \<Rightarrow> char list"
  BDATA_put :: "'b \<Rightarrow> nat \<Rightarrow> char \<Rightarrow> 'b"
  bytes_cmp :: "'b option \<Rightarrow> 'b option \<Rightarrow> int"
  bytes_is_null_or_empty :: "'b option \<Rightarrow> bool"
  bytes_urldecode :: "'b \<Rightarrow> 'b"
  bytes_brushdown :: "'b \<Rightarrow> 'b"
  bytes_str_urlencode2 :: "'b \<Rightarrow> 'b \<Rightarrow> 'b"
  bytes_set_sz :: "'b \<Rightarrow> nat \<Rightarrow> 'b"

abbreviation BSZ :: "'b bytes_env \<Rightarrow> 'b \<Rightarrow> nat" where
  "BSZ be b \<equiv> length (BDATA be b)"

text \<open>\<open>BCDATA(b)\<close> read as a C string.\<close>

definition BCDATA :: "'b bytes_env \<Rightarrow> 'b \<Rightarrow> string option" where
  "BCDATA be b = cstring (BDATA be b)"

text \<open>An object that holds a string.\<close>

definition holds :: "'b bytes_env \<Rightarrow> 'b option \<Rightarrow> string \<Rightarrow> bool" where
  "holds be b s \<longleftrightarrow> (case b of None \<Rightarrow> False | Some x \<Rightarrow> BDATA be x = s @ [NUL])"

definition bytes_law :: "'b bytes_env \<Rightarrow> bool" where
  "bytes_law be \<longleftrightarrow>
     (\<forall>s. BDATA be (bytes_new_from_str be s) = s @ [NUL]) \<and>
     (\<forall>s n. n \<le> length s \<longrightarrow> BDATA be (bytes_new_from_str_len be s n) = take n s @ [NUL]) \<and>
     (\<forall>n. BSZ be (bytes_new be n) = n) \<and>
     (\<forall>b i c. BDATA be (BDATA_put be b i c) = (BDATA be b)[i := c]) \<and>
     (\<forall>a b. bytes_cmp be (Some a) (Some b) = 0 \<longleftrightarrow> BDATA be a = BDATA be b) \<and>
     (\<forall>b. bytes_is_null_or_empty be b \<longleftrightarrow> b = None \<or> holds be b [])"

lemma bytes_lawD:
  assumes "bytes_law be"
  shows "BDATA be (bytes_new_from_str be s) = s @ [NUL]"
    and "n \<le> length s \<Longrightarrow> BDATA be (bytes_new_from_str_len be s n) = take n s @ [NUL]"
    and "BSZ be (bytes_new be n) = n"
    and "BDATA be (BDATA_put be b i c) = (BDATA be b)[i := c]"
    and "bytes_cmp be (Some x) (Some y) = 0 \<longleftrightarrow> BDATA be x = BDATA be y"
    and "bytes_is_null_or_empty be ob \<longleftrightarrow> ob = None \<or> holds be ob []"
  using assms unfolding bytes_law_def by blast+

lemma holds_new:
  assumes "bytes_law be"
  shows "holds be (Some (bytes_new_from_str be s)) t \<longleftrightarrow> s = t"
    and "n \<le> length s \<Longrightarrow> holds be (Some (bytes_new_from_str_len be s n)) t \<longleftrightarrow> take n s = t"
  using assms by (simp_all add: holds_def bytes_lawD)

lemma holds_BCDATA: "holds be (Some b) s \<Longrightarrow> NUL \<notin> set s \<Longrightarrow> BCDATA be b = Some s"
  by (simp add: holds_def BCDATA_def cstring_append)

text \<open>Byte strings as plain lists of bytes: the laws can hold.\<close>

definition list_bytes :: "string bytes_env" where
  "list_bytes = \<lparr>bytes_new_from_str = (\<lambda>s. s @ [NUL]), bytes_new_from_str_len = (\<lambda>s n. take n s @ [NUL]),
     bytes_new = (\<lambda>n. replicate n NUL), BDATA = (\<lambda>b. b), BDATA_put = (\<lambda>b i c. b[i := c]),
     bytes_cmp = (\<lambda>a b. if a = b then 0 else 1),
     bytes_is_null_or_empty = (\<lambda>b. b = None \<or> b = Some [NUL]),
     bytes_urldecode = (\<lambda>b. b), bytes_brushdown = (\<lambda>b. b), bytes_str_urlencode2 = (\<lambda>d s. s),
     bytes_set_sz = (\<lambda>b n. take n (b @ replicate n NUL))\<rparr>"

lemma list_bytes_law: "bytes_law list_bytes"
  by (auto simp: bytes_law_def list_bytes_def holds_def split: option.split)

section \<open>Output streams\<close>

text \<open>
  \<open>bytestream_nprintf(out, sz, fmt, ...)\<close> is given \<open>sz\<close> and the text \<open>fmt\<close> and its arguments format
  to; \<open>bytestream_cat(out, sz, p)\<close> is given \<open>sz\<close> and the memory at \<open>p\<close>. Both return a negative number
  on failure.
\<close>

record 'o out_env =
  bytestream_nprintf :: "'o \<Rightarrow> nat \<Rightarrow> string \<Rightarrow> int \<times> 'o"
  bytestream_cat :: "'o \<Rightarrow> nat \<Rightarrow> string \<Rightarrow> int \<times> 'o"

text \<open>
  When it does not fail, \<open>bytestream_nprintf\<close> appends its text to the stream's content, provided
  the text and a terminator fit \<open>sz\<close> bytes, and \<open>bytestream_cat\<close> appends the \<open>sz\<close> bytes.
\<close>

definition out_law :: "'o out_env \<Rightarrow> ('o \<Rightarrow> string) \<Rightarrow> bool" where
  "out_law oe content \<longleftrightarrow>
     (\<forall>x sz s. length s < sz \<longrightarrow> 0 \<le> fst (bytestream_nprintf oe x sz s) \<longrightarrow>
        content (snd (bytestream_nprintf oe x sz s)) = content x @ s) \<and>
     (\<forall>x sz s. sz \<le> length s \<longrightarrow> 0 \<le> fst (bytestream_cat oe x sz s) \<longrightarrow>
        content (snd (bytestream_cat oe x sz s)) = content x @ take sz s)"

lemma out_lawD:
  assumes "out_law oe content"
  shows "length s < sz \<Longrightarrow> bytestream_nprintf oe out sz s = (r, out') \<Longrightarrow> 0 \<le> r \<Longrightarrow>
      content out' = content out @ s"
    and "sz \<le> length s \<Longrightarrow> bytestream_cat oe out sz s = (r, out') \<Longrightarrow> 0 \<le> r \<Longrightarrow>
      content out' = content out @ take sz s"
  using assms unfolding out_law_def by (metis fst_conv snd_conv)+

text \<open>A stream that is its content, with room for \<open>limit\<close> bytes.\<close>

definition list_out :: "nat \<Rightarrow> string out_env" where
  "list_out limit = \<lparr>
     bytestream_nprintf = (\<lambda>x sz s. let t = take (sz - 1) s in
       if length x + length t \<le> limit then (int (length t), x @ t) else (-1, x)),
     bytestream_cat = (\<lambda>x sz s. let t = take sz s in
       if length x + length t \<le> limit then (int (length t), x @ t) else (-1, x))\<rparr>"

lemma list_out_law: "out_law (list_out limit) id"
  by (auto simp: out_law_def list_out_def Let_def)

end
