(* ===== verification/HttpDate.thy ===== *)
theory HttpDate
  imports CLib
begin

text \<open>
  Dates: the part of \<open>gmtime\<close> and \<open>strftime\<close> the program uses for date headers, and that they are right: the parts
  \<open>gmtime\<close> gives are in their ranges and denote the instant in the Gregorian calendar, and the program's format
  prints them as an RFC 1123 date.
\<close>

section \<open>Dates\<close>

text \<open>
  \<open>gmtime\<close> and the \<open>strftime\<close> format the program uses, for years that fit an \<open>int\<close> (\<open>gmtime\<close> returns
  \<open>NULL\<close> otherwise). The calendar is counted from 1 March 2000, so that a leap day is the last
  day of its year: cycles of 400, 100, 4 and 1 years, then the months.
\<close>

record tm =
  tm_sec :: int
  tm_min :: int
  tm_hour :: int
  tm_mday :: int
  tm_mon :: int
  tm_year :: int
  tm_wday :: int

definition month_days :: "int list" where
  "month_days = [31, 30, 31, 30, 31, 31, 30, 31, 30, 31, 31, 29]"

text \<open>The month (counted from March) and the day in it, of a day of the year.\<close>

fun find_month :: "int list \<Rightarrow> nat \<Rightarrow> int \<Rightarrow> nat \<times> int" where
  "find_month [] k d = (k, d)"
| "find_month (n # ns) k d = (if n \<le> d then find_month ns (Suc k) (d - n) else (k, d))"

definition civil_from_days :: "int \<Rightarrow> int \<times> nat \<times> int" where
  "civil_from_days days =
     (let z = days - 11017;
          qc = z div 146097; r1 = z mod 146097;
          c = min 3 (r1 div 36524); r2 = r1 - c * 36524;
          q = min 24 (r2 div 1461); r3 = r2 - q * 1461;
          y = min 3 (r3 div 365); r4 = r3 - y * 365;
          (m, d) = find_month month_days 0 r4
      in (2000 + y + 4 * q + 100 * c + 400 * qc, m, d))"

definition gmtime :: "int \<Rightarrow> tm option" where
  "gmtime t =
     (let days = t div 86400; s = t mod 86400;
          (y, m, d) = civil_from_days days;
          yy = (if m < 10 then y else y + 1)
      in if int_ok (yy - 1900)
         then Some \<lparr>tm_sec = s mod 60, tm_min = s div 60 mod 60, tm_hour = s div 3600, tm_mday = d + 1,
                tm_mon = (int m + 2) mod 12, tm_year = yy - 1900, tm_wday = (days + 4) mod 7\<rparr>
         else None)"

definition two_digits :: "int \<Rightarrow> string" where
  "two_digits n = [char_at (48 + nat n div 10), char_at (48 + nat n mod 10)]"

definition day_names :: "string list" where
  "day_names = [''Sun'', ''Mon'', ''Tue'', ''Wed'', ''Thu'', ''Fri'', ''Sat'']"

definition month_names :: "string list" where
  "month_names = [''Jan'', ''Feb'', ''Mar'', ''Apr'', ''May'', ''Jun'', ''Jul'', ''Aug'', ''Sep'', ''Oct'',
     ''Nov'', ''Dec'']"

text \<open>
  \<open>strftime\<close> with the conversions the program uses: the names and numbers of the C locale, other characters as they
  are. A text that does not fit the buffer with its terminator gives nothing; another conversion is not
  modelled (\<open>None\<close>).
\<close>

definition time_conv :: "char \<Rightarrow> tm \<Rightarrow> string option" where
  "time_conv c tv =
     (if c = CHR ''a'' then Some (day_names ! nat (tm_wday tv))
      else if c = CHR ''d'' then Some (two_digits (tm_mday tv))
      else if c = CHR ''b'' then Some (month_names ! nat (tm_mon tv))
      else if c = CHR ''Y'' then Some (show_int (tm_year tv + 1900))
      else if c = CHR ''H'' then Some (two_digits (tm_hour tv))
      else if c = CHR ''M'' then Some (two_digits (tm_min tv))
      else if c = CHR ''S'' then Some (two_digits (tm_sec tv))
      else None)"

fun time_text :: "string \<Rightarrow> tm \<Rightarrow> string option" where
  "time_text [] tv = Some []"
| "time_text [c] tv = (if c = CHR ''%'' then None else Some [c])"
| "time_text (c # d # cs) tv =
     (if c = CHR ''%'' then do { s \<leftarrow> time_conv d tv; t \<leftarrow> time_text cs tv; Some (s @ t) }
      else do { t \<leftarrow> time_text (d # cs) tv; Some (c # t) })"

definition strftime :: "nat \<Rightarrow> string \<Rightarrow> tm \<Rightarrow> string option" where
  "strftime maxsz fmt tv = do { s \<leftarrow> time_text fmt tv; Some (if length s < maxsz then s else []) }"

section \<open>Dates are correct\<close>

text \<open>
  The day number of a date, by the rules of the Gregorian calendar: 1 January 1970 is day 0. Years
  before \<open>y\<close> that are divisible by 4, but not by 100 unless by 400, have an extra day.
\<close>

definition leap :: "int \<Rightarrow> bool" where
  "leap y \<longleftrightarrow> y mod 4 = 0 \<and> (y mod 100 \<noteq> 0 \<or> y mod 400 = 0)"

definition days_before_year :: "int \<Rightarrow> int" where
  "days_before_year y = 365 * (y - 1) + (y - 1) div 4 - (y - 1) div 100 + (y - 1) div 400"

definition days_before_month :: "int \<Rightarrow> int \<Rightarrow> int" where
  "days_before_month y m =
     [0, 31, 59, 90, 120, 151, 181, 212, 243, 273, 304, 334] ! nat m + (if leap y \<and> 2 \<le> m then 1 else 0)"

definition day_number :: "int \<Rightarrow> int \<Rightarrow> int \<Rightarrow> int" where
  "day_number y m d = days_before_year y + days_before_month y m + (d - 1) - 719162"

text \<open>The months of a year that begins in March.\<close>

definition march_offset :: "nat \<Rightarrow> int" where
  "march_offset m = [0, 31, 61, 92, 122, 153, 184, 214, 245, 275, 306, 337] ! m"

lemma find_month_march:
  assumes "0 \<le> r" and "r \<le> 365" and "find_month month_days 0 r = (m, d)"
  shows "m < 12 \<and> r = march_offset m + d \<and> 0 \<le> d \<and> d < month_days ! m"
  using assms unfolding month_days_def
  by (simp add: march_offset_def eval_nat_numeral split: if_split_asm)

lemma month_days_le: "m < 12 \<Longrightarrow> month_days ! m \<le> 31"
  by (auto simp: month_days_def less_Suc_eq numeral_eq_Suc)

lemma civil_from_days_parts:
  assumes "civil_from_days days = (Y, m, d)"
  obtains qc c q y where "Y = 2000 + y + 4 * q + 100 * c + 400 * qc"
    and "days = 11017 + 146097 * qc + 36524 * c + 1461 * q + 365 * y + march_offset m + d"
    and "0 \<le> c" "c \<le> 3" "0 \<le> q" "q \<le> 24" "0 \<le> y" "y \<le> 3" and "m < 12" "0 \<le> d" "d < 31"
    and "march_offset m + d = 365 \<Longrightarrow> y = 3 \<and> (q = 24 \<longrightarrow> c = 3)" and "d < month_days ! m"
proof -
  define z qc r1 where "z = days - 11017" and "qc = z div 146097" and "r1 = z mod 146097"
  define c r2 where "c = min 3 (r1 div 36524)" and "r2 = r1 - c * 36524"
  define q r3 where "q = min 24 (r2 div 1461)" and "r3 = r2 - q * 1461"
  define y r4 where "y = min 3 (r3 div 365)" and "r4 = r3 - y * 365"
  have z: "z = 146097 * qc + r1" "0 \<le> r1" "r1 < 146097" by (simp_all add: qc_def r1_def)
  have c: "0 \<le> c" "c \<le> 3" "0 \<le> r2" "r2 \<le> 36524" "r2 = 36524 \<longrightarrow> c = 3"
    using z(2,3) unfolding c_def r2_def by (auto simp: min_def)
  have q: "0 \<le> q" "q \<le> 24" "0 \<le> r3" "r3 \<le> 1460" "r3 = 1460 \<longrightarrow> q < 24 \<or> c = 3"
    using c(3-5) unfolding q_def r3_def by (auto simp: min_def)
  have y: "0 \<le> y" "y \<le> 3" "0 \<le> r4" "r4 \<le> 365" "r4 = 365 \<longrightarrow> y = 3 \<and> r3 = 1460"
    using q(3,4) unfolding y_def r4_def by (auto simp: min_def)
  have e: "Y = 2000 + y + 4 * q + 100 * c + 400 * qc" "find_month month_days 0 r4 = (m, d)"
    using assms
    unfolding civil_from_days_def Let_def z_def [symmetric] qc_def [symmetric] r1_def [symmetric]
      c_def [symmetric] r2_def [symmetric] q_def [symmetric] r3_def [symmetric] y_def [symmetric]
      r4_def [symmetric]
    by (auto split: prod.split_asm)
  note fm = find_month_march [OF y(3,4) e(2)]
  show thesis
  proof (rule that [OF e(1) _ c(1,2) q(1,2) y(1,2)])
    show "days = 11017 + 146097 * qc + 36524 * c + 1461 * q + 365 * y + march_offset m + d"
      using z(1) fm by (simp add: z_def r2_def r3_def r4_def)
  qed (use fm y q month_days_le [of m] in auto)
qed

lemma div_pred:
  assumes "0 < k"
  shows "(y - 1) div k = y div k - (if y mod k = 0 then 1 else (0 :: int))"
proof (cases "y mod k = 0")
  case True
  then have "y - 1 = k * (y div k - 1) + (k - 1)"
    using mult_div_mod_eq [of k y] by (simp add: right_diff_distrib)
  then have "(y - 1) div k = y div k - 1" by (rule int_div_pos_eq) (use assms in simp_all)
  with True show ?thesis by simp
next
  case False
  have e: "y - 1 = k * (y div k) + (y mod k - 1)" using mult_div_mod_eq [of k y] by simp
  have "0 < y mod k" "y mod k < k"
    using False assms pos_mod_sign [of k y] pos_mod_bound [of k y] by linarith+
  then have "(y - 1) div k = y div k" by (intro int_div_pos_eq [OF e]) simp_all
  with False show ?thesis by simp
qed

lemma days_before_next_year: "days_before_year (y + 1) = days_before_year y + (if leap y then 366 else 365)"
proof -
  have "y mod 400 = 0 \<Longrightarrow> y mod 100 = 0" "y mod 100 = 0 \<Longrightarrow> y mod 4 = 0"
    using dvd_trans [of 100 400 y] dvd_trans [of 4 100 y] by (simp_all add: mod_eq_0_iff_dvd)
  then show ?thesis by (auto simp: days_before_year_def leap_def div_pred)
qed

lemma day_number_march:
  assumes "m < 12"
  shows "day_number (if m < 10 then y else y + 1) ((int m + 2) mod 12) (d + 1) =
    days_before_year (y + 1) - 306 + march_offset m + d - 719162"
proof -
  have "m \<in> {0, 1, 2, 3, 4, 5, 6, 7, 8, 9, 10, 11}" using assms by (simp, presburger)
  then show ?thesis
    by (elim insertE emptyE) (simp_all add: day_number_def days_before_month_def march_offset_def days_before_next_year)
qed

lemma split_seconds:
  fixes s :: int
  assumes "0 \<le> s" and "s < 86400"
  shows "s = 3600 * (s div 3600) + 60 * (s div 60 mod 60) + s mod 60" and "s div 3600 < 24"
proof -
  define m r h i where "m = s div 60" and "r = s mod 60" and "h = m div 60" and "i = m mod 60"
  have *: "s = 60 * m + r" "m = 60 * h + i" by (simp_all add: m_def r_def h_def i_def)
  have h: "s div 3600 = h" by (simp add: h_def m_def zdiv_zmult2_eq [symmetric])
  have "0 \<le> r" "0 \<le> i" by (simp_all add: r_def i_def)
  then have "s = 3600 * h + 60 * i + r" "h < 24" using * assms(2) by linarith+
  then show "s = 3600 * (s div 3600) + 60 * (s div 60 mod 60) + s mod 60" "s div 3600 < 24"
    unfolding h m_def [symmetric] r_def [symmetric] i_def [symmetric] by simp_all
qed

lemma gmtime_correct:
  assumes "gmtime t = Some tv"
  shows "t = 86400 * day_number (tm_year tv + 1900) (tm_mon tv) (tm_mday tv) +
      3600 * tm_hour tv + 60 * tm_min tv + tm_sec tv"
    and "0 \<le> tm_sec tv \<and> tm_sec tv < 60" and "0 \<le> tm_min tv \<and> tm_min tv < 60"
    and "0 \<le> tm_hour tv \<and> tm_hour tv < 24" and "1 \<le> tm_mday tv \<and> tm_mday tv \<le> 31"
    and "0 \<le> tm_mon tv \<and> tm_mon tv < 12" and "tm_wday tv = (t div 86400 + 4) mod 7"
proof -
  obtain Y m d where c: "civil_from_days (t div 86400) = (Y, m, d)" by (cases "civil_from_days (t div 86400)")
  obtain qc c q y where Y: "Y = 2000 + y + 4 * q + 100 * c + 400 * qc"
      "t div 86400 = 11017 + 146097 * qc + 36524 * c + 1461 * q + 365 * y + march_offset m + d"
      "0 \<le> c" "c \<le> 3" "0 \<le> q" "q \<le> 24" "0 \<le> y" "y \<le> 3" "m < 12" "0 \<le> d" "d < 31"
    using civil_from_days_parts [OF c] by metis
  define s where "s = t mod 86400"
  have tv: "tv = \<lparr>tm_sec = s mod 60, tm_min = s div 60 mod 60, tm_hour = s div 3600, tm_mday = d + 1,
      tm_mon = (int m + 2) mod 12, tm_year = (if m < 10 then Y else Y + 1) - 1900,
      tm_wday = (t div 86400 + 4) mod 7\<rparr>"
    using assms by (simp add: gmtime_def Let_def c s_def split: if_split_asm)
  have s0: "0 \<le> s" "s < 86400" by (simp_all add: s_def)
  note s = s0 split_seconds [OF s0]
  have "days_before_year (Y + 1) = 365 * Y + Y div 4 - Y div 100 + Y div 400"
    by (simp add: days_before_year_def)
  also have "Y div 4 = 500 + 100 * qc + 25 * c + q"
    by (rule int_div_pos_eq [where r = y]) (use Y(1,7,8) in simp_all)
  also have "Y div 100 = 20 + 4 * qc + c"
    by (rule int_div_pos_eq [where r = "y + 4 * q"]) (use Y(1,5-8) in simp_all)
  also have "Y div 400 = 5 + qc"
    by (rule int_div_pos_eq [where r = "y + 4 * q + 100 * c"]) (use Y(1,3-8) in simp_all)
  finally have dn: "day_number (tm_year tv + 1900) (tm_mon tv) (tm_mday tv) = t div 86400"
    using day_number_march [OF Y(9), of Y d] Y(1,2) by (simp add: tv)
  have hms: "3600 * tm_hour tv + 60 * tm_min tv + tm_sec tv = s"
    unfolding tv tm.select_convs by (rule s(3) [symmetric])
  have t: "t = 86400 * (t div 86400) + s" unfolding s_def by simp
  show "t = 86400 * day_number (tm_year tv + 1900) (tm_mon tv) (tm_mday tv) +
      3600 * tm_hour tv + 60 * tm_min tv + tm_sec tv"
    unfolding dn using t hms by (metis add.assoc)
  show "0 \<le> tm_sec tv \<and> tm_sec tv < 60" "0 \<le> tm_min tv \<and> tm_min tv < 60"
    "0 \<le> tm_hour tv \<and> tm_hour tv < 24" "1 \<le> tm_mday tv \<and> tm_mday tv \<le> 31"
    "0 \<le> tm_mon tv \<and> tm_mon tv < 12" "tm_wday tv = (t div 86400 + 4) mod 7"
    using s(1,4) Y(10,11) by (simp_all add: tv pos_imp_zdiv_nonneg_iff)
qed

lemma march_offset_ge: "m < 12 \<Longrightarrow> 10 \<le> m \<Longrightarrow> 306 \<le> march_offset m"
  "m < 12 \<Longrightarrow> 0 \<le> march_offset m \<and> march_offset m \<le> 337"
  by (auto simp: march_offset_def less_Suc_eq numeral_eq_Suc)

lemma gmtime_year:
  assumes "0 \<le> t" and "t < 253402300800"
  obtains tv where "gmtime t = Some tv" and "1969 \<le> tm_year tv + 1900" and "tm_year tv + 1900 \<le> 9999"
proof -
  obtain Y m d where c: "civil_from_days (t div 86400) = (Y, m, d)" by (cases "civil_from_days (t div 86400)")
  obtain qc c q y where Y: "Y = 2000 + y + 4 * q + 100 * c + 400 * qc"
      "t div 86400 = 11017 + 146097 * qc + 36524 * c + 1461 * q + 365 * y + march_offset m + d"
      "0 \<le> c" "c \<le> 3" "0 \<le> q" "q \<le> 24" "0 \<le> y" "y \<le> 3" "m < 12" "0 \<le> d" "d < 31"
    using civil_from_days_parts [OF c] by metis
  define D where "D = t div 86400"
  have D: "0 \<le> D" "D < 2932897"
    using assms div_pos_pos_trivial [of t] zdiv_mono1 [of t 253402300799 86400] by (simp_all add: D_def)
  define M where "M = march_offset m"
  have M: "0 \<le> M" "M \<le> 337" "\<not> m < 10 \<Longrightarrow> 306 \<le> M" using march_offset_ge [OF Y(9)] by (simp_all add: M_def)
  have eq: "D = 11017 + 146097 * qc + 36524 * c + 1461 * q + 365 * y + M + d" using Y(2) by (simp add: D_def M_def)
  define yy where "yy = (if m < 10 then Y else Y + 1)"
  have "1969 \<le> yy" "yy \<le> 9999"
    using D M eq Y(1) Y(3-8) Y(10,11) unfolding yy_def by (auto split: if_splits)
  then show thesis
    using that by (simp add: gmtime_def Let_def c yy_def [symmetric] int_ok_def)
qed

lemma length_show_nat_step: "length (show_nat n) = (if n < 10 then 1 else Suc (length (show_nat (n div 10))))"
  by (subst show_nat.simps) simp

lemma length_show_nat_4:
  assumes "1000 \<le> n" and "n \<le> 9999" shows "length (show_nat n) = 4"
proof -
  have "\<not> n < 10" "\<not> n div 10 < 10" "\<not> n div 10 div 10 < 10" "n div 10 div 10 div 10 < 10"
    using assms by (simp_all add: div_mult2_eq [symmetric])
  then show ?thesis
    by (simp add: length_show_nat_step [of n] length_show_nat_step [of "n div 10"]
        length_show_nat_step [of "n div 10 div 10"] length_show_nat_step [of "n div 10 div 10 div 10"]
        del: div_mult2_eq)
qed

text \<open>The greatest day of a month (0 is January).\<close>

definition days_in_month :: "int \<Rightarrow> int \<Rightarrow> int" where
  "days_in_month y m = (if m = 1 then (if leap y then 29 else 28) else if m \<in> {3, 5, 8, 10} then 30 else 31)"

lemma leap_day:
  assumes "0 \<le> q" and "q \<le> 24" and "q = 24 \<longrightarrow> c = (3 :: int)"
  shows "leap (2000 + 3 + 4 * q + 100 * c + 400 * k + 1)"
proof (cases "q = 24")
  case True
  then have "2000 + 3 + 4 * q + 100 * c + 400 * k + 1 = 400 * (6 + k)" using assms(3) by simp
  then show ?thesis unfolding leap_def by presburger
next
  case False
  have e: "2000 + 3 + 4 * q + 100 * c + 400 * k + 1 = 100 * (20 + c + 4 * k) + 4 * (q + 1)" by simp
  have "(100 * (20 + c + 4 * k) + 4 * (q + 1)) mod 100 = 4 * (q + 1)"
    using False assms(1,2) by (intro int_mod_pos_eq [where q = "20 + c + 4 * k"]) auto
  moreover have "(100 * (20 + c + 4 * k) + 4 * (q + 1)) mod 4 = 0" by presburger
  ultimately show ?thesis unfolding leap_def e using assms(1) by simp
qed

lemma march_month:
  assumes "m < 12" and "d < month_days ! m" and "march_offset m + d = 365 \<Longrightarrow> leap (y + 1)"
  shows "d + 1 \<le> days_in_month (if m < 10 then y else y + 1) ((int m + 2) mod 12)"
proof -
  have "m \<in> {0, 1, 2, 3, 4, 5, 6, 7, 8, 9, 10, 11}" using assms(1) by (simp, presburger)
  then show ?thesis using assms(2,3)
    by (elim insertE emptyE) (simp_all add: days_in_month_def month_days_def march_offset_def, linarith)
qed

lemma gmtime_mday:
  assumes "gmtime t = Some tv"
  shows "tm_mday tv \<le> days_in_month (tm_year tv + 1900) (tm_mon tv)"
proof -
  obtain Y m d where c: "civil_from_days (t div 86400) = (Y, m, d)" by (cases "civil_from_days (t div 86400)")
  obtain qc c q y where Y: "Y = 2000 + y + 4 * q + 100 * c + 400 * qc" "0 \<le> q" "q \<le> 24" "m < 12" "d < month_days ! m"
      "march_offset m + d = 365 \<Longrightarrow> y = 3 \<and> (q = 24 \<longrightarrow> c = 3)"
    by (rule civil_from_days_parts [OF c]) blast
  have "leap (Y + 1)" if "march_offset m + d = 365" using leap_day [OF Y(2,3), of c qc] Y(1) Y(6) [OF that] by simp
  from march_month [OF Y(4,5) this] show ?thesis using assms by (auto simp: gmtime_def Let_def c add.commute split: if_split_asm)
qed

text \<open>The text of a date, by its parts.\<close>

definition date_text :: "int \<Rightarrow> int \<Rightarrow> int \<Rightarrow> int \<Rightarrow> int \<Rightarrow> int \<Rightarrow> int \<Rightarrow> string" where
  "date_text wday d mon y h mi s = day_names ! nat wday @ '', '' @ two_digits d @ '' '' @ month_names ! nat mon @ '' '' @
     show_int y @ '' '' @ two_digits h @ '':'' @ two_digits mi @ '':'' @ two_digits s @ '' GMT''"

definition http_date :: "tm \<Rightarrow> string" where
  "http_date tv = date_text (tm_wday tv) (tm_mday tv) (tm_mon tv) (tm_year tv + 1900) (tm_hour tv) (tm_min tv) (tm_sec tv)"

lemma time_text_date: "time_text ''%a, %d %b %Y %H:%M:%S GMT'' tv = Some (http_date tv)"
  by (simp add: time_conv_def http_date_def date_text_def)

lemma gmtime_names:
  assumes "gmtime t = Some tv"
  shows "length (day_names ! nat (tm_wday tv)) = 3" and "length (month_names ! nat (tm_mon tv)) = 3"
    and "NUL \<notin> set (day_names ! nat (tm_wday tv))" and "NUL \<notin> set (month_names ! nat (tm_mon tv))"
proof -
  have "nat (tm_wday tv) < 7" "nat (tm_mon tv) < 12" using gmtime_correct(6,7) [OF assms] by (simp_all add: nat_less_iff)
  then show "length (day_names ! nat (tm_wday tv)) = 3" "length (month_names ! nat (tm_mon tv)) = 3"
      "NUL \<notin> set (day_names ! nat (tm_wday tv))" "NUL \<notin> set (month_names ! nat (tm_mon tv))"
    by (auto simp: day_names_def month_names_def less_Suc_eq numeral_eq_Suc)
qed

lemma strftime_date:
  assumes "gmtime t = Some tv"
  shows "strftime 64 ''%a, %d %b %Y %H:%M:%S GMT'' tv = Some (http_date tv)"
proof -
  have "int_ok (tm_year tv)" using assms by (auto simp: gmtime_def Let_def split: if_split_asm prod.split_asm)
  then have "nat \<bar>tm_year tv + 1900\<bar> < 10 ^ 10" by (auto simp: int_ok_def)
  then have "length (show_nat (nat \<bar>tm_year tv + 1900\<bar>)) \<le> 10" by (intro length_show_nat_le) auto
  then have "length (show_int (tm_year tv + 1900)) \<le> 11" by (auto simp: show_int_def abs_if)
  then have "length (http_date tv) < 64" using gmtime_names(1,2) [OF assms] by (simp add: http_date_def date_text_def two_digits_def)
  then show ?thesis unfolding strftime_def time_text_date by simp
qed

lemma length_http_date:
  assumes "gmtime t = Some tv" and "1000 \<le> tm_year tv + 1900" and "tm_year tv + 1900 \<le> 9999"
  shows "length (http_date tv) = 29"
proof -
  have "length (show_int (tm_year tv + 1900)) = 4"
    using length_show_nat_4 [of "nat (tm_year tv + 1900)"] assms(2,3) by (simp add: show_int_def)
  then show ?thesis using gmtime_names(1,2) [OF assms(1)] by (simp add: http_date_def date_text_def two_digits_def)
qed

lemma NUL_not_in_show_int: "NUL \<notin> set (show_int i)"
proof -
  have "NUL \<notin> set (show_nat n)" for n
    using show_nat_digits [of n] by (auto simp: list_all_iff c_isdigit_def)
  then show ?thesis by (simp add: show_int_def)
qed

lemma NUL_not_in_two_digits: "n < 100 \<Longrightarrow> NUL \<notin> set (two_digits n)"
proof -
  assume "n < 100"
  then have "nat n div 10 < 10" by (simp add: nat_less_iff)
  then have "c_isdigit (char_at (48 + nat n div 10))" "c_isdigit (char_at (48 + nat n mod 10))"
    by (intro c_isdigit_char_of; simp)+
  moreover have "\<not> c_isdigit NUL" by (simp add: c_isdigit_def)
  ultimately show ?thesis by (simp add: two_digits_def) metis
qed

lemma http_date_no_NUL: assumes "gmtime t = Some tv" shows "NUL \<notin> set (http_date tv)"
  using gmtime_correct(2-5) [OF assms] gmtime_names(3,4) [OF assms]
  by (simp add: http_date_def date_text_def NUL_not_in_show_int NUL_not_in_two_digits)

text \<open>Times from 1970 to 9999 have a date in that range of years, whose parts are in their ranges and denote the time.\<close>

lemma gmtime_1970:
  assumes "0 \<le> t" and "t < 253402300800"
  obtains tv where "gmtime t = Some tv" and "1970 \<le> tm_year tv + 1900" and "tm_year tv + 1900 \<le> 9999"
proof -
  obtain tv where tv: "gmtime t = Some tv" "1969 \<le> tm_year tv + 1900" "tm_year tv + 1900 \<le> 9999"
    using gmtime_year [OF assms] by blast
  note g = gmtime_correct [OF tv(1)]
  have "tm_year tv + 1900 \<noteq> 1969"
  proof
    assume y: "tm_year tv + 1900 = 1969"
    have "tm_mon tv \<in> {0, 1, 2, 3, 4, 5, 6, 7, 8, 9, 10, 11}" using g(6) by (simp, presburger)
    then have "day_number 1969 (tm_mon tv) (tm_mday tv) < 0"
      using g(5) by (elim insertE emptyE) (simp_all add: day_number_def days_before_year_def days_before_month_def leap_def)
    then show False using g(1-4) assms(1) unfolding y by linarith
  qed
  with tv(2) have "1970 \<le> tm_year tv + 1900" by linarith
  then show thesis by (rule that [OF tv(1) _ tv(3)])
qed

lemma gmtime_day:
  assumes "gmtime t = Some tv"
  shows "tm_wday tv = (day_number (tm_year tv + 1900) (tm_mon tv) (tm_mday tv) + 4) mod 7"
proof -
  note g = gmtime_correct [OF assms]
  have "t div 86400 = day_number (tm_year tv + 1900) (tm_mon tv) (tm_mday tv)"
    by (rule int_div_pos_eq [where r = "3600 * tm_hour tv + 60 * tm_min tv + tm_sec tv"])
      (use g(1-4) in linarith)+
  then show ?thesis using g(7) by simp
qed

end
