(* ===== verification/HttpWrite.thy ===== *)
theory HttpWrite
  imports Bytes HttpCtx HttpDate
begin

text \<open>
  The functions of src/src/mnhttp.c that write a message to an output stream: \<open>http_start_request\<close>,
  \<open>http_start_response\<close>, the header functions, \<open>http_end_of_header\<close> and \<open>http_add_body\<close>. Each gives
  \<open>bytestream_nprintf\<close> a size it computes itself; the lemmas show that the size always suffices, so
  that nothing is cut off, and what a successful call has appended to the stream.
\<close>

section \<open>The code\<close>

definition http_start_request :: "'o out_env \<Rightarrow> 'o \<Rightarrow> string \<Rightarrow> string \<Rightarrow> res \<times> 'o" where
  "http_start_request oe out method uri =
     (let sz = length method + length uri + 16;
          (r, out1) = bytestream_nprintf oe out sz (method @ '' '' @ uri @ '' HTTP/1.1'' @ crlf)
      in (if r < 0 then ERR HTTP_START_REQUEST 1 else RC 0, out1))"

definition http_start_response :: "'o out_env \<Rightarrow> 'o \<Rightarrow> int \<Rightarrow> string \<Rightarrow> res \<times> 'o" where
  "http_start_response oe out reason phrase =
     (let sz = length phrase + 32;
          (r, out1) = bytestream_nprintf oe out sz (''HTTP/1.1 '' @ show_int reason @ '' '' @ phrase @ crlf)
      in (if r < 0 then ERR HTTP_START_RESPONSE 1 else RC 0, out1))"

definition http_add_header_field :: "'o out_env \<Rightarrow> 'o \<Rightarrow> string \<Rightarrow> string \<Rightarrow> res \<times> 'o" where
  "http_add_header_field oe out name val =
     (let sz0 = length name + length val + 4;
          sz = sz0 + (4096 - sz0 mod 4096);
          (r, out1) = bytestream_nprintf oe out sz (name @ '': '' @ val @ crlf)
      in (if r < 0 then ERR HTTP_ADD_HEADER_FIELD 1 else RC 0, out1))"

text \<open>\<open>val\<close> is what \<open>bytes_vprintf\<close> makes of the format and its arguments.\<close>

definition http_field_addf ::
  "'b bytes_env \<Rightarrow> 'o out_env \<Rightarrow> 'o \<Rightarrow> 'b option \<Rightarrow> 'b \<Rightarrow> (res \<times> 'o) option" where
  "http_field_addf be oe out name val = do {
     n \<leftarrow> name;
     ns \<leftarrow> BCDATA be n;
     vs \<leftarrow> BCDATA be val;
     Some (http_add_header_field oe out ns vs)
   }"

definition http_field_addb ::
  "'b bytes_env \<Rightarrow> 'o out_env \<Rightarrow> 'o \<Rightarrow> 'b option \<Rightarrow> 'b option \<Rightarrow> (res \<times> 'o) option" where
  "http_field_addb be oe out name val = do {
     n \<leftarrow> name;
     v \<leftarrow> val;
     ns \<leftarrow> BCDATA be n;
     vs \<leftarrow> BCDATA be v;
     Some (http_add_header_field oe out ns vs)
   }"

definition http_field_addt ::
  "'b bytes_env \<Rightarrow> 'o out_env \<Rightarrow> 'o \<Rightarrow> 'b \<Rightarrow> int \<Rightarrow> (res \<times> 'o) option" where
  "http_field_addt be oe out name t = do {
     tv \<leftarrow> gmtime t;
     buf \<leftarrow> strftime 64 ''%a, %d %b %Y %H:%M:%S GMT'' tv;
     let val = bytes_new_from_str_len be buf (length buf);
     ns \<leftarrow> BCDATA be name;
     vs \<leftarrow> BCDATA be val;
     Some (http_add_header_field oe out ns vs)
   }"

definition http_end_of_header :: "'o out_env \<Rightarrow> 'o \<Rightarrow> res \<times> 'o" where
  "http_end_of_header oe out =
     (let (r, out1) = bytestream_cat oe out 2 crlf
      in (if r < 0 then ERR HTTP_END_OF_HEADER 1 else RC 0, out1))"

definition http_add_body :: "'o out_env \<Rightarrow> 'o \<Rightarrow> string \<Rightarrow> nat \<Rightarrow> res \<times> 'o" where
  "http_add_body oe out bdy sz =
     (let (r, out1) = bytestream_cat oe out sz bdy
      in (if r < 0 then ERR HTTP_ADD_BODY 1 else RC 0, out1))"

section \<open>What a successful call writes\<close>

lemma length_show_int: "int_ok i \<Longrightarrow> length (show_int i) \<le> 11"
proof -
  assume "int_ok i"
  then have "nat \<bar>i\<bar> < 10 ^ 10" by (auto simp: int_ok_def)
  then have "length (show_nat (nat \<bar>i\<bar>)) \<le> 10" by (intro length_show_nat_le) auto
  then show ?thesis by (auto simp: show_int_def abs_if)
qed

text \<open>The pattern all writers follow.\<close>

lemma nprintf_writes:
  assumes "out_law oe content" and "length s < sz"
    and "(let (r, out1) = bytestream_nprintf oe out sz s in (if r < 0 then ERR d k else RC 0, out1)) = (RC 0, out')"
  shows "content out' = content out @ s"
  using assms(3) out_lawD(1) [OF assms(1,2), of out] by (auto split: prod.split_asm if_split_asm)

lemma cat_writes:
  assumes "out_law oe content" and "sz \<le> length s"
    and "(let (r, out1) = bytestream_cat oe out sz s in (if r < 0 then ERR d k else RC 0, out1)) = (RC 0, out')"
  shows "content out' = content out @ take sz s"
  using assms(3) out_lawD(2) [OF assms(1,2), of out] by (auto split: prod.split_asm if_split_asm)

text \<open>A successful call has appended its whole text.\<close>

lemma start_request_writes:
  assumes "out_law oe content" and "http_start_request oe out method uri = (RC 0, out')"
  shows "content out' = content out @ method @ '' '' @ uri @ '' HTTP/1.1'' @ crlf"
  by (rule nprintf_writes [OF assms(1) _ assms(2) [unfolded http_start_request_def Let_def [of "_ :: nat"]]]) simp

lemma start_response_writes:
  assumes "out_law oe content" and "int_ok reason" and "http_start_response oe out reason phrase = (RC 0, out')"
  shows "content out' = content out @ ''HTTP/1.1 '' @ show_int reason @ '' '' @ phrase @ crlf"
  by (rule nprintf_writes [OF assms(1) _ assms(3) [unfolded http_start_response_def Let_def [of "_ :: nat"]]])
    (use length_show_int [OF assms(2)] in simp)

lemma header_field_room: "n < n + (4096 - n mod 4096 :: nat)"
  by simp

lemma add_header_field_writes:
  assumes "out_law oe content" and "http_add_header_field oe out name val = (RC 0, out')"
  shows "content out' = content out @ name @ '': '' @ val @ crlf"
  by (rule nprintf_writes [OF assms(1) _ assms(2) [unfolded http_add_header_field_def Let_def [of "_ :: nat"]]])
    (use header_field_room [of "length name + length val + 4"] in \<open>simp add: add.commute\<close>)

lemma end_of_header_writes:
  assumes "out_law oe content" and "http_end_of_header oe out = (RC 0, out')"
  shows "content out' = content out @ crlf"
  using cat_writes [OF assms(1) _ assms(2) [unfolded http_end_of_header_def]] by simp

lemma add_body_writes:
  assumes "out_law oe content" and "sz \<le> length bdy" and "http_add_body oe out bdy sz = (RC 0, out')"
  shows "content out' = content out @ take sz bdy"
  by (rule cat_writes [OF assms(1,2) assms(3) [unfolded http_add_body_def]])

section \<open>Claim\<close>

text \<open>
  C30. \<open>http_field_addt\<close>, for every time from 1970 to the end of the year 9999, writes a header
  whose value is an RFC 1123 date of 29 characters: the day of the week, the day of the month, the month, the year, hours, minutes and
  seconds, in this order and each in its range, the last three in two digits. The date and the time of day
  denote exactly the instant \<open>t\<close> in the Gregorian calendar, and the weekday is that of the date.
\<close>

theorem field_addt_date:
  assumes "bytes_law be" and "out_law oe content" and "BCDATA be name = Some ns"
    and "0 \<le> t" and "t < 253402300800"
  shows "\<exists>y mon d h mi s date r out'. http_field_addt be oe out name t = Some (r, out') \<and>
    (r = RC 0 \<longrightarrow> content out' = content out @ ns @ '': '' @ date @ crlf) \<and> length date = 29 \<and>
    date = day_names ! nat ((day_number y mon d + 4) mod 7) @ '', '' @ two_digits d @ '' '' @ month_names ! nat mon @ '' '' @
      show_int y @ '' '' @ two_digits h @ '':'' @ two_digits mi @ '':'' @ two_digits s @ '' GMT'' \<and>
    1970 \<le> y \<and> y \<le> 9999 \<and> 0 \<le> mon \<and> mon < 12 \<and> 1 \<le> d \<and> d \<le> days_in_month y mon \<and>
    0 \<le> h \<and> h < 24 \<and> 0 \<le> mi \<and> mi < 60 \<and> 0 \<le> s \<and> s < 60 \<and>
    t = 86400 * day_number y mon d + 3600 * h + 60 * mi + s"
proof -
  obtain tv where tv: "gmtime t = Some tv" "1970 \<le> tm_year tv + 1900" "tm_year tv + 1900 \<le> 9999"
    using gmtime_1970 [OF assms(4,5)] by blast
  let ?d = "http_date tv"
  note g = gmtime_correct [OF tv(1)] gmtime_mday [OF tv(1)]
  have l: "length ?d = 29" using length_http_date [OF tv(1)] tv(2,3) by simp
  have v: "BCDATA be (bytes_new_from_str_len be ?d (length ?d)) = Some ?d"
    using http_date_no_NUL [OF tv(1)] by (simp add: BCDATA_def bytes_lawD [OF assms(1)] cstring_append)
  obtain r out' where w: "http_add_header_field oe out ns ?d = (r, out')"
    by (cases "http_add_header_field oe out ns ?d")
  have "http_field_addt be oe out name t = Some (r, out')"
    using strftime_date [OF tv(1)] by (simp add: http_field_addt_def tv(1) Let_def assms(3) v w)
  moreover have "r = RC 0 \<longrightarrow> content out' = content out @ ns @ '': '' @ ?d @ crlf"
    using add_header_field_writes [OF assms(2)] w by auto
  moreover have "?d = day_names ! nat ((day_number (tm_year tv + 1900) (tm_mon tv) (tm_mday tv) + 4) mod 7) @ '', '' @
      two_digits (tm_mday tv) @ '' '' @ month_names ! nat (tm_mon tv) @ '' '' @ show_int (tm_year tv + 1900) @ '' '' @
      two_digits (tm_hour tv) @ '':'' @ two_digits (tm_min tv) @ '':'' @ two_digits (tm_sec tv) @ '' GMT''"
    unfolding http_date_def date_text_def gmtime_day [OF tv(1)] by (rule refl)
  ultimately show ?thesis
    using l tv(2,3) g(1-6,8)
    by (intro exI [of _ "tm_year tv + 1900"] exI [of _ "tm_mon tv"] exI [of _ "tm_mday tv"] exI [of _ "tm_hour tv"]
        exI [of _ "tm_min tv"] exI [of _ "tm_sec tv"] exI [of _ ?d] exI [of _ r] exI [of _ out'] conjI)
      blast+
qed

theorem field_addt_date_witness:
  "http_field_addt list_bytes (list_out 4096) [] (''Date'' @ [NUL]) 784111777 =
     Some (RC 0, ''Date: Sun, 06 Nov 1994 08:49:37 GMT'' @ crlf) \<and>
   (\<exists>y mon d h mi s. length ''Sun, 06 Nov 1994 08:49:37 GMT'' = 29 \<and> d \<le> days_in_month y mon \<and> h < 24 \<and>
     784111777 = 86400 * day_number y mon d + 3600 * h + 60 * mi + s)"
proof -
  have d: "Option.bind (gmtime 784111777) (strftime 64 ''%a, %d %b %Y %H:%M:%S GMT'') = Some ''Sun, 06 Nov 1994 08:49:37 GMT''"
    by code_simp
  then have w: "http_field_addt list_bytes (list_out 4096) [] (''Date'' @ [NUL]) 784111777 =
     Some (RC 0, ''Date: Sun, 06 Nov 1994 08:49:37 GMT'' @ crlf)"
    by (auto simp: http_field_addt_def Let_def list_bytes_def BCDATA_def cstring_def
        http_add_header_field_def list_out_def split: Option.bind_split_asm)
  moreover have n: "BCDATA list_bytes (''Date'' @ [NUL]) = Some ''Date''" by code_simp
  moreover have "length ''Sun, 06 Nov 1994 08:49:37 GMT'' = 29" by simp
  moreover obtain y mon d h mi s where "d \<le> days_in_month y mon" "h < 24" "784111777 = 86400 * day_number y mon d + 3600 * h + 60 * mi + s"
    using field_addt_date [OF list_bytes_law list_out_law [of 4096] n, of 784111777 "[]"] by auto
  ultimately show ?thesis by blast
qed

end
