(* ===== verification/HttpRoundtrip.thy ===== *)
theory HttpRoundtrip
  imports HttpWrite HttpMessage
begin

text \<open>
  The writers and the parser together: a message written with the functions of HttpWrite is
  read back by the parser of HttpParse. \<open>send_request\<close> and \<open>send_response\<close> are the sequences of calls a
  client or server makes, stopping at the first error.
\<close>

section \<open>Sending\<close>

fun add_fields :: "'o out_env \<Rightarrow> 'o \<Rightarrow> (string \<times> string) list \<Rightarrow> res \<times> 'o" where
  "add_fields oe out [] = (RC 0, out)"
| "add_fields oe out ((name, val) # hs) =
     (case http_add_header_field oe out name val of (r, out1) \<Rightarrow>
        if r \<noteq> RC 0 then (r, out1) else add_fields oe out1 hs)"

definition send_rest :: "'o out_env \<Rightarrow> 'o \<Rightarrow> (string \<times> string) list \<Rightarrow> string \<Rightarrow> res \<times> 'o" where
  "send_rest oe out hs bdy =
     (case add_fields oe out hs of (r1, out1) \<Rightarrow>
        if r1 \<noteq> RC 0 then (r1, out1)
        else (case http_end_of_header oe out1 of (r2, out2) \<Rightarrow>
          if r2 \<noteq> RC 0 then (r2, out2) else http_add_body oe out2 bdy (length bdy)))"

definition send_request ::
  "'o out_env \<Rightarrow> 'o \<Rightarrow> string \<Rightarrow> string \<Rightarrow> (string \<times> string) list \<Rightarrow> string \<Rightarrow> res \<times> 'o" where
  "send_request oe out meth uri hs bdy =
     (case http_start_request oe out meth uri of (r, out1) \<Rightarrow>
        if r \<noteq> RC 0 then (r, out1) else send_rest oe out1 hs bdy)"

definition send_response ::
  "'o out_env \<Rightarrow> 'o \<Rightarrow> int \<Rightarrow> string \<Rightarrow> (string \<times> string) list \<Rightarrow> string \<Rightarrow> res \<times> 'o" where
  "send_response oe out status phrase hs bdy =
     (case http_start_response oe out status phrase of (r, out1) \<Rightarrow>
        if r \<noteq> RC 0 then (r, out1) else send_rest oe out1 hs bdy)"

text \<open>The fields as they are on the wire: one blank after the colon.\<close>

definition wire_fields :: "(string \<times> string) list \<Rightarrow> field list" where
  "wire_fields hs = map (\<lambda>(name, val). (name, '' '', val)) hs"

lemma name_value_wire [simp]: "map name_value (wire_fields hs) = hs"
  by (induction hs) (auto simp: wire_fields_def name_value_def)

lemma add_fields_writes:
  assumes "out_law oe content" and "add_fields oe out hs = (RC 0, out')"
  shows "content out' = content out @ headers_text (wire_fields hs)"
  using assms(2)
proof (induction hs arbitrary: out)
  case Nil
  then show ?case by (simp add: headers_text_def wire_fields_def)
next
  case (Cons h hs)
  obtain name val where h: "h = (name, val)" by (cases h)
  obtain out1 where 1: "http_add_header_field oe out name val = (RC 0, out1)" "add_fields oe out1 hs = (RC 0, out')"
    using Cons.prems by (auto simp: h split: prod.split_asm if_split_asm)
  show ?case
    using Cons.IH [OF 1(2)] add_header_field_writes [OF assms(1) 1(1)]
    by (simp add: h headers_text_def wire_fields_def field_text_def)
qed

lemma send_rest_writes:
  assumes "out_law oe content" and "send_rest oe out hs bdy = (RC 0, out')"
  shows "content out' = content out @ headers_text (wire_fields hs) @ crlf @ bdy"
proof -
  obtain out1 out2 where "add_fields oe out hs = (RC 0, out1)" "http_end_of_header oe out1 = (RC 0, out2)"
      "http_add_body oe out2 bdy (length bdy) = (RC 0, out')"
    using assms(2) by (auto simp: send_rest_def split: prod.split_asm if_split_asm)
  then show ?thesis
    using add_fields_writes [OF assms(1)] end_of_header_writes [OF assms(1)]
      add_body_writes [OF assms(1), of "length bdy" bdy] by fastforce
qed

lemma send_request_writes:
  assumes "out_law oe content" and "send_request oe out meth uri hs bdy = (RC 0, out')"
  shows "content out' = content out @ request_text meth '' '' uri '' '' 1 1 @ crlf @
    headers_text (wire_fields hs) @ crlf @ bdy"
proof -
  obtain out1 where "http_start_request oe out meth uri = (RC 0, out1)" "send_rest oe out1 hs bdy = (RC 0, out')"
    using assms(2) by (auto simp: send_request_def split: prod.split_asm if_split_asm)
  moreover have "show_nat 1 = ''1''" by code_simp
  ultimately show ?thesis
    using start_request_writes [OF assms(1), of out meth uri out1] send_rest_writes [OF assms(1), of out1 hs bdy out']
    by (simp add: request_text_def)
qed

lemma send_response_writes:
  assumes "out_law oe content" and "int_ok (int status)" and "send_response oe out (int status) phrase hs bdy = (RC 0, out')"
  shows "content out' = content out @ status_text 1 1 '' '' status ('' '' @ phrase) @ crlf @
    headers_text (wire_fields hs) @ crlf @ bdy"
proof -
  obtain out1 where "http_start_response oe out (int status) phrase = (RC 0, out1)" "send_rest oe out1 hs bdy = (RC 0, out')"
    using assms(3) by (auto simp: send_response_def split: prod.split_asm if_split_asm)
  moreover have "show_nat 1 = ''1''" by code_simp
  ultimately show ?thesis
    using start_response_writes [OF assms(1,2), of out phrase out1] send_rest_writes [OF assms(1), of out1 hs bdy out']
    by (simp add: status_text_def show_int_def)
qed

section \<open>Read back\<close>

text \<open>
  C4. A request written with \<open>http_start_request\<close>, \<open>http_add_header_field\<close>, \<open>http_end_of_header\<close> and
  \<open>http_add_body\<close>, all of them successful, is read back by \<open>http_parse_request\<close>: when the bytes
  of the output stream arrive, followed by anything, the parser returns 0, gives the callbacks
  the method, the URI, version 1.1, the same header fields and the same body, and stops at
  the end of what was written. The fields must announce the length of the body.
\<close>

theorem request_roundtrip:
  assumes "out_law oe content" and "content out = []"
    and "send_request oe out meth uri hs bdy = (RC 0, out')"
    and "token meth" and "token uri" and "list_all good_field (wire_fields hs)"
    and "announced (Whole bdy) (fold header_effect hs http_ctx_init)"
    and "needmore_law env" and "recycle_law env" and "m_ctx st = http_ctx_init" and "pos_ok (m_in st)"
    and "errno_ok (m_errno st)" and "unread (m_in st) = content out' @ rest"
  shows "\<exists>n st'. http_parse_request n env (Some (line_reader k)) (Some (header_reader g))
        (Some (body_reader h)) st = Returned (RC 0, st') \<and>
    code (m_ctx st') = method_of meth \<and> request_uri (m_ctx st') = Some uri \<and> unread (m_in st') = rest \<and>
    m_udata st' = h bdy (fold (read_field g) (wire_fields hs) (k (method_of meth) (Some uri) 1 1 (m_udata st)))"
proof -
  have u: "unread (m_in st) = request_text meth '' '' uri '' '' 1 1 @ crlf @ headers_text (wire_fields hs) @
      crlf @ frame_text (Whole bdy) @ rest"
    using send_request_writes [OF assms(1,3)] assms(2,13) by simp
  have b: "blanks '' ''" by (simp add: blanks_def ISSPACE_def)
  obtain r where l: "stream_ok (m_in st)" "0 \<le> br_start (first_line (line_ctx st))"
      "drop (nat (br_start (first_line (line_ctx st)))) (sbuf (m_in st)) = request_text meth '' '' uri '' '' 1 1 @ crlf @ r"
      "br_start (first_line (line_ctx st)) + int (length (request_text meth '' '' uri '' '' 1 1)) + 2 \<le> seod (m_in st)"
    unfolding line_ctx_simps using line_layout [OF assms(11) u] by blast
  note p = parse_request_line_text [OF l assms(4) b assms(5) b _ _ assms(12), of env, unfolded line_ctx_simps]
  show ?thesis
    using req.message_rounds [OF assms(8-11) u p assms(6), of k g h] assms(7)
    by (simp add: http_parse_request_def same_head_def left_over_def) blast
qed

definition sample_fields :: "(string \<times> string) list" where
  "sample_fields = [(''Host'', ''h''), (''Content-Length'', ''3'')]"

theorem request_roundtrip_witness:
  "\<exists>out' n st'. send_request (list_out 4096) [] ''POST'' ''/a'' sample_fields ''abc'' = (RC 0, out') \<and>
     http_parse_request n fragment_env (Some (line_reader note_line)) (Some (header_reader note_field))
       (Some (body_reader note_body)) (fragment_state (out' @ ''GET'') [] []) = Returned (RC 0, st') \<and>
     unread (m_in st') = ''GET'' \<and>
     m_udata st' = [''4'', ''/a'', ''Host'', ''h'', ''Content-Length'', ''3'', ''abc'']"
proof -
  let ?out = "''POST /a HTTP/1.1'' @ crlf @ ''Host: h'' @ crlf @ ''Content-Length: 3'' @ crlf @ crlf @ ''abc''"
  have s: "send_request (list_out 4096) [] ''POST'' ''/a'' sample_fields ''abc'' = (RC 0, ?out)"
    by (simp add: send_request_def http_start_request_def list_out_def sample_fields_def send_rest_def
        http_add_header_field_def http_end_of_header_def http_add_body_def Let_def)
  have *: "token ''POST''" "token ''/a''" "list_all good_field (wire_fields sample_fields)"
    "announced (Whole ''abc'') (fold header_effect sample_fields http_ctx_init)" by code_simp+
  have m: "method_of ''POST'' = 4" "note_body ''abc'' (fold (read_field note_field) (wire_fields sample_fields)
      (note_line 4 (Some ''/a'') 1 1 [])) = [''4'', ''/a'', ''Host'', ''h'', ''Content-Length'', ''3'', ''abc'']"
    by code_simp+
  show ?thesis
    using request_roundtrip [OF list_out_law _ s * fragment_needmore fragment_recycle_law, of
        "fragment_state (?out @ ''GET'') [] []" "''GET''" note_line note_field note_body] s m
    by fastforce
qed

text \<open>
  C7. A response written with \<open>http_start_response\<close> and the same functions is read back by
  \<open>http_parse_response\<close>, with its status number, header fields and body; the reason phrase
  is not kept.
\<close>

theorem response_roundtrip:
  assumes "out_law oe content" and "content out = []" and "status < 2 ^ 31" and "CR \<notin> set phrase"
    and "send_response oe out (int status) phrase hs bdy = (RC 0, out')"
    and "list_all good_field (wire_fields hs)"
    and "announced (Whole bdy) (fold header_effect hs http_ctx_init)"
    and "needmore_law env" and "recycle_law env" and "m_ctx st = http_ctx_init" and "pos_ok (m_in st)"
    and "errno_ok (m_errno st)" and "unread (m_in st) = content out' @ rest"
  shows "\<exists>n st'. http_parse_response n env (Some (line_reader k)) (Some (header_reader g))
        (Some (body_reader h)) st = Returned (RC 0, st') \<and>
    code (m_ctx st') = int status \<and> unread (m_in st') = rest \<and>
    m_udata st' = h bdy (fold (read_field g) (wire_fields hs) (k (int status) None 1 1 (m_udata st)))"
proof -
  let ?L = "status_text 1 1 '' '' status ('' '' @ phrase)"
  have u: "unread (m_in st) = ?L @ crlf @ headers_text (wire_fields hs) @ crlf @ frame_text (Whole bdy) @ rest"
    using send_response_writes [OF assms(1) _ assms(5)] assms(2,3,13) by (simp add: int_ok_nat)
  have b: "blanks '' ''" "CR \<notin> set ('' '' @ phrase)" "\<not> c_isdigit (hd (('' '' @ phrase) @ crlf))"
    using assms(4) by (simp_all add: blanks_def ISSPACE_def c_isdigit_def)
  obtain r where l: "stream_ok (m_in st)" "0 \<le> br_start (first_line (line_ctx st))"
      "drop (nat (br_start (first_line (line_ctx st)))) (sbuf (m_in st)) = ?L @ crlf @ r"
      "br_start (first_line (line_ctx st)) + int (length ?L) + 2 \<le> seod (m_in st)"
    unfolding line_ctx_simps using line_layout [OF assms(11) u] by blast
  note p = parse_status_line_text [OF l b _ _ assms(3,12), of env, unfolded line_ctx_simps]
  have c: "request_uri (line_ctx st) = None" using assms(10) by (simp add: line_ctx_def http_ctx_init_def)
  show ?thesis
    using resp.message_rounds [OF assms(8-11) u p assms(6), of k g h] assms(7) c
    by (simp add: http_parse_response_def same_head_def left_over_def) blast
qed

theorem response_roundtrip_witness:
  "\<exists>out' n st'. send_response (list_out 4096) [] 200 ''OK'' sample_fields ''abc'' = (RC 0, out') \<and>
     http_parse_response n fragment_env (Some (line_reader note_line)) (Some (header_reader note_field))
       (Some (body_reader note_body)) (fragment_state out' [] []) = Returned (RC 0, st') \<and>
     code (m_ctx st') = 200 \<and> unread (m_in st') = [] \<and>
     m_udata st' = [''200'', [], ''Host'', ''h'', ''Content-Length'', ''3'', ''abc'']"
proof -
  let ?out = "''HTTP/1.1 200 OK'' @ crlf @ ''Host: h'' @ crlf @ ''Content-Length: 3'' @ crlf @ crlf @ ''abc''"
  have n: "show_int 200 = ''200''" by code_simp
  have s: "send_response (list_out 4096) [] (int 200) ''OK'' sample_fields ''abc'' = (RC 0, ?out)"
    by (simp add: send_response_def http_start_response_def list_out_def sample_fields_def send_rest_def
        http_add_header_field_def http_end_of_header_def http_add_body_def Let_def n)
  have *: "list_all good_field (wire_fields sample_fields)"
    "announced (Whole ''abc'') (fold header_effect sample_fields http_ctx_init)" by code_simp+
  have m: "note_body ''abc'' (fold (read_field note_field) (wire_fields sample_fields)
      (note_line (int 200) None 1 1 [])) = [''200'', [], ''Host'', ''h'', ''Content-Length'', ''3'', ''abc'']"
    by code_simp
  show ?thesis
    using response_roundtrip [OF list_out_law _ _ _ s * fragment_needmore fragment_recycle_law, of
        "fragment_state ?out [] []" "[]" note_line note_field note_body] s m
    by fastforce
qed

end
