(* ===== verification/HttpUri.thy ===== *)
theory HttpUri
  imports Bytes HttpCtx
begin

text \<open>
  URIs in src/src/mnhttp.c: \<open>mnhttp_uri_t\<close> with \<open>mnhttp_uri_init\<close>, \<open>mnhttp_uri_fini\<close>,
  \<open>mnhttp_uri_add_qterm\<close>, the parser \<open>mnhttp_uri_parse\<close>, and \<open>mnhttp_uri_start_request\<close>. A C string is its
  content (without null characters) and a pointer into it an offset; a failed \<open>assert\<close> is \<open>None\<close>.
  The hash of query terms is a parameter (\<open>hash_env\<close>).
\<close>

section \<open>Data\<close>

abbreviation (input) MNHTTPC_MESSAGE_SCHEME_UNDEF :: int where "MNHTTPC_MESSAGE_SCHEME_UNDEF \<equiv> -1"
abbreviation (input) MNHTTPC_MESSAGE_SCHEME_HTTP :: int where "MNHTTPC_MESSAGE_SCHEME_HTTP \<equiv> 0"
abbreviation (input) MNHTTPC_MESSAGE_SCHEME_HTTPS :: int where "MNHTTPC_MESSAGE_SCHEME_HTTPS \<equiv> 1"
abbreviation (input) MNHTTPC_MESSAGE_SCHEME_WS :: int where "MNHTTPC_MESSAGE_SCHEME_WS \<equiv> 2"
abbreviation (input) MNHTTPC_MESSAGE_SCHEME_WSS :: int where "MNHTTPC_MESSAGE_SCHEME_WSS \<equiv> 3"
abbreviation (input) MNHTTPC_MESSAGE_SCHEME_TCP :: int where "MNHTTPC_MESSAGE_SCHEME_TCP \<equiv> 4"
abbreviation (input) MNHTTPC_MESSAGE_SCHEME_UDP :: int where "MNHTTPC_MESSAGE_SCHEME_UDP \<equiv> 5"
abbreviation (input) MNHTTPC_MESSAGE_SCHEME_SERIAL :: int where "MNHTTPC_MESSAGE_SCHEME_SERIAL \<equiv> 6"

record ('b, 'h) mnhttp_uri =
  scheme :: int
  user :: "'b option"
  password :: "'b option"
  host :: "'b option"
  port :: "'b option"
  relative :: "'b option"
  path :: "'b option"
  qstring :: "'b option"
  fragment :: "'b option"
  qterms :: 'h
  qtermsz :: nat

text \<open>
  The hash of \<open>mncommon\<close>: an empty one (\<open>hash_init\<close>), \<open>hash_set_item\<close>, \<open>hash_is_empty\<close>, and the items in
  the order \<open>hash_first\<close> and \<open>hash_next\<close> give them.
\<close>

record ('b, 'h) hash_env =
  hash_init :: 'h
  hash_set_item :: "'h \<Rightarrow> 'b \<Rightarrow> 'b \<Rightarrow> 'h"
  hash_is_empty :: "'h \<Rightarrow> bool"
  hash_items :: "'h \<Rightarrow> ('b \<times> 'b) list"

section \<open>Making and changing a URI\<close>

definition mnhttp_uri_init :: "('b, 'h) hash_env \<Rightarrow> ('b, 'h) mnhttp_uri" where
  "mnhttp_uri_init he = \<lparr>scheme = MNHTTPC_MESSAGE_SCHEME_UNDEF, user = None, password = None, host = None,
     port = None, relative = None, path = None, qstring = None, fragment = None,
     qterms = hash_init he, qtermsz = 0\<rparr>"

text \<open>\<open>hash_fini\<close> leaves the hash unusable; the scheme keeps its value.\<close>

definition mnhttp_uri_fini :: "('b, 'h) hash_env \<Rightarrow> ('b, 'h) mnhttp_uri \<Rightarrow> ('b, 'h) mnhttp_uri" where
  "mnhttp_uri_fini he uri = uri\<lparr>user := None, password := None, host := None, port := None,
     relative := None, path := None, qstring := None, fragment := None, qterms := hash_init he, qtermsz := 0\<rparr>"

definition mnhttp_uri_add_qterm ::
  "'b bytes_env \<Rightarrow> ('b, 'h) hash_env \<Rightarrow> ('b, 'h) mnhttp_uri \<Rightarrow> 'b option \<Rightarrow> 'b option \<Rightarrow>
   ('b, 'h) mnhttp_uri option" where
  "mnhttp_uri_add_qterm be he uri key val = do {
     k \<leftarrow> key;
     v \<leftarrow> val;
     Some (uri\<lparr>qterms := hash_set_item he (qterms uri) k v, qtermsz := qtermsz uri + BSZ be k + BSZ be v\<rparr>)
   }"

section \<open>Parsing\<close>

text \<open>\<open>assert(f == NULL); f = v;\<close>\<close>

definition set_null :: "'b option \<Rightarrow> 'b \<Rightarrow> 'b option option" where
  "set_null f v = (if f = None then Some (Some v) else None)"

text \<open>\<open>strchr\<close> from an offset, as an offset.\<close>

definition strchr_from :: "string \<Rightarrow> nat \<Rightarrow> char \<Rightarrow> nat option" where
  "strchr_from s p c = map_option (\<lambda>i. p + i) (strchr (drop p s) c)"

text \<open>The scheme prefix: the scheme and where the rest begins.\<close>

definition parse_scheme :: "int \<Rightarrow> string \<Rightarrow> int \<times> nat" where
  "parse_scheme sch s =
     (if strstr s ''http://'' = Some 0 then (MNHTTPC_MESSAGE_SCHEME_HTTP, 7)
      else if strstr s ''https://'' = Some 0 then (MNHTTPC_MESSAGE_SCHEME_HTTPS, 8)
      else if strstr s ''ws://'' = Some 0 then (MNHTTPC_MESSAGE_SCHEME_WS, 5)
      else if strstr s ''wss://'' = Some 0 then (MNHTTPC_MESSAGE_SCHEME_WSS, 6)
      else if strstr s ''tcp://'' = Some 0 then (MNHTTPC_MESSAGE_SCHEME_TCP, 6)
      else if strstr s ''udp://'' = Some 0 then (MNHTTPC_MESSAGE_SCHEME_UDP, 6)
      else if strstr s ''serial://'' = Some 0 then (MNHTTPC_MESSAGE_SCHEME_SERIAL, 9)
      else (sch, 0))"

text \<open>\<open>bytes_new_from_str(s + p)\<close> and \<open>bytes_new_from_str_len(s + p, q - p)\<close>.\<close>

abbreviation from_str :: "'b bytes_env \<Rightarrow> string \<Rightarrow> nat \<Rightarrow> 'b" where
  "from_str be s p \<equiv> bytes_new_from_str be (drop p s)"

abbreviation from_range :: "'b bytes_env \<Rightarrow> string \<Rightarrow> nat \<Rightarrow> nat \<Rightarrow> 'b" where
  "from_range be s p q \<equiv> bytes_new_from_str_len be (drop p s) (q - p)"

text \<open>The part from the first slash on.\<close>

definition parse_path ::
  "'b bytes_env \<Rightarrow> ('b, 'h) mnhttp_uri \<Rightarrow> string \<Rightarrow> nat \<Rightarrow> ('b, 'h) mnhttp_uri option" where
  "parse_path be uri s ppath =
     (if scheme uri = MNHTTPC_MESSAGE_SCHEME_SERIAL then Some (uri\<lparr>path := Some (from_str be s ppath)\<rparr>)
      else do {
        rel \<leftarrow> set_null (relative uri) (from_str be s ppath);
        case strchr_from s ppath (CHR ''?'') of
          Some q \<Rightarrow> (let pqstring = q + 1 in do {
            (qs, fr) \<leftarrow> (case strchr_from s pqstring (CHR ''#'') of
               Some pfragment \<Rightarrow> do {
                 qs \<leftarrow> set_null (qstring uri) (from_range be s pqstring pfragment);
                 fr \<leftarrow> set_null (fragment uri) (from_str be s pfragment);
                 Some (qs, fr)
               }
             | None \<Rightarrow> do {
                 qs \<leftarrow> set_null (qstring uri) (from_str be s pqstring);
                 Some (qs, fragment uri)
               });
            pa \<leftarrow> set_null (path uri) (from_range be s ppath (pqstring - 1));
            Some (uri\<lparr>relative := rel, qstring := qs, fragment := fr, path := pa\<rparr>)
          })
        | None \<Rightarrow>
            (case strchr_from s ppath (CHR ''#'') of
               Some pfragment \<Rightarrow> do {
                 fr \<leftarrow> set_null (fragment uri) (from_str be s pfragment);
                 pa \<leftarrow> set_null (path uri) (from_range be s ppath pfragment);
                 Some (uri\<lparr>relative := rel, fragment := fr, path := pa\<rparr>)
               }
             | None \<Rightarrow> do {
                 pa \<leftarrow> set_null (path uri) (from_str be s ppath);
                 Some (uri\<lparr>relative := rel, path := pa\<rparr>)
               })
      })"

text \<open>
  The part before the slash, if there is one (\<open>lim\<close>): its user and password, then its host
  and port. Without a slash the last component runs to the end of the string.
\<close>

definition before :: "nat \<Rightarrow> nat option \<Rightarrow> bool" where
  "before p lim = (case lim of None \<Rightarrow> True | Some l \<Rightarrow> p < l)"

definition upto :: "'b bytes_env \<Rightarrow> string \<Rightarrow> nat \<Rightarrow> nat option \<Rightarrow> 'b" where
  "upto be s p lim = (case lim of None \<Rightarrow> from_str be s p | Some l \<Rightarrow> from_range be s p l)"

definition parse_user ::
  "'b bytes_env \<Rightarrow> ('b, 'h) mnhttp_uri \<Rightarrow> string \<Rightarrow> nat \<Rightarrow> nat \<Rightarrow> ('b, 'h) mnhttp_uri option" where
  "parse_user be uri s p0 phost =
     (case strchr_from s p0 (CHR '':'') of
        Some puser \<Rightarrow>
          if puser < phost then do {
            u \<leftarrow> set_null (user uri) (from_range be s p0 puser);
            pw \<leftarrow> set_null (password uri) (from_range be s (puser + 1) phost);
            Some (uri\<lparr>user := u, password := pw\<rparr>)
          } else do {
            u \<leftarrow> set_null (user uri) (from_range be s p0 phost);
            Some (uri\<lparr>user := u\<rparr>)
          }
      | None \<Rightarrow> do {
          u \<leftarrow> set_null (user uri) (from_range be s p0 phost);
          Some (uri\<lparr>user := u\<rparr>)
        })"

definition parse_hostport ::
  "'b bytes_env \<Rightarrow> ('b, 'h) mnhttp_uri \<Rightarrow> string \<Rightarrow> nat \<Rightarrow> nat option \<Rightarrow> ('b, 'h) mnhttp_uri option" where
  "parse_hostport be uri s phost lim =
     (case strchr_from s phost (CHR '':'') of
        Some pport \<Rightarrow>
          if before pport lim then do {
            h \<leftarrow> set_null (host uri) (from_range be s phost pport);
            p \<leftarrow> set_null (port uri) (upto be s (pport + 1) lim);
            Some (uri\<lparr>host := h, port := p\<rparr>)
          } else do {
            h \<leftarrow> set_null (host uri) (upto be s phost lim);
            Some (uri\<lparr>host := h\<rparr>)
          }
      | None \<Rightarrow> do {
          h \<leftarrow> set_null (host uri) (upto be s phost lim);
          Some (uri\<lparr>host := h\<rparr>)
        })"

definition parse_authority ::
  "'b bytes_env \<Rightarrow> ('b, 'h) mnhttp_uri \<Rightarrow> string \<Rightarrow> nat \<Rightarrow> nat option \<Rightarrow> ('b, 'h) mnhttp_uri option" where
  "parse_authority be uri s p0 lim =
     (case strchr_from s p0 (CHR ''@'') of
        Some phost \<Rightarrow>
          if before phost lim then do {
            uri1 \<leftarrow> parse_user be uri s p0 phost;
            parse_hostport be uri1 s (phost + 1) lim
          } else parse_hostport be uri s p0 lim
      | None \<Rightarrow> parse_hostport be uri s p0 lim)"

text \<open>The conventional ports, and the scheme of a URI that has none.\<close>

definition default_port :: "'b bytes_env \<Rightarrow> ('b, 'h) mnhttp_uri \<Rightarrow> ('b, 'h) mnhttp_uri" where
  "default_port be uri =
     (if bytes_is_null_or_empty be (port uri) then
        (if scheme uri = MNHTTPC_MESSAGE_SCHEME_HTTPS \<or> scheme uri = MNHTTPC_MESSAGE_SCHEME_WSS
         then uri\<lparr>port := Some (bytes_new_from_str be ''443'')\<rparr>
         else if scheme uri = MNHTTPC_MESSAGE_SCHEME_HTTP \<or> scheme uri = MNHTTPC_MESSAGE_SCHEME_WS
         then uri\<lparr>port := Some (bytes_new_from_str be ''80'')\<rparr>
         else uri\<lparr>port := None\<rparr>)
      else uri)"

definition default_scheme :: "'b bytes_env \<Rightarrow> ('b, 'h) mnhttp_uri \<Rightarrow> ('b, 'h) mnhttp_uri" where
  "default_scheme be uri =
     (if scheme uri = MNHTTPC_MESSAGE_SCHEME_UNDEF then
        (if bytes_cmp be (port uri) (Some (bytes_new_from_str be ''443'')) = 0
         then uri\<lparr>scheme := MNHTTPC_MESSAGE_SCHEME_HTTPS\<rparr>
         else uri\<lparr>scheme := MNHTTPC_MESSAGE_SCHEME_HTTP\<rparr>)
      else uri)"

definition mnhttp_uri_parse ::
  "'b bytes_env \<Rightarrow> ('b, 'h) mnhttp_uri \<Rightarrow> string \<Rightarrow> ('b, 'h) mnhttp_uri option" where
  "mnhttp_uri_parse be uri s =
     (let (sch, p0) = parse_scheme (scheme uri) s; uri0 = uri\<lparr>scheme := sch\<rparr> in do {
        uri2 \<leftarrow> (case strchr_from s p0 (CHR ''/'') of
           Some ppath \<Rightarrow> do {
             uri1 \<leftarrow> parse_path be uri0 s ppath;
             parse_authority be uri1 s p0 (Some ppath)
           }
         | None \<Rightarrow> parse_authority be uri0 s p0 None);
        Some (default_scheme be (default_port be uri2))
      })"

section \<open>Writing a request line\<close>

text \<open>
  The query terms, the first without and the others with a leading ampersand. All terms are encoded into the same two
  buffers: a term leaves the buffers as the encoder left them, and before each further term their sizes are set back to
  \<open>encsz\<close>.
\<close>

definition write_qterm ::
  "'b bytes_env \<Rightarrow> 'o out_env \<Rightarrow> 'b \<Rightarrow> 'b \<Rightarrow> string \<Rightarrow> nat \<Rightarrow> 'o \<Rightarrow> 'b \<times> 'b \<Rightarrow> (res \<times> 'o \<times> 'b \<times> 'b) option" where
  "write_qterm be oe keyenc valueenc sep err out item =
     (let ke = bytes_str_urlencode2 be keyenc (fst item); ve = bytes_str_urlencode2 be valueenc (snd item) in do {
        ks \<leftarrow> BCDATA be ke;
        vs \<leftarrow> BCDATA be ve;
        Some (case bytestream_nprintf oe out (BSZ be ke + BSZ be ve + 8) (sep @ ks @ ''='' @ vs) of
                (r, out1) \<Rightarrow> (if r < 0 then ERR HTTP_START_REQUEST err else RC 0, out1, ke, ve))
      })"

fun write_qterms ::
  "'b bytes_env \<Rightarrow> 'o out_env \<Rightarrow> nat \<Rightarrow> 'b \<Rightarrow> 'b \<Rightarrow> 'o \<Rightarrow> ('b \<times> 'b) list \<Rightarrow> (res \<times> 'o) option" where
  "write_qterms be oe encsz keyenc valueenc out [] = Some (RC 0, out)"
| "write_qterms be oe encsz keyenc valueenc out (it # items) = do {
     let keyenc1 = bytes_set_sz be keyenc encsz;
     let valueenc1 = bytes_set_sz be valueenc encsz;
     (r, out1, keyenc2, valueenc2) \<leftarrow> write_qterm be oe keyenc1 valueenc1 ''&'' 3 out it;
     if r \<noteq> RC 0 then Some (r, out1) else write_qterms be oe encsz keyenc2 valueenc2 out1 items
   }"

definition write_query ::
  "'b bytes_env \<Rightarrow> ('b, 'h) hash_env \<Rightarrow> 'o out_env \<Rightarrow> ('b, 'h) mnhttp_uri \<Rightarrow> 'b \<Rightarrow> 'o \<Rightarrow> (res \<times> 'o) option" where
  "write_query be he oe uri rel out = do {
     (r0, out0) \<leftarrow>
       (if qstring uri = None then do {
          c \<leftarrow> rd (BDATA be rel) (int (BSZ be rel) - 1);
          Some (if c \<noteq> CHR ''?'' then
                  (case bytestream_cat oe out 1 ''?'' of (r, out1) \<Rightarrow>
                     (if r < 0 then ERR HTTP_START_REQUEST 1 else RC 0, out1))
                else (RC 0, out))
        } else Some (RC 0, out));
     if r0 \<noteq> RC 0 then Some (r0, out0) else
       (let encsz = qtermsz uri * 3 + 1; ke = bytes_new be encsz; ve = bytes_new be encsz in
        case hash_items he (qterms uri) of
          [] \<Rightarrow> Some (RC 0, out0)
        | it # items \<Rightarrow> do {
            (r, out1, ke1, ve1) \<leftarrow> write_qterm be oe ke ve [] 2 out0 it;
            if r \<noteq> RC 0 then Some (r, out1) else write_qterms be oe encsz ke1 ve1 out1 items
          })
   }"

definition mnhttp_uri_start_request ::
  "'b bytes_env \<Rightarrow> ('b, 'h) hash_env \<Rightarrow> 'o out_env \<Rightarrow> ('b, 'h) mnhttp_uri \<Rightarrow> 'o \<Rightarrow> string \<Rightarrow> (res \<times> 'o) option" where
  "mnhttp_uri_start_request be he oe uri out method = do {
     rel \<leftarrow> relative uri;
     rs \<leftarrow> BCDATA be rel;
     case bytestream_nprintf oe out (length method + BSZ be rel + 16) (method @ '' '' @ rs) of
       (r, out1) \<Rightarrow>
         if r < 0 then Some (ERR HTTP_START_REQUEST 1, out1) else do {
           (r2, out2) \<leftarrow> (if \<not> hash_is_empty he (qterms uri) then write_query be he oe uri rel out1
                          else Some (RC 0, out1));
           if r2 \<noteq> RC 0 then Some (r2, out2) else
             (case bytestream_cat oe out2 11 ('' HTTP/1.1'' @ crlf) of (r3, out3) \<Rightarrow>
                Some (if r3 < 0 then ERR HTTP_START_REQUEST 4 else RC 0, out3))
         }
   }"

section \<open>Finding the components of a text\<close>

lemma strchr_from_append:
  "p = length A \<Longrightarrow> strchr_from (A @ B) p c = map_option (\<lambda>i. p + i) (strchr B c)"
  by (simp add: strchr_from_def)

text \<open>A component that may be absent.\<close>

definition holds_opt :: "'b bytes_env \<Rightarrow> 'b option \<Rightarrow> string option \<Rightarrow> bool" where
  "holds_opt be b so = (case so of None \<Rightarrow> b = None | Some s \<Rightarrow> holds be b s)"

lemma holds_opt_simps [simp]: "holds_opt be b None \<longleftrightarrow> b = None" "holds_opt be b (Some s) \<longleftrightarrow> holds be b s"
  by (simp_all add: holds_opt_def)

text \<open>The end of the authority: a limit, or the end of the string.\<close>

definition lim_at :: "string \<Rightarrow> nat option \<Rightarrow> nat \<Rightarrow> bool" where
  "lim_at s lim e \<longleftrightarrow> e \<le> length s \<and> (case lim of None \<Rightarrow> e = length s | Some l \<Rightarrow> l = e)"

lemma holds_from_range:
  "bytes_law be \<Longrightarrow> p = length A \<Longrightarrow> q = length (A @ B) \<Longrightarrow> holds be (Some (from_range be (A @ B @ C) p q)) B"
  by (simp add: holds_new)

lemma holds_from_str: "bytes_law be \<Longrightarrow> p = length A \<Longrightarrow> holds be (Some (from_str be (A @ B) p)) B"
  by (simp add: holds_new)

lemma holds_upto:
  assumes "bytes_law be" and "lim_at (A @ B @ C) lim (length (A @ B))" and "p = length A"
  shows "holds be (Some (upto be (A @ B @ C) p lim)) B"
proof (cases lim)
  case None
  then have "C = []" using assms(2) by (simp add: lim_at_def)
  then show ?thesis using None holds_from_str [OF assms(1,3), of B] by (simp add: upto_def)
next
  case (Some l)
  then have "l = length (A @ B)" using assms(2) by (simp add: lim_at_def)
  then show ?thesis using Some holds_from_range [OF assms(1,3), of l B C] by (simp add: upto_def)
qed

text \<open>How optional components are written.\<close>

definition port_text :: "string option \<Rightarrow> string" where
  "port_text po = (case po of None \<Rightarrow> [] | Some p \<Rightarrow> CHR '':'' # p)"

definition user_text :: "(string \<times> string option) option \<Rightarrow> string" where
  "user_text ui =
     (case ui of None \<Rightarrow> [] | Some (u, None) \<Rightarrow> u @ ''@'' | Some (u, Some pw) \<Rightarrow> u @ '':'' @ pw @ ''@'')"

lemma parse_hostport_text:
  assumes law: "bytes_law be" and s: "s = A @ h @ port_text po @ rest"
    and lim: "lim_at s lim (length (A @ h @ port_text po))"
    and h: "CHR '':'' \<notin> set h" and null: "host uri = None" "port uri = None"
  shows "\<exists>hb pb. parse_hostport be uri s (length A) lim = Some (uri\<lparr>host := hb, port := pb\<rparr>) \<and>
    holds be hb h \<and> holds_opt be pb po"
proof (cases po)
  case None
  have hold: "holds be (Some (upto be s (length A) lim)) h"
    using holds_upto [OF law, of A h rest lim "length A"] lim by (simp add: s None port_text_def)
  have "(case strchr_from s (length A) (CHR '':'') of None \<Rightarrow> False | Some q \<Rightarrow> before q lim) = False"
  proof (cases lim)
    case l: None
    then have "rest = []" using lim by (simp add: lim_at_def s)
    then show ?thesis using h by (simp add: s None port_text_def strchr_from_append strchr_not_in)
  next
    case (Some l)
    then have "l = length (A @ h)" using lim by (simp add: lim_at_def None port_text_def)
    then show ?thesis
      using h by (auto simp: s None port_text_def strchr_from_append strchr_append2 before_def Some split: option.splits)
  qed
  then have "parse_hostport be uri s (length A) lim = Some (uri\<lparr>host := Some (upto be s (length A) lim)\<rparr>)"
    using null by (auto simp: parse_hostport_def set_null_def split: option.splits if_splits)
  moreover have "uri\<lparr>host := Some (upto be s (length A) lim)\<rparr> = uri\<lparr>host := Some (upto be s (length A) lim), port := None\<rparr>"
    using null by simp
  ultimately show ?thesis using hold None by fastforce
next
  case (Some p)
  have s': "s = (A @ h @ '':'') @ p @ rest" by (simp add: s Some port_text_def)
  have f: "strchr_from s (length A) (CHR '':'') = Some (length (A @ h))"
    using h by (simp add: s Some port_text_def strchr_from_append strchr_append)
  have b: "before (length (A @ h)) lim"
    using lim by (cases lim) (auto simp: lim_at_def before_def Some port_text_def)
  have "holds be (Some (from_range be s (length A) (length (A @ h)))) h"
    unfolding s using holds_from_range [OF law, of "length A" A _ h] by simp
  moreover have "holds be (Some (upto be s (length (A @ h) + 1) lim)) p"
    unfolding s' by (rule holds_upto [OF law]) (use lim in \<open>simp_all add: s' Some port_text_def\<close>)
  moreover have "parse_hostport be uri s (length A) lim =
      Some (uri\<lparr>host := Some (from_range be s (length A) (length (A @ h))),
                port := Some (upto be s (length (A @ h) + 1) lim)\<rparr>)"
    using null b by (simp add: parse_hostport_def f set_null_def)
  ultimately show ?thesis unfolding Some holds_opt_simps by blast
qed

lemma parse_user_text:
  assumes law: "bytes_law be" and s: "s = A @ user_text (Some (u, po)) @ rest"
    and u: "CHR '':'' \<notin> set u" and null: "user uri = None" "password uri = None"
  shows "\<exists>ub pb. parse_user be uri s (length A) (length (A @ user_text (Some (u, po))) - 1) =
      Some (uri\<lparr>user := ub, password := pb\<rparr>) \<and> holds be ub u \<and> holds_opt be pb po"
proof (cases po)
  case None
  let ?ph = "length (A @ u)"
  have ph: "length (A @ user_text (Some (u, po))) - 1 = ?ph" by (simp add: None user_text_def)
  have s': "s = A @ u @ CHR ''@'' # rest" by (simp add: s None user_text_def)
  have "(case strchr_from s (length A) (CHR '':'') of None \<Rightarrow> False | Some q \<Rightarrow> q < ?ph) = False"
    using u by (auto simp: s' strchr_from_append strchr_append2 split: option.splits)
  then have "parse_user be uri s (length A) ?ph = Some (uri\<lparr>user := Some (from_range be s (length A) ?ph)\<rparr>)"
    using null by (auto simp: parse_user_def set_null_def split: option.splits if_splits)
  moreover have "holds be (Some (from_range be s (length A) ?ph)) u"
    unfolding s' using holds_from_range [OF law, of "length A" A ?ph u] by simp
  moreover have "uri\<lparr>user := Some (from_range be s (length A) ?ph)\<rparr> =
      uri\<lparr>user := Some (from_range be s (length A) ?ph), password := None\<rparr>"
    using null by simp
  ultimately show ?thesis unfolding ph by (metis None holds_opt_simps(1))
next
  case (Some pw)
  let ?ph = "length (A @ u @ '':'' @ pw)"
  have ph: "length (A @ user_text (Some (u, po))) - 1 = ?ph" by (simp add: Some user_text_def)
  have s': "s = A @ u @ CHR '':'' # pw @ CHR ''@'' # rest" "s = (A @ u @ '':'') @ pw @ CHR ''@'' # rest"
    by (simp_all add: s Some user_text_def)
  have f: "strchr_from s (length A) (CHR '':'') = Some (length (A @ u))"
    using u by (simp add: s'(1) strchr_from_append strchr_append)
  have "holds be (Some (from_range be s (length A) (length (A @ u)))) u"
    unfolding s'(1) using holds_from_range [OF law, of "length A" A _ u] by simp
  moreover have "holds be (Some (from_range be s (length (A @ u) + 1) ?ph)) pw"
    unfolding s'(2) by (rule holds_from_range [OF law]) simp_all
  moreover have "parse_user be uri s (length A) ?ph =
      Some (uri\<lparr>user := Some (from_range be s (length A) (length (A @ u))),
                password := Some (from_range be s (length (A @ u) + 1) ?ph)\<rparr>)"
    using null by (simp add: parse_user_def f set_null_def)
  ultimately show ?thesis unfolding ph by (metis Some holds_opt_simps(2))
qed

text \<open>The authority: user information, host and port.\<close>

definition auth_text :: "(string \<times> string option) option \<Rightarrow> string \<Rightarrow> string option \<Rightarrow> string" where
  "auth_text ui h po = user_text ui @ h @ port_text po"

definition good_auth :: "(string \<times> string option) option \<Rightarrow> string \<Rightarrow> string option \<Rightarrow> bool" where
  "good_auth ui h po \<longleftrightarrow>
     CHR '':'' \<notin> set h \<and> CHR ''/'' \<notin> set (auth_text ui h po) \<and> CHR ''@'' \<notin> set (h @ port_text po) \<and>
     (case ui of None \<Rightarrow> True
      | Some (u, pw) \<Rightarrow> CHR '':'' \<notin> set u \<and> CHR ''@'' \<notin> set u \<and> (\<forall>p \<in> set_option pw. CHR ''@'' \<notin> set p))"

text \<open>Without a user no \<open>@\<close> is found before the end of the authority.\<close>

lemma no_user_sign:
  assumes "s = A @ B @ rest" and "lim_at s lim (length (A @ B))" and "CHR ''@'' \<notin> set B"
  shows "(case strchr_from s (length A) (CHR ''@'') of None \<Rightarrow> False | Some q \<Rightarrow> before q lim) = False"
proof (cases lim)
  case None
  then have "rest = []" using assms(1,2) by (simp add: lim_at_def)
  then show ?thesis using assms(1,3) by (simp add: strchr_from_append strchr_not_in)
next
  case (Some l)
  then have l: "l = length (A @ B)" using assms(2) by (simp add: lim_at_def)
  have "strchr_from s (length A) (CHR ''@'') = map_option (\<lambda>i. length (A @ B) + i) (strchr rest (CHR ''@''))"
    using strchr_append2 [OF assms(3), of rest] by (simp add: assms(1) strchr_from_append option.map_comp comp_def add.assoc)
  then show ?thesis by (auto simp: before_def Some l split: option.splits)
qed

lemma parse_authority_user:
  assumes law: "bytes_law be" and s: "s = A @ auth_text (Some (u, pw)) h po @ rest"
    and lim: "lim_at s lim (length (A @ auth_text (Some (u, pw)) h po))" and good: "good_auth (Some (u, pw)) h po"
    and null: "host uri = None" "port uri = None" "user uri = None" "password uri = None"
  shows "\<exists>hb pb ub wb. parse_authority be uri s (length A) lim =
      Some (uri\<lparr>user := ub, password := wb, host := hb, port := pb\<rparr>) \<and> holds be hb h \<and> holds_opt be pb po \<and>
    holds be ub u \<and> holds_opt be wb pw"
proof -
  let ?U = "user_text (Some (u, pw))"
  obtain V where V: "?U = V @ ''@''" "CHR ''@'' \<notin> set V"
    using good by (cases pw) (auto simp: user_text_def good_auth_def)
  have s': "s = A @ ?U @ h @ port_text po @ rest" "s = A @ V @ CHR ''@'' # h @ port_text po @ rest"
    by (simp_all add: s auth_text_def V(1))
  have f: "strchr_from s (length A) (CHR ''@'') = Some (length (A @ V))"
    using V(2) by (simp add: s'(2) strchr_from_append strchr_append)
  have b: "before (length (A @ V)) lim"
    using lim by (cases lim) (auto simp: lim_at_def before_def auth_text_def V(1))
  have e: "length (A @ ?U) - 1 = length (A @ V)" "length (A @ V) + 1 = length (A @ ?U)" by (simp_all add: V(1))
  obtain ub wb where 1: "parse_user be uri s (length A) (length (A @ V)) = Some (uri\<lparr>user := ub, password := wb\<rparr>)"
      "holds be ub u" "holds_opt be wb pw"
    using parse_user_text [OF law s'(1), of uri] good null e by (auto simp: good_auth_def)
  have s2: "s = (A @ ?U) @ h @ port_text po @ rest" using s'(1) by simp
  obtain hb pb where 2: "parse_hostport be (uri\<lparr>user := ub, password := wb\<rparr>) s (length (A @ ?U)) lim =
      Some (uri\<lparr>user := ub, password := wb, host := hb, port := pb\<rparr>)" "holds be hb h" "holds_opt be pb po"
    using parse_hostport_text [OF law s2, of lim "uri\<lparr>user := ub, password := wb\<rparr>"] lim good null
    by (auto simp: auth_text_def good_auth_def)
  have "parse_authority be uri s (length A) lim = Some (uri\<lparr>user := ub, password := wb, host := hb, port := pb\<rparr>)"
    using 1(1) 2(1) [folded e(2)] b by (simp add: parse_authority_def f)
  with 1 2 show ?thesis by blast
qed

lemma parse_authority_text:
  assumes law: "bytes_law be" and s: "s = A @ auth_text ui h po @ rest"
    and lim: "lim_at s lim (length (A @ auth_text ui h po))" and good: "good_auth ui h po"
    and null: "host uri = None" "port uri = None" "user uri = None" "password uri = None"
  shows "\<exists>hb pb ub wb. parse_authority be uri s (length A) lim =
      Some (uri\<lparr>user := ub, password := wb, host := hb, port := pb\<rparr>) \<and> holds be hb h \<and> holds_opt be pb po \<and>
    holds_opt be ub (map_option fst ui) \<and> holds_opt be wb (Option.bind ui snd)"
proof (cases ui)
  case None
  have sh: "s = A @ h @ port_text po @ rest" by (simp add: s auth_text_def None user_text_def)
  have "(case strchr_from s (length A) (CHR ''@'') of None \<Rightarrow> False | Some q \<Rightarrow> before q lim) = False"
    by (rule no_user_sign [of _ _ "h @ port_text po" rest])
      (use lim good in \<open>simp_all add: sh None auth_text_def user_text_def good_auth_def\<close>)
  then have eq: "parse_authority be uri s (length A) lim = parse_hostport be uri s (length A) lim"
    by (auto simp: parse_authority_def split: option.splits if_splits)
  obtain hb pb where hp: "parse_hostport be uri s (length A) lim = Some (uri\<lparr>host := hb, port := pb\<rparr>)"
      "holds be hb h" "holds_opt be pb po"
    using parse_hostport_text [OF law sh, of lim uri] lim good null
    by (auto simp: auth_text_def None user_text_def good_auth_def)
  have "uri\<lparr>host := hb, port := pb\<rparr> = uri\<lparr>user := None, password := None, host := hb, port := pb\<rparr>"
    using null by simp
  then have "parse_authority be uri s (length A) lim =
      Some (uri\<lparr>user := None, password := None, host := hb, port := pb\<rparr>)"
    using eq hp(1) by simp
  with hp(2,3) show ?thesis by (auto simp: None)
next
  case (Some up)
  obtain u pw where up: "ui = Some (u, pw)" using Some by (cases up) simp
  show ?thesis
    using parse_authority_user [OF law s [unfolded up] lim [unfolded up] good [unfolded up] null] unfolding up by auto
qed

text \<open>What follows the authority: a path, and after it a query and a fragment.\<close>

definition tail_text :: "string \<Rightarrow> string option \<Rightarrow> string option \<Rightarrow> string" where
  "tail_text pa q f =
     pa @ (case q of None \<Rightarrow> [] | Some x \<Rightarrow> CHR ''?'' # x) @ (case f of None \<Rightarrow> [] | Some x \<Rightarrow> CHR ''#'' # x)"

definition good_tail :: "string \<Rightarrow> string option \<Rightarrow> string option \<Rightarrow> bool" where
  "good_tail pa q f \<longleftrightarrow> pa \<noteq> [] \<and> hd pa = CHR ''/'' \<and> CHR ''?'' \<notin> set pa \<and> CHR ''#'' \<notin> set pa \<and>
     (case q of None \<Rightarrow> (\<forall>x \<in> set_option f. CHR ''?'' \<notin> set x) | Some x \<Rightarrow> CHR ''#'' \<notin> set x)"

lemma strchr_from_in:
  "s = A @ B @ c # C \<Longrightarrow> c \<notin> set B \<Longrightarrow> p = length A \<Longrightarrow> strchr_from s p c = Some (length (A @ B))"
  by (simp add: strchr_from_append strchr_append)

lemma strchr_from_none: "s = A @ B \<Longrightarrow> c \<notin> set B \<Longrightarrow> p = length A \<Longrightarrow> strchr_from s p c = None"
  by (simp add: strchr_from_append strchr_not_in)

text \<open>Where the components of the tail end up.\<close>

definition tail_parsed ::
  "'b bytes_env \<Rightarrow> ('b, 'h) mnhttp_uri \<Rightarrow> string \<Rightarrow> string option \<Rightarrow> string option \<Rightarrow> ('b, 'h) mnhttp_uri option \<Rightarrow> bool" where
  "tail_parsed be uri pa q f r \<longleftrightarrow>
     (\<exists>rb ab qb fb. r = Some (uri\<lparr>relative := rb, path := ab, qstring := qb, fragment := fb\<rparr>) \<and>
        holds be rb (tail_text pa q f) \<and> holds be ab pa \<and> holds_opt be qb q \<and>
        holds_opt be fb (map_option (\<lambda>x. CHR ''#'' # x) f))"

definition tail_unset :: "('b, 'h) mnhttp_uri \<Rightarrow> bool" where
  "tail_unset uri \<longleftrightarrow> scheme uri \<noteq> MNHTTPC_MESSAGE_SCHEME_SERIAL \<and> relative uri = None \<and> path uri = None \<and>
     qstring uri = None \<and> fragment uri = None"

lemma relative_holds:
  "bytes_law be \<Longrightarrow> s = A @ tail_text pa q f \<Longrightarrow> holds be (Some (from_str be s (length A))) (tail_text pa q f)"
  by (simp add: holds_new)

lemma parse_path_query:
  assumes law: "bytes_law be" and s: "s = A @ tail_text pa (Some x) f" and good: "good_tail pa (Some x) f"
    and unset: "tail_unset uri"
  shows "tail_parsed be uri pa (Some x) f (parse_path be uri s (length A))"
proof -
  note rel = relative_holds [OF law s]
  note sn = set_null_def unset [unfolded tail_unset_def]
  have s1: "s = A @ pa @ CHR ''?'' # x @ (case f of None \<Rightarrow> [] | Some x \<Rightarrow> CHR ''#'' # x)"
    by (simp add: s tail_text_def)
  have fq: "strchr_from s (length A) (CHR ''?'') = Some (length (A @ pa))"
    by (rule strchr_from_in [OF s1]) (use good in \<open>simp_all add: good_tail_def\<close>)
  have ab: "holds be (Some (from_range be s (length A) (length (A @ pa)))) pa"
    unfolding s1 by (rule holds_from_range [OF law]) simp_all
  let ?p = "length (A @ pa) + 1"
  show ?thesis
  proof (cases f)
    case f: None
    have ff: "strchr_from s ?p (CHR ''#'') = None"
      by (rule strchr_from_none [of _ "A @ pa @ ''?''" x]) (use good in \<open>simp_all add: s1 f good_tail_def\<close>)
    have "holds be (Some (from_str be s ?p)) x"
      using holds_from_str [OF law, of ?p "A @ pa @ ''?''" x] by (simp add: s1 f)
    moreover have "parse_path be uri s (length A) = Some (uri\<lparr>relative := Some (from_str be s (length A)),
        path := Some (from_range be s (length A) (length (A @ pa))), qstring := Some (from_str be s ?p), fragment := None\<rparr>)"
      using ff by (simp add: parse_path_def fq sn Let_def)
    ultimately show ?thesis using rel ab unfolding tail_parsed_def by (auto simp: f)
  next
    case f: (Some y)
    have s2: "s = (A @ pa @ ''?'') @ x @ CHR ''#'' # y" by (simp add: s1 f)
    have ff: "strchr_from s ?p (CHR ''#'') = Some (length ((A @ pa @ ''?'') @ x))"
      by (rule strchr_from_in [OF s2]) (use good in \<open>simp_all add: good_tail_def\<close>)
    have "holds be (Some (from_range be s ?p (length ((A @ pa @ ''?'') @ x)))) x"
      unfolding s2 by (rule holds_from_range [OF law]) simp_all
    moreover have "holds be (Some (from_str be s (length ((A @ pa @ ''?'') @ x)))) (CHR ''#'' # y)"
      using holds_from_str [OF law refl, of "(A @ pa @ ''?'') @ x" "CHR ''#'' # y"] s2 by simp
    moreover have "parse_path be uri s (length A) = Some (uri\<lparr>relative := Some (from_str be s (length A)),
        path := Some (from_range be s (length A) (length (A @ pa))),
        qstring := Some (from_range be s ?p (length ((A @ pa @ ''?'') @ x))),
        fragment := Some (from_str be s (length ((A @ pa @ ''?'') @ x)))\<rparr>)"
      using ff by (simp add: parse_path_def fq sn Let_def)
    ultimately show ?thesis using rel ab unfolding tail_parsed_def by (auto simp: f)
  qed
qed

lemma parse_path_no_query:
  assumes law: "bytes_law be" and s: "s = A @ tail_text pa None f" and good: "good_tail pa None f"
    and unset: "tail_unset uri"
  shows "tail_parsed be uri pa None f (parse_path be uri s (length A))"
proof -
  note rel = relative_holds [OF law s]
  note sn = set_null_def unset [unfolded tail_unset_def]
  show ?thesis
  proof (cases f)
    case f: None
    have s1: "s = A @ pa" by (simp add: s tail_text_def f)
    have ff: "strchr_from s (length A) (CHR ''?'') = None" "strchr_from s (length A) (CHR ''#'') = None"
      by (rule strchr_from_none [OF s1]; use good in \<open>simp add: good_tail_def\<close>)+
    have "parse_path be uri s (length A) = Some (uri\<lparr>relative := Some (from_str be s (length A)),
        path := Some (from_str be s (length A)), qstring := None, fragment := None\<rparr>)"
      using ff by (simp add: parse_path_def sn)
    then show ?thesis using rel unfolding tail_parsed_def by (auto simp: f tail_text_def)
  next
    case f: (Some y)
    have s1: "s = A @ pa @ CHR ''#'' # y" by (simp add: s tail_text_def f)
    have f1: "strchr_from s (length A) (CHR ''?'') = None"
      by (rule strchr_from_none [OF s1]) (use good in \<open>simp_all add: good_tail_def f\<close>)
    have f2: "strchr_from s (length A) (CHR ''#'') = Some (length (A @ pa))"
      by (rule strchr_from_in [OF s1]) (use good in \<open>simp_all add: good_tail_def\<close>)
    have "holds be (Some (from_range be s (length A) (length (A @ pa)))) pa"
      unfolding s1 by (rule holds_from_range [OF law]) simp_all
    moreover have "holds be (Some (from_str be s (length (A @ pa)))) (CHR ''#'' # y)"
      using holds_from_str [OF law refl, of "A @ pa" "CHR ''#'' # y"] by (simp add: s1)
    moreover have "parse_path be uri s (length A) = Some (uri\<lparr>relative := Some (from_str be s (length A)),
        path := Some (from_range be s (length A) (length (A @ pa))), qstring := None,
        fragment := Some (from_str be s (length (A @ pa)))\<rparr>)"
      using f1 f2 by (simp add: parse_path_def sn)
    ultimately show ?thesis using rel unfolding tail_parsed_def by (auto simp: f)
  qed
qed

lemma parse_path_text:
  assumes "bytes_law be" and "s = A @ tail_text pa q f" and "good_tail pa q f" and "tail_unset uri"
  shows "tail_parsed be uri pa q f (parse_path be uri s (length A))"
proof (cases q)
  case None
  then show ?thesis using parse_path_no_query [of be s A pa f uri] assms by simp
next
  case (Some x)
  then show ?thesis using parse_path_query [of be s A pa x f uri] assms by simp
qed

section \<open>Whole URIs\<close>

definition schemes :: "(int \<times> string) list" where
  "schemes = [(MNHTTPC_MESSAGE_SCHEME_HTTP, ''http://''), (MNHTTPC_MESSAGE_SCHEME_HTTPS, ''https://''),
     (MNHTTPC_MESSAGE_SCHEME_WS, ''ws://''), (MNHTTPC_MESSAGE_SCHEME_WSS, ''wss://''),
     (MNHTTPC_MESSAGE_SCHEME_TCP, ''tcp://''), (MNHTTPC_MESSAGE_SCHEME_UDP, ''udp://'')]"

text \<open>The port of a URI that gives none, or an empty one.\<close>

definition conventional_port :: "int \<Rightarrow> string option \<Rightarrow> string option" where
  "conventional_port sch po =
     (if po \<noteq> None \<and> po \<noteq> Some [] then po
      else if sch = MNHTTPC_MESSAGE_SCHEME_HTTPS \<or> sch = MNHTTPC_MESSAGE_SCHEME_WSS then Some ''443''
      else if sch = MNHTTPC_MESSAGE_SCHEME_HTTP \<or> sch = MNHTTPC_MESSAGE_SCHEME_WS then Some ''80''
      else None)"

lemma strstr_0_take: "strstr xs ys = Some 0 \<longleftrightarrow> take (length ys) xs = ys"
  by (subst strstr.simps) (auto split: list.split)

lemma parse_scheme_prefix:
  assumes "(sch, pre) \<in> set schemes"
  shows "parse_scheme x (pre @ rest) = (sch, length pre) \<and> sch \<noteq> -1 \<and> sch \<noteq> 6"
proof -
  have "(sch, pre) = (0, ''http://'') \<or> (sch, pre) = (1, ''https://'') \<or> (sch, pre) = (2, ''ws://'') \<or>
      (sch, pre) = (3, ''wss://'') \<or> (sch, pre) = (4, ''tcp://'') \<or> (sch, pre) = (5, ''udp://'')"
    using assms by (simp add: schemes_def)
  then show ?thesis by (elim disjE) (simp_all add: parse_scheme_def strstr_0_take)
qed

lemma default_port_holds:
  assumes "bytes_law be" and "holds_opt be (port uri) po"
  shows "\<exists>pb. default_port be uri = uri\<lparr>port := pb\<rparr> \<and> holds_opt be pb (conventional_port (scheme uri) po)"
proof -
  have e: "bytes_is_null_or_empty be (port uri) \<longleftrightarrow> po = None \<or> po = Some []"
    using assms by (cases po) (auto simp: bytes_lawD(6) [OF assms(1)] holds_def split: option.splits)
  show ?thesis
    by (rule exI [of _ "port (default_port be uri)"])
      (use assms in \<open>auto simp: default_port_def e conventional_port_def holds_new\<close>)
qed

text \<open>The tail of a URI that may have none.\<close>

type_synonym tail = "(string \<times> string option \<times> string option) option"

definition tail_of :: "tail \<Rightarrow> string" where
  "tail_of t = (case t of None \<Rightarrow> [] | Some (pa, q, f) \<Rightarrow> tail_text pa q f)"

definition tail_good :: "tail \<Rightarrow> bool" where
  "tail_good t = (case t of None \<Rightarrow> True | Some (pa, q, f) \<Rightarrow> good_tail pa q f)"

definition tail_held :: "'b bytes_env \<Rightarrow> ('b, 'h) mnhttp_uri \<Rightarrow> tail \<Rightarrow> bool" where
  "tail_held be uri t \<longleftrightarrow>
     holds_opt be (relative uri) (map_option (\<lambda>(pa, q, f). tail_text pa q f) t) \<and>
     holds_opt be (path uri) (map_option fst t) \<and>
     holds_opt be (qstring uri) (Option.bind t (\<lambda>(pa, q, f). q)) \<and>
     holds_opt be (fragment uri) (Option.bind t (\<lambda>(pa, q, f). map_option (\<lambda>x. CHR ''#'' # x) f))"

definition auth_unset :: "('b, 'h) mnhttp_uri \<Rightarrow> bool" where
  "auth_unset uri \<longleftrightarrow> user uri = None \<and> password uri = None \<and> host uri = None \<and> port uri = None"

text \<open>The parser's first half: the tail is taken off, the authority is still to be parsed.\<close>

lemma uri_parse_tail:
  assumes law: "bytes_law be" and s: "s = pre @ auth @ tail_of t" and na: "CHR ''/'' \<notin> set auth"
    and good: "tail_good t" and unset: "tail_unset uri0" "auth_unset uri0"
  shows "\<exists>uri1 lim. (case strchr_from s (length pre) (CHR ''/'') of
       Some ppath \<Rightarrow> do { uri1 \<leftarrow> parse_path be uri0 s ppath; parse_authority be uri1 s (length pre) (Some ppath) }
     | None \<Rightarrow> parse_authority be uri0 s (length pre) None) = parse_authority be uri1 s (length pre) lim \<and>
    lim_at s lim (length (pre @ auth)) \<and> scheme uri1 = scheme uri0 \<and> auth_unset uri1 \<and> tail_held be uri1 t"
proof (cases t)
  case None
  have "strchr_from s (length pre) (CHR ''/'') = None"
    by (rule strchr_from_none [of _ pre auth]) (use na in \<open>simp_all add: s None tail_of_def\<close>)
  then show ?thesis
    using unset by (intro exI [of _ uri0] exI [of _ None])
      (simp add: None lim_at_def s tail_of_def tail_unset_def tail_held_def)
next
  case (Some x)
  obtain pa q f where x: "x = (pa, q, f)" by (cases x) auto
  let ?e = "length (pre @ auth)"
  have gt: "good_tail pa q f" using good by (simp add: Some x tail_good_def)
  then have "tail_text pa q f = CHR ''/'' # tl (tail_text pa q f)"
    by (cases pa) (auto simp: good_tail_def tail_text_def)
  then have "s = pre @ auth @ CHR ''/'' # tl (tail_text pa q f)" by (simp add: s Some x tail_of_def)
  then have f1: "strchr_from s (length pre) (CHR ''/'') = Some ?e"
    by (rule strchr_from_in) (use na in simp_all)
  have se: "s = (pre @ auth) @ tail_text pa q f" by (simp add: s Some x tail_of_def)
  obtain rb ab qb fb where p: "parse_path be uri0 s ?e =
        Some (uri0\<lparr>relative := rb, path := ab, qstring := qb, fragment := fb\<rparr>)"
      "holds be rb (tail_text pa q f)" "holds be ab pa" "holds_opt be qb q"
      "holds_opt be fb (map_option (\<lambda>x. CHR ''#'' # x) f)"
    using parse_path_text [OF law se gt unset(1)] unfolding tail_parsed_def by blast
  let ?u = "uri0\<lparr>relative := rb, path := ab, qstring := qb, fragment := fb\<rparr>"
  have "tail_held be ?u t" "auth_unset ?u" "scheme ?u = scheme uri0" "lim_at s (Some ?e) ?e"
    using p unset(2) by (simp_all add: tail_held_def Some x auth_unset_def lim_at_def s)
  then show ?thesis using f1 p(1) by (intro exI [of _ ?u] exI [of _ "Some ?e"]) simp
qed

text \<open>
  C13. \<open>mnhttp_uri_parse\<close> finds the components of a URI: for a text put together from a scheme
  prefix, user and password, host, port, path, query and fragment (all but scheme and host may be
  absent), the parser of a fresh \<open>mnhttp_uri_t\<close> fails no assertion and stores exactly these components,
  with the conventional port for the scheme when the text gives none or an empty one.
\<close>

theorem uri_parse_components:
  assumes law: "bytes_law be" and sch: "(sch, pre) \<in> set schemes" and auth: "good_auth ui h po"
    and tail: "tail_good t"
  shows "\<exists>uri. mnhttp_uri_parse be (mnhttp_uri_init he) (pre @ auth_text ui h po @ tail_of t) = Some uri \<and>
    scheme uri = sch \<and> holds_opt be (user uri) (map_option fst ui) \<and>
    holds_opt be (password uri) (Option.bind ui snd) \<and> holds be (host uri) h \<and>
    holds_opt be (port uri) (conventional_port sch po) \<and> tail_held be uri t"
proof -
  define s where "s = pre @ auth_text ui h po @ tail_of t"
  define uri0 where "uri0 = (mnhttp_uri_init he)\<lparr>scheme := sch\<rparr>"
  note ps = parse_scheme_prefix [OF sch]
  have q: "parse_scheme (scheme (mnhttp_uri_init he)) s = (sch, length pre)" using ps by (simp add: s_def)
  have na: "CHR ''/'' \<notin> set (auth_text ui h po)" using auth by (simp add: good_auth_def)
  have u0: "tail_unset uri0" "auth_unset uri0" "scheme uri0 = sch"
    using ps by (simp_all add: uri0_def tail_unset_def auth_unset_def mnhttp_uri_init_def)
  obtain uri1 lim where 1: "(case strchr_from s (length pre) (CHR ''/'') of
       Some ppath \<Rightarrow> do { uri1 \<leftarrow> parse_path be uri0 s ppath; parse_authority be uri1 s (length pre) (Some ppath) }
     | None \<Rightarrow> parse_authority be uri0 s (length pre) None) = parse_authority be uri1 s (length pre) lim"
      "lim_at s lim (length (pre @ auth_text ui h po))" "scheme uri1 = sch" "auth_unset uri1" "tail_held be uri1 t"
    using uri_parse_tail [OF law s_def na tail u0(1,2)] u0(3) by metis
  have null: "host uri1 = None" "port uri1 = None" "user uri1 = None" "password uri1 = None"
    using 1(4) by (simp_all add: auth_unset_def)
  obtain hb pb ub wb where 2: "parse_authority be uri1 s (length pre) lim =
      Some (uri1\<lparr>user := ub, password := wb, host := hb, port := pb\<rparr>)" "holds be hb h" "holds_opt be pb po"
      "holds_opt be ub (map_option fst ui)" "holds_opt be wb (Option.bind ui snd)"
    using parse_authority_text [OF law s_def 1(2) auth null] by metis
  let ?uri2 = "uri1\<lparr>user := ub, password := wb, host := hb, port := pb\<rparr>"
  obtain pb' where 3: "default_port be ?uri2 = ?uri2\<lparr>port := pb'\<rparr>" "holds_opt be pb' (conventional_port sch po)"
    using default_port_holds [OF law, of ?uri2 po] 2(3) 1(3) by auto
  have "mnhttp_uri_parse be (mnhttp_uri_init he) s = Some (?uri2\<lparr>port := pb'\<rparr>)"
    unfolding mnhttp_uri_parse_def q Let_def prod.case uri0_def [symmetric] 1(1) 2(1) Option.bind.simps 3(1)
    using 1(3) ps by (simp add: default_scheme_def)
  then show ?thesis
    unfolding s_def using 2 3 1(3,5) by (intro exI [of _ "?uri2\<lparr>port := pb'\<rparr>"]) (simp add: tail_held_def)
qed

text \<open>A hash as an association list, in the order of insertion.\<close>

definition list_hash :: "('b, ('b \<times> 'b) list) hash_env" where
  "list_hash = \<lparr>hash_init = [], hash_set_item = (\<lambda>h k v. h @ [(k, v)]), hash_is_empty = (\<lambda>h. h = []),
     hash_items = (\<lambda>h. h)\<rparr>"

theorem uri_parse_components_witness:
  "\<exists>uri. mnhttp_uri_parse list_bytes (mnhttp_uri_init list_hash) ''https://me:pw@host/a/b?x=1#top'' = Some uri \<and>
     scheme uri = MNHTTPC_MESSAGE_SCHEME_HTTPS \<and> port uri = Some (''443'' @ [NUL]) \<and>
     path uri = Some (''/a/b'' @ [NUL]) \<and> qstring uri = Some (''x=1'' @ [NUL])"
proof -
  let ?ui = "Some (''me'', Some ''pw'')" and ?t = "Some (''/a/b'', Some ''x=1'', Some ''top'')"
  have "(1, ''https://'') \<in> set schemes" "good_auth ?ui ''host'' None" "tail_good ?t" by code_simp+
  moreover have "''https://'' @ auth_text ?ui ''host'' None @ tail_of ?t = ''https://me:pw@host/a/b?x=1#top''"
    "conventional_port 1 None = Some ''443''" by code_simp+
  moreover have "holds list_bytes b x \<longleftrightarrow> b = Some (x @ [NUL])" for b x
    by (auto simp: holds_def list_bytes_def split: option.split)
  ultimately show ?thesis
    using uri_parse_components [OF list_bytes_law, of 1 "''https://''" ?ui "''host''" None ?t list_hash]
    by (simp add: tail_held_def) blast
qed

text \<open>
  A URI given as a bare host - no scheme, port, user or path - is parsed to a URI without a port:
  the conventional port is chosen before the scheme is guessed, so none is chosen.
\<close>

theorem bare_host_has_no_port:
  assumes "bytes_law be" and "CHR '':'' \<notin> set s" and "CHR ''/'' \<notin> set s" and "CHR ''@'' \<notin> set s"
  shows "\<exists>uri. mnhttp_uri_parse be (mnhttp_uri_init he) s = Some uri \<and> port uri = None \<and>
    holds be (host uri) s \<and> scheme uri \<in> {MNHTTPC_MESSAGE_SCHEME_HTTP, MNHTTPC_MESSAGE_SCHEME_HTTPS}"
proof -
  have "\<not> (\<exists>zs. s = p @ zs)" if "CHR '':'' \<in> set p" for p using that assms(2) by auto
  then have "strstr s p \<noteq> Some 0" if "CHR '':'' \<in> set p" for p
    using that by (simp add: strstr_0_iff)
  then have ps: "parse_scheme x s = (x, 0)" for x by (simp add: parse_scheme_def)
  have none: "strchr_from s 0 (CHR ''/'') = None" "strchr_from s 0 (CHR ''@'') = None" "strchr_from s 0 (CHR '':'') = None"
    using assms(2-4) by (simp_all add: strchr_from_def strchr_not_in)
  have ha: "parse_authority be (mnhttp_uri_init he) s 0 None =
      Some ((mnhttp_uri_init he)\<lparr>host := Some (bytes_new_from_str be s)\<rparr>)"
    by (simp add: parse_authority_def none parse_hostport_def set_null_def upto_def mnhttp_uri_init_def)
  have e: "bytes_is_null_or_empty be None" using bytes_lawD(6) [OF assms(1), of None] by simp
  have "(mnhttp_uri_init he)\<lparr>scheme := scheme (mnhttp_uri_init he)\<rparr> = mnhttp_uri_init he" by simp
  then have "mnhttp_uri_parse be (mnhttp_uri_init he) s =
      Some (default_scheme be (default_port be ((mnhttp_uri_init he)\<lparr>host := Some (bytes_new_from_str be s)\<rparr>)))"
    by (simp add: mnhttp_uri_parse_def ps none ha)
  then show ?thesis
    using holds_new(1) [OF assms(1), of s s] e
    by (simp add: default_port_def default_scheme_def mnhttp_uri_init_def)
qed

theorem bare_host_has_no_port_witness:
  "\<exists>uri. mnhttp_uri_parse list_bytes (mnhttp_uri_init list_hash) ''localhost'' = Some uri \<and> port uri = None"
  using bare_host_has_no_port [OF list_bytes_law, of "''localhost''" list_hash] by auto

end
