(* ===== verification/HttpKvp.thy ===== *)
theory HttpKvp
  imports HttpUri
begin

text \<open>
  Key-value pairs: \<open>mnhttp_parse_qterms\<close> and \<open>mnhttp_parse_kvpbd\<close> of src/src/mnhttp.c, both expansions of the
  macro \<open>MNHTTP_PARSE_KVP_BODY\<close>. The loops work on indices into the data of a byte string; the reference
  definition \<open>kvp_spec\<close> splits the text at the record delimiter and each record at the first
  field delimiter.
\<close>

section \<open>The code\<close>

text \<open>The loop of \<open>MNHTTP_PARSE_QTERMS_FIND_PAIR\<close>: the first field delimiter from \<open>j\<close> on, or \<open>i1\<close>.\<close>

function find_fdelim :: "char list \<Rightarrow> char \<Rightarrow> nat \<Rightarrow> nat \<Rightarrow> nat option" where
  "find_fdelim ss fdelim j i1 =
     (if j < i1 then do {
        cc \<leftarrow> nth_opt ss j;
        if cc = fdelim then Some j else find_fdelim ss fdelim (Suc j) i1
      } else Some j)"
  by pat_completeness auto
termination
  by (relation "measure (\<lambda>(ss, c, j, i1). i1 - j)") auto

declare find_fdelim.simps [simp del]

definition find_pair ::
  "'b bytes_env \<Rightarrow> ('b, 'h) hash_env \<Rightarrow> ('b \<Rightarrow> 'b) \<Rightarrow> ('b \<Rightarrow> 'b) \<Rightarrow> char list \<Rightarrow> char \<Rightarrow> nat \<Rightarrow> nat \<Rightarrow> 'h \<Rightarrow> 'h option" where
  "find_pair be he keydecode valdecode ss fdelim i0 i1 hash = do {
     j \<leftarrow> find_fdelim ss fdelim i0 i1;
     if j > i0 then
       (let key = bytes_new_from_str_len be (drop i0 ss) (j - i0);
            j1 = Suc j;
            val = (if i1 \<ge> j1 then bytes_new_from_str_len be (drop j1 ss) (i1 - j1)
                   else BDATA_put be (bytes_new be 1) 0 NUL)
        in Some (hash_set_item he hash (keydecode key) (valdecode val)))
     else Some hash
   }"

text \<open>The main loop; the final \<open>--i1\<close> on a \<open>size_t\<close> wraps around for an empty byte string.\<close>

function kvp_loop ::
  "'b bytes_env \<Rightarrow> ('b, 'h) hash_env \<Rightarrow> ('b \<Rightarrow> 'b) \<Rightarrow> ('b \<Rightarrow> 'b) \<Rightarrow> char list \<Rightarrow> char \<Rightarrow> char \<Rightarrow> nat \<Rightarrow> nat \<Rightarrow> 'h \<Rightarrow>
   'h option" where
  "kvp_loop be he kd vd ss fdelim rdelim i0 i1 hash =
     (if i1 < length ss then
        (if ss ! i1 = rdelim then do {
           hash1 \<leftarrow> find_pair be he kd vd ss fdelim i0 i1 hash;
           kvp_loop be he kd vd ss fdelim rdelim (Suc i1) (Suc i1) hash1
         } else kvp_loop be he kd vd ss fdelim rdelim i0 (Suc i1) hash)
      else find_pair be he kd vd ss fdelim i0 (if i1 = 0 then 2 ^ 64 - 1 else i1 - 1) hash)"
  by pat_completeness auto
termination
  by (relation "measure (\<lambda>(be, he, kd, vd, ss, f, r, i0, i1, h). length ss - i1)") auto

declare kvp_loop.simps [simp del]

definition parse_kvp ::
  "'b bytes_env \<Rightarrow> ('b, 'h) hash_env \<Rightarrow> ('b \<Rightarrow> 'b) \<Rightarrow> ('b \<Rightarrow> 'b) \<Rightarrow> 'b \<Rightarrow> char \<Rightarrow> char \<Rightarrow> 'h \<Rightarrow> (int \<times> 'h) option" where
  "parse_kvp be he kd vd s fdelim rdelim hash =
     map_option (\<lambda>h. (0, h)) (kvp_loop be he kd vd (BDATA be s) fdelim rdelim 0 0 hash)"

definition mnhttp_parse_qterms ::
  "'b bytes_env \<Rightarrow> ('b, 'h) hash_env \<Rightarrow> 'b \<Rightarrow> char \<Rightarrow> char \<Rightarrow> 'h \<Rightarrow> (int \<times> 'h) option" where
  "mnhttp_parse_qterms be he s fdelim rdelim hash =
     parse_kvp be he (bytes_urldecode be) (bytes_urldecode be) s fdelim rdelim hash"

definition mnhttp_parse_kvpbd ::
  "'b bytes_env \<Rightarrow> ('b, 'h) hash_env \<Rightarrow> 'b \<Rightarrow> char \<Rightarrow> char \<Rightarrow> 'h \<Rightarrow> (int \<times> 'h) option" where
  "mnhttp_parse_kvpbd be he s fdelim rdelim hash =
     parse_kvp be he (bytes_brushdown be) (bytes_brushdown be) s fdelim rdelim hash"

section \<open>The reference\<close>

fun split_on :: "char \<Rightarrow> string \<Rightarrow> string list" where
  "split_on c [] = [[]]"
| "split_on c (x # xs) =
     (if x = c then [] # split_on c xs
      else (case split_on c xs of [] \<Rightarrow> [[x]] | seg # segs \<Rightarrow> (x # seg) # segs))"

text \<open>A record gives a pair unless its key is empty; without a delimiter the value is empty.\<close>

definition pair_of :: "char \<Rightarrow> string \<Rightarrow> (string \<times> string) list" where
  "pair_of fdelim seg =
     (let key = takeWhile (\<lambda>c. c \<noteq> fdelim) seg
      in if key = [] then [] else [(key, drop (Suc (length key)) seg)])"

definition kvp_spec :: "char \<Rightarrow> char \<Rightarrow> string \<Rightarrow> (string \<times> string) list" where
  "kvp_spec fdelim rdelim s = concat (map (pair_of fdelim) (split_on rdelim s))"

text \<open>Byte strings that hold the keys and values of a list of pairs.\<close>

definition pairs_held :: "'b bytes_env \<Rightarrow> ('b \<times> 'b) list \<Rightarrow> (string \<times> string) list \<Rightarrow> bool" where
  "pairs_held be kvs ps \<longleftrightarrow>
     list_all2 (\<lambda>kv p. BDATA be (fst kv) = fst p @ [NUL] \<and> BDATA be (snd kv) = snd p @ [NUL]) kvs ps"

definition set_items ::
  "('b, 'h) hash_env \<Rightarrow> ('b \<Rightarrow> 'b) \<Rightarrow> ('b \<Rightarrow> 'b) \<Rightarrow> 'h \<Rightarrow> ('b \<times> 'b) list \<Rightarrow> 'h" where
  "set_items he kd vd hash kvs = foldl (\<lambda>h kv. hash_set_item he h (kd (fst kv)) (vd (snd kv))) hash kvs"

section \<open>The code computes it\<close>

lemma split_on_append: "dr \<notin> set seg \<Longrightarrow> split_on dr (seg @ dr # rest) = seg # split_on dr rest"
  by (induction seg) auto

lemma split_on_single: "dr \<notin> set seg \<Longrightarrow> split_on dr seg = [seg]"
  by (induction seg) auto

lemma find_fdelim_seg:
  assumes "j \<le> i1" and "i1 \<le> length ss"
  shows "find_fdelim ss df j i1 = Some (j + length (takeWhile (\<lambda>c. c \<noteq> df) (take (i1 - j) (drop j ss))))"
  using assms
proof (induction ss df j i1 rule: find_fdelim.induct)
  case (1 ss df j i1)
  show ?case
  proof (cases "j < i1")
    case True
    then have "take (i1 - j) (drop j ss) = ss ! j # take (i1 - Suc j) (drop (Suc j) ss)"
      using "1.prems" by (simp add: Cons_nth_drop_Suc [symmetric] take_Cons' del: Cons_nth_drop_Suc)
    with 1 True show ?thesis by (subst find_fdelim.simps) (auto simp: nth_opt_def)
  next
    case False
    then show ?thesis by (subst find_fdelim.simps) simp
  qed
qed

lemma find_pair_seg:
  assumes law: "bytes_law be" and ss: "ss = A @ seg @ R" and i: "i0 = length A" "i1 = length (A @ seg)"
  shows "\<exists>kvs. find_pair be he kd vd ss df i0 i1 h = Some (set_items he kd vd h kvs) \<and>
    pairs_held be kvs (pair_of df seg)"
proof -
  define k where "k = takeWhile (\<lambda>c. c \<noteq> df) seg"
  have le: "length k \<le> length seg" by (simp add: k_def length_takeWhile_le)
  have "take (i1 - i0) (drop i0 ss) = seg" by (simp add: ss i)
  then have f: "find_fdelim ss df i0 i1 = Some (i0 + length k)"
    using find_fdelim_seg [of i0 i1 ss df] by (simp add: ss i k_def)
  show ?thesis
  proof (cases "k = []")
    case True
    then show ?thesis
      by (intro exI [of _ "[]"])
        (simp add: find_pair_def f set_items_def pairs_held_def pair_of_def k_def [symmetric])
  next
    case False
    let ?j1 = "Suc (i0 + length k)"
    define key where "key = bytes_new_from_str_len be (drop i0 ss) (i0 + length k - i0)"
    define val where "val = (if i1 \<ge> ?j1 then bytes_new_from_str_len be (drop ?j1 ss) (i1 - ?j1)
                   else BDATA_put be (bytes_new be 1) 0 NUL)"
    have "take (length k) seg = k" by (metis k_def takeWhile_eq_take length_take min.absorb2 le)
    then have "BDATA be key = k @ [NUL]"
      using le by (simp add: key_def bytes_lawD [OF law] ss i)
    moreover have "BDATA be val = drop (Suc (length k)) seg @ [NUL]"
    proof (cases "i1 \<ge> ?j1")
      case True
      then show ?thesis by (simp add: val_def bytes_lawD [OF law] ss i)
    next
      case False
      then have "length seg = length k" using le by (simp add: i)
      moreover have "length (BDATA be (bytes_new be 1)) = 1" by (rule bytes_lawD [OF law])
      then obtain x where "BDATA be (bytes_new be 1) = [x]" by (cases "BDATA be (bytes_new be 1)") auto
      ultimately show ?thesis using False by (simp add: val_def bytes_lawD [OF law])
    qed
    moreover have "find_pair be he kd vd ss df i0 i1 h = Some (set_items he kd vd h [(key, val)])"
      using False by (simp add: find_pair_def f Let_def key_def val_def set_items_def)
    ultimately show ?thesis
      using False by (intro exI [of _ "[(key, val)]"]) (simp add: pairs_held_def pair_of_def k_def [symmetric])
  qed
qed

lemma set_items_append: "set_items he kd vd (set_items he kd vd h xs) ys = set_items he kd vd h (xs @ ys)"
  by (simp add: set_items_def)

lemma pairs_held_append: "pairs_held be xs ps \<Longrightarrow> pairs_held be ys qs \<Longrightarrow> pairs_held be (xs @ ys) (ps @ qs)"
  by (simp add: pairs_held_def list_all2_appendI)

lemma kvp_loop_spec:
  assumes law: "bytes_law be" and dr: "dr \<noteq> NUL"
    and "ss = A @ seg @ rest @ [NUL]" and "dr \<notin> set seg" and "i0 = length A" and "i1 = length (A @ seg)"
  shows "\<exists>kvs. kvp_loop be he kd vd ss df dr i0 i1 h = Some (set_items he kd vd h kvs) \<and>
    pairs_held be kvs (kvp_spec df dr (seg @ rest))"
  using assms(3-)
proof (induction rest arbitrary: A seg i0 i1 h)
  case Nil
  obtain kvs where "find_pair be he kd vd ss df i0 i1 h = Some (set_items he kd vd h kvs)"
      "pairs_held be kvs (pair_of df seg)"
    using find_pair_seg [OF law, of ss A seg "[NUL]" i0 i1 he kd vd df h] Nil.prems by auto
  moreover have "kvp_loop be he kd vd ss df dr i0 i1 h = find_pair be he kd vd ss df i0 i1 h"
  proof -
    have "kvp_loop be he kd vd ss df dr i0 i1 h = kvp_loop be he kd vd ss df dr i0 (Suc i1) h"
      using Nil.prems dr by (subst kvp_loop.simps) (simp add: nth_append)
    also have "\<dots> = find_pair be he kd vd ss df i0 i1 h"
      using Nil.prems by (subst kvp_loop.simps) simp
    finally show ?thesis .
  qed
  ultimately show ?case using Nil.prems(2) by (auto simp: kvp_spec_def split_on_single)
next
  case (Cons c rest)
  have lt: "i1 < length ss" "ss ! i1 = c" using Cons.prems by (simp_all add: nth_append)
  show ?case
  proof (cases "c = dr")
    case True
    obtain kvs where 1: "find_pair be he kd vd ss df i0 i1 h = Some (set_items he kd vd h kvs)"
        "pairs_held be kvs (pair_of df seg)"
      using find_pair_seg [OF law, of ss A seg "c # rest @ [NUL]" i0 i1 he kd vd df h] Cons.prems by auto
    obtain kvs2 where 2: "kvp_loop be he kd vd ss df dr (Suc i1) (Suc i1) (set_items he kd vd h kvs) =
        Some (set_items he kd vd (set_items he kd vd h kvs) kvs2)" "pairs_held be kvs2 (kvp_spec df dr rest)"
      using Cons.IH [of "A @ seg @ [c]" "[]" "Suc i1" "Suc i1" "set_items he kd vd h kvs"] Cons.prems by auto
    have "kvp_loop be he kd vd ss df dr i0 i1 h = Some (set_items he kd vd h (kvs @ kvs2))"
      using lt True 1(1) 2(1) by (subst kvp_loop.simps) (simp add: set_items_append)
    moreover have "pairs_held be (kvs @ kvs2) (kvp_spec df dr (seg @ c # rest))"
      using pairs_held_append [OF 1(2) 2(2)] Cons.prems(2) True by (simp add: kvp_spec_def split_on_append)
    ultimately show ?thesis by blast
  next
    case False
    have "kvp_loop be he kd vd ss df dr i0 i1 h = kvp_loop be he kd vd ss df dr i0 (Suc i1) h"
      using lt False by (subst kvp_loop.simps) simp
    moreover have "\<exists>kvs. kvp_loop be he kd vd ss df dr i0 (Suc i1) h = Some (set_items he kd vd h kvs) \<and>
        pairs_held be kvs (kvp_spec df dr ((seg @ [c]) @ rest))"
      by (rule Cons.IH [of A]) (use Cons.prems False in auto)
    ultimately show ?thesis by simp
  qed
qed

text \<open>
  C14. \<open>mnhttp_parse_qterms\<close> agrees with the reference: for every text, also with empty records, empty keys,
  missing and repeated delimiters, it returns 0 and has put into the hash, in order, the
  URL-decoded key and value of each record with a non-empty key; it stays inside the text.
\<close>

theorem parse_qterms_correct:
  assumes "bytes_law be" and "BDATA be s = t @ [NUL]" and "rdelim \<noteq> NUL"
  shows "\<exists>kvs. mnhttp_parse_qterms be he s fdelim rdelim hash =
      Some (0, set_items he (bytes_urldecode be) (bytes_urldecode be) hash kvs) \<and>
    pairs_held be kvs (kvp_spec fdelim rdelim t)"
  using kvp_loop_spec [OF assms(1,3), of "t @ [NUL]" "[]" "[]" t 0 0] assms(2)
  by (auto simp: mnhttp_parse_qterms_def parse_kvp_def)

theorem parse_qterms_correct_witness:
  "\<exists>kvs. mnhttp_parse_qterms list_bytes list_hash (''a=1&&b&=2&c=3=4'' @ [NUL]) (CHR ''='') (CHR ''&'') [] =
      Some (0, set_items list_hash (bytes_urldecode list_bytes) (bytes_urldecode list_bytes) [] kvs) \<and>
    pairs_held list_bytes kvs [(''a'', ''1''), (''b'', []), (''c'', ''3=4'')]"
proof -
  have "kvp_spec (CHR ''='') (CHR ''&'') ''a=1&&b&=2&c=3=4'' = [(''a'', ''1''), (''b'', []), (''c'', ''3=4'')]"
    by code_simp
  moreover have "BDATA list_bytes (''a=1&&b&=2&c=3=4'' @ [NUL]) = ''a=1&&b&=2&c=3=4'' @ [NUL]"
    by (simp add: list_bytes_def)
  ultimately show ?thesis
    using parse_qterms_correct [OF list_bytes_law, of "''a=1&&b&=2&c=3=4'' @ [NUL]" "''a=1&&b&=2&c=3=4''" "CHR ''&''"
        list_hash "CHR ''=''" "[]"] by auto
qed

text \<open>
  \<open>mnhttp_parse_kvpbd\<close> agrees with the same reference, decoding keys and values with
  \<open>bytes_brushdown\<close> instead.
\<close>

theorem parse_kvpbd_correct:
  assumes "bytes_law be" and "BDATA be s = t @ [NUL]" and "rdelim \<noteq> NUL"
  shows "\<exists>kvs. mnhttp_parse_kvpbd be he s fdelim rdelim hash =
      Some (0, set_items he (bytes_brushdown be) (bytes_brushdown be) hash kvs) \<and>
    pairs_held be kvs (kvp_spec fdelim rdelim t)"
  using kvp_loop_spec [OF assms(1,3), of "t @ [NUL]" "[]" "[]" t 0 0] assms(2)
  by (auto simp: mnhttp_parse_kvpbd_def parse_kvp_def)

theorem parse_kvpbd_correct_witness:
  "\<exists>kvs. mnhttp_parse_kvpbd list_bytes list_hash (''k: v;x'' @ [NUL]) (CHR '':'') (CHR '';'') [] =
      Some (0, set_items list_hash (bytes_brushdown list_bytes) (bytes_brushdown list_bytes) [] kvs) \<and>
    pairs_held list_bytes kvs [(''k'', '' v''), (''x'', [])]"
proof -
  have "kvp_spec (CHR '':'') (CHR '';'') ''k: v;x'' = [(''k'', '' v''), (''x'', [])]" by code_simp
  moreover have "BDATA list_bytes (''k: v;x'' @ [NUL]) = ''k: v;x'' @ [NUL]" by (simp add: list_bytes_def)
  ultimately show ?thesis
    using parse_kvpbd_correct [OF list_bytes_law, of "''k: v;x'' @ [NUL]" "''k: v;x''" "CHR '';''"
        list_hash "CHR '':''" "[]"] by auto
qed

end
