(* ===== verification/HttpUriWrite.thy ===== *)
theory HttpUriWrite
  imports HttpUri HttpWrite UrlCodec
begin

text \<open>
  What \<open>mnhttp_uri_start_request\<close> writes: the request line of a URI, with the query terms of its hash
  URL-encoded and appended to the relative part. The terms are encoded one after the other into two buffers, which the
  encoder shrinks to its result and the code sets back to their full size.
\<close>

section \<open>The encoder\<close>

text \<open>
  \<open>bytes_str_urlencode2(dst, src)\<close>: when \<open>dst\<close> has the size of the worst case, three bytes for each of the string and a
  terminator, it becomes the string with every character \<open>c\<close> replaced by \<open>ec c\<close> (at most three bytes), and its size the size of
  that; with a smaller \<open>dst\<close> nothing is promised. The memory of \<open>dst\<close> stays the same: \<open>room b n\<close> tells that it has
  \<open>n\<close> bytes, so that its size may be set to \<open>n\<close>.
\<close>

locale url_encoder =
  fixes be :: "'b bytes_env" and room :: "'b \<Rightarrow> nat \<Rightarrow> bool" and ec :: "char \<Rightarrow> string"
  assumes new_buffer: "BSZ be (bytes_new be n) = n \<and> room (bytes_new be n) n"
    and set_size: "room d n \<Longrightarrow> BSZ be (bytes_set_sz be d n) = n \<and> room (bytes_set_sz be d n) n"
    and encode: "holds be (Some b) s \<Longrightarrow> NUL \<notin> set s \<Longrightarrow> 3 * length s + 1 \<le> BSZ be d \<Longrightarrow> room d n \<Longrightarrow>
      holds be (Some (bytes_str_urlencode2 be d b)) (concat (map ec s)) \<and> room (bytes_str_urlencode2 be d b) n"
    and encoded_char: "NUL \<notin> set (ec c) \<and> length (ec c) \<le> 3"

text \<open>A term is a key and a value; each holds a string.\<close>

definition term_holds :: "'b bytes_env \<Rightarrow> 'b \<times> 'b \<Rightarrow> string \<times> string \<Rightarrow> bool" where
  "term_holds be kv t \<longleftrightarrow> holds be (Some (fst kv)) (fst t) \<and> NUL \<notin> set (fst t) \<and>
     holds be (Some (snd kv)) (snd t) \<and> NUL \<notin> set (snd t)"

text \<open>The sizes of all terms are in \<open>qtermsz\<close>, which is kept by adding terms.\<close>

definition terms_fit :: "'b bytes_env \<Rightarrow> ('b, 'h) hash_env \<Rightarrow> ('b, 'h) mnhttp_uri \<Rightarrow> bool" where
  "terms_fit be he uri \<longleftrightarrow>
     (\<forall>kv \<in> set (hash_items he (qterms uri)). BSZ be (fst kv) \<le> qtermsz uri \<and> BSZ be (snd kv) \<le> qtermsz uri)"

lemma add_qterm_fits:
  assumes "terms_fit be he uri" and "mnhttp_uri_add_qterm be he uri (Some k) (Some v) = Some uri'"
    and "set (hash_items he (hash_set_item he (qterms uri) k v)) \<subseteq> insert (k, v) (set (hash_items he (qterms uri)))"
  shows "terms_fit be he uri'"
  using assms by (force simp: terms_fit_def mnhttp_uri_add_qterm_def)

section \<open>What is written\<close>

definition term_text :: "(char \<Rightarrow> string) \<Rightarrow> string \<times> string \<Rightarrow> string" where
  "term_text ec t = concat (map ec (fst t)) @ ''='' @ concat (map ec (snd t))"

fun terms_text :: "(char \<Rightarrow> string) \<Rightarrow> (string \<times> string) list \<Rightarrow> string" where
  "terms_text ec [] = []"
| "terms_text ec (t # ts) = term_text ec t @ concat (map (\<lambda>x. CHR ''&'' # term_text ec x) ts)"

text \<open>The query: nothing without terms; a question mark before the terms when the URI has no query string.\<close>

definition query_text :: "(char \<Rightarrow> string) \<Rightarrow> bool \<Rightarrow> 'b option \<Rightarrow> (string \<times> string) list \<Rightarrow> string" where
  "query_text ec none qs ts = (if none then [] else (if qs = None then ''?'' else []) @ terms_text ec ts)"

context url_encoder
begin

lemma encoded:
  assumes "holds be (Some b) s" and "NUL \<notin> set s" and "3 * length s + 1 \<le> BSZ be d" and "room d n"
  shows "BCDATA be (bytes_str_urlencode2 be d b) = Some (concat (map ec s))"
    and "BSZ be (bytes_str_urlencode2 be d b) = length (concat (map ec s)) + 1"
    and "room (bytes_str_urlencode2 be d b) n"
  using encode [OF assms] encoded_char by (auto intro!: holds_BCDATA simp: holds_def)

lemma write_qterm_writes:
  assumes "out_law oe content" and "term_holds be kv t" and "room ke n" and "room ve n"
    and "3 * length (fst t) + 1 \<le> BSZ be ke" and "3 * length (snd t) + 1 \<le> BSZ be ve" and "length sep \<le> 1"
  shows "\<exists>r out' ke' ve'. write_qterm be oe ke ve sep err out kv = Some (r, out', ke', ve') \<and> room ke' n \<and> room ve' n \<and>
    (r = RC 0 \<longrightarrow> content out' = content out @ sep @ term_text ec t)"
proof -
  let ?ke = "bytes_str_urlencode2 be ke (fst kv)" and ?ve = "bytes_str_urlencode2 be ve (snd kv)"
  note k = encoded [OF _ _ assms(5,3), of "fst kv"] and v = encoded [OF _ _ assms(6,4), of "snd kv"]
  let ?s = "sep @ concat (map ec (fst t)) @ ''='' @ concat (map ec (snd t))"
  obtain r out' where w: "bytestream_nprintf oe out (BSZ be ?ke + BSZ be ?ve + 8) ?s = (r, out')" by (rule prod.exhaust)
  have t: "holds be (Some (fst kv)) (fst t)" "NUL \<notin> set (fst t)" "holds be (Some (snd kv)) (snd t)" "NUL \<notin> set (snd t)"
    using assms(2) by (simp_all add: term_holds_def)
  have "length ?s < BSZ be ?ke + BSZ be ?ve + 8" using k(2) [OF t(1,2)] v(2) [OF t(3,4)] assms(7) by simp
  then have "content out' = content out @ ?s" if "0 \<le> r" using out_lawD(1) [OF assms(1) _ w that] by simp
  then show ?thesis
    using w k(1,3) [OF t(1,2)] v(1,3) [OF t(3,4)] by (auto simp: write_qterm_def Let_def term_text_def)
qed

lemma write_qterms_writes:
  assumes "out_law oe content" and "list_all2 (term_holds be) kvs ts" and "room ke encsz" and "room ve encsz"
    and "\<forall>t \<in> set ts. 3 * length (fst t) + 1 \<le> encsz \<and> 3 * length (snd t) + 1 \<le> encsz"
  shows "\<exists>r out'. write_qterms be oe encsz ke ve out kvs = Some (r, out') \<and>
    (r = RC 0 \<longrightarrow> content out' = content out @ concat (map (\<lambda>x. CHR ''&'' # term_text ec x) ts))"
  using assms(2-5)
proof (induction kvs ts arbitrary: out ke ve rule: list_all2_induct)
  case (Cons kv kvs t ts)
  let ?ke = "bytes_set_sz be ke encsz" and ?ve = "bytes_set_sz be ve encsz"
  have p: "room ?ke encsz" "room ?ve encsz" "3 * length (fst t) + 1 \<le> BSZ be ?ke" "3 * length (snd t) + 1 \<le> BSZ be ?ve"
    using set_size [OF Cons.prems(1)] set_size [OF Cons.prems(2)] Cons.prems(3) by simp_all
  have amp: "length ''&'' \<le> 1" by simp
  obtain r out1 ke1 ve1 where 1: "write_qterm be oe ?ke ?ve ''&'' 3 out kv = Some (r, out1, ke1, ve1)" "room ke1 encsz" "room ve1 encsz"
      "r = RC 0 \<longrightarrow> content out1 = content out @ ''&'' @ term_text ec t"
    using write_qterm_writes [OF assms(1) Cons.hyps(1) p amp, of 3 out] by blast
  have fit: "\<forall>t \<in> set ts. 3 * length (fst t) + 1 \<le> encsz \<and> 3 * length (snd t) + 1 \<le> encsz" using Cons.prems(3) by simp
  obtain r2 out2 where 2: "write_qterms be oe encsz ke1 ve1 out1 kvs = Some (r2, out2)"
      "r2 = RC 0 \<longrightarrow> content out2 = content out1 @ concat (map (\<lambda>x. CHR ''&'' # term_text ec x) ts)"
    using Cons.IH [OF 1(2,3) fit] by blast
  have "write_qterms be oe encsz ke ve out (kv # kvs) = Some (if r = RC 0 then (r2, out2) else (r, out1))"
    using 1(1) 2(1) by (simp add: Let_def)
  then show ?case using 1(4) 2(2) by (cases "r = RC 0") auto
qed simp

lemma terms_room:
  assumes "list_all2 (term_holds be) (hash_items he (qterms uri)) ts" and "terms_fit be he uri" and "t \<in> set ts"
  shows "3 * length (fst t) + 1 \<le> qtermsz uri * 3 + 1 \<and> 3 * length (snd t) + 1 \<le> qtermsz uri * 3 + 1"
proof -
  obtain i where i: "i < length ts" "ts ! i = t" using assms(3) by (auto simp: in_set_conv_nth)
  let ?kv = "hash_items he (qterms uri) ! i"
  have kv: "?kv \<in> set (hash_items he (qterms uri))" "term_holds be ?kv t" using assms(1) i by (auto simp: list_all2_conv_all_nth)
  then have "BSZ be (fst ?kv) = length (fst t) + 1" "BSZ be (snd ?kv) = length (snd t) + 1"
    by (simp_all add: term_holds_def holds_def)
  then show ?thesis using assms(2) kv(1) by (force simp: terms_fit_def)
qed

lemma mark_writes:
  assumes "out_law oe content"
    and "(if qs = None then (case bytestream_cat oe out 1 ''?'' of (r, out1) \<Rightarrow>
        (if r < 0 then ERR HTTP_START_REQUEST 1 else RC 0, out1)) else (RC 0, out)) = (r0, out0)"
    and "r0 = RC 0"
  shows "content out0 = content out @ (if qs = None then ''?'' else [])"
proof (cases "qs = None")
  case True
  obtain q out1 where c: "bytestream_cat oe out 1 ''?'' = (q, out1)" by (rule prod.exhaust)
  then show ?thesis using True assms(2,3) out_lawD(2) [OF assms(1) _ c] by (auto split: if_split_asm)
qed (use assms(2) in auto)

lemma write_query_writes:
  assumes "out_law oe content" and "list_all2 (term_holds be) (hash_items he (qterms uri)) ts" and "terms_fit be he uri"
    and "holds be (Some rel) rs" and "\<not> hash_is_empty he (qterms uri)"
  shows "\<exists>r out'. write_query be he oe uri rel out = Some (r, out') \<and>
    (r = RC 0 \<longrightarrow> content out' = content out @ query_text ec False (qstring uri) ts)"
proof -
  define n where "n = qtermsz uri * 3 + 1"
  note fit = terms_room [OF assms(2,3), folded n_def]
  have last: "rd (BDATA be rel) (int (BSZ be rel) - 1) = Some NUL"
    using assms(4) by (simp add: holds_def rd_def nth_opt_def)
  obtain r0 out0 where 0: "(if qstring uri = None then (case bytestream_cat oe out 1 ''?'' of (r, out1) \<Rightarrow>
        (if r < 0 then ERR HTTP_START_REQUEST 1 else RC 0, out1)) else (RC 0, out)) = (r0, out0)" by (rule prod.exhaust)
  note c0 = mark_writes [OF assms(1) 0]
  note w = write_query_def [of be he oe uri rel out, unfolded Let_def n_def [symmetric]] and b = new_buffer [of n]
  have q: "write_query be he oe uri rel out = (if r0 \<noteq> RC 0 then Some (r0, out0) else
       (case hash_items he (qterms uri) of [] \<Rightarrow> Some (RC 0, out0)
        | it # items \<Rightarrow> do {
            (r, out1, ke1, ve1) \<leftarrow> write_qterm be oe (bytes_new be n) (bytes_new be n) [] 2 out0 it;
            if r \<noteq> RC 0 then Some (r, out1) else write_qterms be oe n ke1 ve1 out1 items }))"
    unfolding w using 0 last by (cases "qstring uri") auto
  show ?thesis
  proof (cases "r0 = RC 0 \<and> ts \<noteq> []")
    case True
    then obtain kv kvs t ts' where i: "hash_items he (qterms uri) = kv # kvs" "ts = t # ts'" "term_holds be kv t"
        "list_all2 (term_holds be) kvs ts'"
      using assms(2) by (cases ts) (auto simp: list_all2_Cons2)
    have p: "room (bytes_new be n) n" "room (bytes_new be n) n" "3 * length (fst t) + 1 \<le> BSZ be (bytes_new be n)"
        "3 * length (snd t) + 1 \<le> BSZ be (bytes_new be n)"
      using b fit [of t] i(2) by simp_all
    obtain r out1 ke1 ve1 where 1: "write_qterm be oe (bytes_new be n) (bytes_new be n) [] 2 out0 kv = Some (r, out1, ke1, ve1)"
        "room ke1 n" "room ve1 n" "r = RC 0 \<longrightarrow> content out1 = content out0 @ [] @ term_text ec t"
      using write_qterm_writes [OF assms(1) i(3) p, of "[]" 2 out0] by auto
    obtain r2 out2 where 2: "write_qterms be oe n ke1 ve1 out1 kvs = Some (r2, out2)"
        "r2 = RC 0 \<longrightarrow> content out2 = content out1 @ concat (map (\<lambda>x. CHR ''&'' # term_text ec x) ts')"
      using write_qterms_writes [OF assms(1) i(4) 1(2,3), of out1] fit unfolding i(2) by (meson list.set_intros(2))
    show ?thesis using True c0 1(1,4) 2 i(1,2) by (cases "r = RC 0") (auto simp: q query_text_def)
  next
    case False
    then show ?thesis using c0 assms(2) by (auto simp: q query_text_def)
  qed
qed

lemma start_request_text:
  assumes "out_law oe content" and "list_all2 (term_holds be) (hash_items he (qterms uri)) ts" and "terms_fit be he uri"
    and "relative uri = Some rel" and "holds be (Some rel) rs" and "NUL \<notin> set rs"
  shows "\<exists>r out'. mnhttp_uri_start_request be he oe uri out meth = Some (r, out') \<and>
    (r = RC 0 \<longrightarrow> content out' = content out @ meth @ '' '' @ rs @
       query_text ec (hash_is_empty he (qterms uri)) (qstring uri) ts @ '' HTTP/1.1'' @ crlf)"
proof -
  note b = holds_BCDATA [OF assms(5,6)]
  have bs: "BSZ be rel = length rs + 1" using assms(5) by (simp add: holds_def)
  let ?t = "meth @ '' '' @ rs"
  obtain r out1 where 1: "bytestream_nprintf oe out (length meth + BSZ be rel + 16) ?t = (r, out1)" by (rule prod.exhaust)
  have c1: "content out1 = content out @ ?t" if "\<not> r < 0" using out_lawD(1) [OF assms(1) _ 1] that bs by simp
  obtain r2 out2 where 2: "(if \<not> hash_is_empty he (qterms uri) then write_query be he oe uri rel out1 else Some (RC 0, out1)) = Some (r2, out2)"
      "r2 = RC 0 \<longrightarrow> content out2 = content out1 @ query_text ec (hash_is_empty he (qterms uri)) (qstring uri) ts"
    using write_query_writes [OF assms(1,2,3,5), of out1] by (cases "hash_is_empty he (qterms uri)") (auto simp: query_text_def)
  obtain r3 out3 where 3: "bytestream_cat oe out2 11 ('' HTTP/1.1'' @ crlf) = (r3, out3)" by (rule prod.exhaust)
  have c3: "content out3 = content out2 @ '' HTTP/1.1'' @ crlf" if "\<not> r3 < 0" using out_lawD(2) [OF assms(1) _ 3] that by simp
  have "mnhttp_uri_start_request be he oe uri out meth =
      Some (if r < 0 then (ERR HTTP_START_REQUEST 1, out1) else if r2 \<noteq> RC 0 then (r2, out2)
            else (if r3 < 0 then ERR HTTP_START_REQUEST 4 else RC 0, out3))"
    using 1 2(1) 3 by (simp add: mnhttp_uri_start_request_def assms(4) b)
  then show ?thesis using c1 2(2) c3 by auto
qed

end

section \<open>Buffers with memory\<close>

text \<open>Byte strings that are a piece of memory and a size; the encoder does nothing when the destination's size is too small.\<close>

definition mem_bytes :: "(char list \<times> nat) bytes_env" where
  "mem_bytes = \<lparr>bytes_new_from_str = (\<lambda>s. (s @ [NUL], length s + 1)),
     bytes_new_from_str_len = (\<lambda>s n. (take n s @ [NUL], length (take n s) + 1)),
     bytes_new = (\<lambda>n. (replicate n NUL, n)), BDATA = (\<lambda>b. take (snd b) (fst b)),
     BDATA_put = (\<lambda>b i c. ((fst b)[i := c], snd b)),
     bytes_cmp = (\<lambda>a b. if a = b then 0 else 1),
     bytes_is_null_or_empty = (\<lambda>b. case b of None \<Rightarrow> True | Some x \<Rightarrow> take (snd x) (fst x) = [NUL]),
     bytes_urldecode = (\<lambda>b. b), bytes_brushdown = (\<lambda>b. b),
     bytes_str_urlencode2 = (\<lambda>d b. let e = enc (takeWhile (\<lambda>c. c \<noteq> NUL) (take (snd b) (fst b))) @ [NUL] in
       if length e \<le> snd d \<and> length e \<le> length (fst d) then (e @ drop (length e) (fst d), length e) else d),
     bytes_set_sz = (\<lambda>b n. (fst b, n))\<rparr>"

lemma enc1_char: "NUL \<notin> set (enc1 c) \<and> length (enc1 c) \<le> 3"
proof -
  have "byte_of c div 16 < (16 :: nat)" "byte_of c mod 16 < (16 :: nat)" using byte_lt_256 [of c] by (simp_all add: less_mult_imp_div_less)
  from this [THEN hexchar_not_NUL] show ?thesis using length_enc1 [of c] by (auto simp: enc1_def)
qed

interpretation mem_encoder: url_encoder mem_bytes "\<lambda>b n. n \<le> length (fst b)" enc1
proof
  fix b s d n
  assume a: "holds mem_bytes (Some b) s" "NUL \<notin> set s" "3 * length s + 1 \<le> BSZ mem_bytes d" "n \<le> length (fst d)"
  let ?r = "bytes_str_urlencode2 mem_bytes d b"
  have "takeWhile (\<lambda>c. c \<noteq> NUL) (take (snd b) (fst b)) = s"
    using a(1,2) by (simp add: holds_def mem_bytes_def takeWhile_tail) (metis takeWhile_append2 append_Nil2 takeWhile.simps(2))
  moreover have "length (enc s @ [NUL]) \<le> snd d" "length (enc s @ [NUL]) \<le> length (fst d)"
    using length_enc [of s] a(3) by (simp_all add: mem_bytes_def)
  ultimately have "?r = (enc s @ [NUL] @ drop (length (enc s) + 1) (fst d), length (enc s) + 1)"
    by (simp add: mem_bytes_def Let_def)
  then show "holds mem_bytes (Some ?r) (concat (map enc1 s)) \<and> n \<le> length (fst ?r)"
    using a(4) \<open>length (enc s @ [NUL]) \<le> length (fst d)\<close> by (simp add: holds_def mem_bytes_def enc_def)
qed (use enc1_char in \<open>auto simp: mem_bytes_def\<close>)

section \<open>Claim\<close>

text \<open>
  C26. \<open>mnhttp_uri_start_request\<close> is defined for every URI whose query terms were added with their sizes, and when it
  succeeds it has written the request line: the method, the relative part and, when there are query terms, every term with
  its key and its value percent-encoded, joined by ampersands, then the version. Each term is complete, whatever the sizes of the
  terms before it, although all are encoded in the same two buffers. A question
  mark comes before the terms exactly when the URI has no query string of its own; a URI that has one gets
  the terms glued to it, with no ampersand between.
\<close>

theorem uri_start_request_text:
  assumes "url_encoder be room ec" and "out_law oe content"
    and "list_all2 (term_holds be) (hash_items he (qterms uri)) ts" and "terms_fit be he uri"
    and "relative uri = Some rel" and "holds be (Some rel) rs" and "NUL \<notin> set rs"
  shows "\<exists>r out'. mnhttp_uri_start_request be he oe uri out meth = Some (r, out') \<and>
    (r = RC 0 \<longrightarrow> content out' = content out @ meth @ '' '' @ rs @
       query_text ec (hash_is_empty he (qterms uri)) (qstring uri) ts @ '' HTTP/1.1'' @ crlf)"
  by (rule url_encoder.start_request_text [OF assms])

definition str_bytes :: "string \<Rightarrow> char list \<times> nat" where
  "str_bytes s = bytes_new_from_str mem_bytes s"

definition sample_uri :: "(char list \<times> nat, ((char list \<times> nat) \<times> char list \<times> nat) list) mnhttp_uri" where
  "sample_uri = (mnhttp_uri_init list_hash)\<lparr>relative := Some (str_bytes ''/x?a=b''), qstring := Some (str_bytes ''a=b''),
     qterms := [(str_bytes ''k'', str_bytes ''v''), (str_bytes ''a b'', str_bytes ''c&d'')], qtermsz := 12\<rparr>"

theorem uri_start_request_text_witness:
  "\<exists>out'. mnhttp_uri_start_request mem_bytes list_hash (list_out 4096) sample_uri [] ''GET'' = Some (RC 0, out') \<and>
     out' = ''GET /x?a=b'' @ ''k=v&a%20b=c%26d'' @ '' HTTP/1.1'' @ crlf"
proof -
  let ?ts = "[(''k'', ''v''), (''a b'', ''c&d'')]"
  have t: "list_all2 (term_holds mem_bytes) (hash_items list_hash (qterms sample_uri)) ?ts"
    by (simp add: list_hash_def sample_uri_def term_holds_def holds_def str_bytes_def mem_bytes_def)
  have f: "terms_fit mem_bytes list_hash sample_uri"
    by (simp add: terms_fit_def list_hash_def sample_uri_def str_bytes_def mem_bytes_def)
  have r: "relative sample_uri = Some (str_bytes ''/x?a=b'')" "holds mem_bytes (Some (str_bytes ''/x?a=b'')) ''/x?a=b''" "NUL \<notin> set ''/x?a=b''"
    by (simp_all add: sample_uri_def holds_def str_bytes_def mem_bytes_def)
  have q: "query_text enc1 (hash_is_empty list_hash (qterms sample_uri)) (qstring sample_uri) ?ts = ''k=v&a%20b=c%26d''" by code_simp
  have ok: "map_option fst (mnhttp_uri_start_request mem_bytes list_hash (list_out 4096) sample_uri [] ''GET'') = Some (RC 0)" by code_simp
  obtain r' out' where "mnhttp_uri_start_request mem_bytes list_hash (list_out 4096) sample_uri [] ''GET'' = Some (r', out')"
      "r' = RC 0 \<longrightarrow> id out' = id [] @ ''GET'' @ '' '' @ ''/x?a=b'' @
         query_text enc1 (hash_is_empty list_hash (qterms sample_uri)) (qstring sample_uri) ?ts @ '' HTTP/1.1'' @ crlf"
    using uri_start_request_text [OF mem_encoder.url_encoder_axioms list_out_law t f r, of 4096 "[]" "''GET''"] by blast
  then show ?thesis using ok q by auto
qed

end
