(* ===== verification/CommandHelp.thy ===== *)
theory CommandHelp
  imports Bytes HttpCtx
begin

text \<open>
  The help text of src/src/mncommand.c: \<open>mncommand_find_ncopy\<close> and the loop of \<open>mncommand_ctx_format_help\<close> that
  breaks an option's description into lines. Sizes are \<open>size_t\<close>; where the code's \<open>--ncopy\<close> would wrap below
  zero, the \<open>memcpy\<close> that follows overruns its buffer, so that step is undefined (\<open>None\<close>).
  \<open>isspace\<close> and \<open>isalnum\<close> are called on plain \<open>char\<close> values; the model takes \<open>char\<close> to be unsigned, as the
  C standard allows. Where it is signed, a description with bytes above 127 is outside the domain of these functions.
\<close>

section \<open>The code\<close>

abbreviation (input) SPECW :: nat where "SPECW \<equiv> 24"
abbreviation (input) LINEW :: nat where "LINEW \<equiv> 78"

text \<open>The size of \<open>buf\<close>.\<close>

abbreviation (input) BUFSZ :: nat where "BUFSZ \<equiv> LINEW - SPECW + 1"

definition SPECE :: string where
  "SPECE = replicate SPECW SP"

text \<open>The search of \<open>mncommand_find_ncopy\<close> for a place to break, from \<open>n\<close> down.\<close>

fun find_space :: "char list \<Rightarrow> nat \<Rightarrow> nat \<Rightarrow> nat \<Rightarrow> nat option" where
  "find_space s nhead ncopy 0 = Some ncopy"
| "find_space s nhead ncopy (Suc n) = do {
     c \<leftarrow> nth_opt s (nhead + Suc n);
     if c_isspace c then Some (Suc n) else find_space s nhead ncopy n
   }"

definition mncommand_find_ncopy :: "char list \<Rightarrow> nat \<Rightarrow> nat \<Rightarrow> nat \<Rightarrow> nat option" where
  "mncommand_find_ncopy s nhead ntail bufsz =
     (let ncopy = min ntail (bufsz - 1 - 1)
      in if ncopy = bufsz - 2 then find_space s nhead ncopy ncopy else Some ncopy)"

text \<open>Skipping leading spaces: \<open>nhead\<close>, \<open>ntail\<close>, \<open>ncopy\<close>.\<close>

fun skip_spaces :: "char list \<Rightarrow> nat \<Rightarrow> nat \<Rightarrow> nat \<Rightarrow> (nat \<times> nat \<times> nat) option" where
  "skip_spaces s nhead ntail 0 = do {
     c \<leftarrow> nth_opt s nhead;
     if c_isspace c then None else Some (nhead, ntail, 0)
   }"
| "skip_spaces s nhead ntail (Suc n) = do {
     c \<leftarrow> nth_opt s nhead;
     if c_isspace c then skip_spaces s (Suc nhead) (ntail - 1) n else Some (nhead, ntail, Suc n)
   }"

text \<open>
  One round of the loop: the text copied to \<open>buf\<close>, whether a dash is added, and the new \<open>nhead\<close> and
  \<open>ntail\<close>. The condition on \<open>BUFSZ\<close> is that the last write to \<open>buf\<close> is inside it.
\<close>

definition help_line :: "char list \<Rightarrow> nat \<Rightarrow> nat \<Rightarrow> (string \<times> bool \<times> nat \<times> nat) option" where
  "help_line s nhead0 ntail0 = do {
     ncopy0 \<leftarrow> mncommand_find_ncopy s nhead0 ntail0 BUFSZ;
     (nhead, ntail, ncopy) \<leftarrow> skip_spaces s nhead0 ntail0 ncopy0;
     if \<not> nhead + ncopy \<le> length s then None else do {
     a \<leftarrow> rd s (int nhead + int ncopy - 1);
     b \<leftarrow> (if c_isalnum a then rd s (int nhead + int ncopy) else Some NUL);
     let dash = (c_isalnum a \<and> c_isalnum b);
     if \<not> ncopy + (if dash then 1 else 0) < BUFSZ then None
     else Some (take ncopy (drop nhead s), dash, nhead + ncopy, ntail - ncopy)
   }}"

lemma find_ncopy_pos: "0 < ntail \<Longrightarrow> mncommand_find_ncopy s nhead ntail BUFSZ = Some n \<Longrightarrow> 0 < n \<and> n \<le> ntail \<and> n \<le> 53"
proof -
  have fs: "find_space s nhead k m = Some n \<Longrightarrow> n = k \<or> 0 < n \<and> n \<le> m" for k m
    by (induction m) (auto split: Option.bind_split_asm if_split_asm)
  assume "0 < ntail" "mncommand_find_ncopy s nhead ntail BUFSZ = Some n"
  then show ?thesis
    using fs [of "min ntail 53" "min ntail 53"] by (auto simp: mncommand_find_ncopy_def Let_def split: if_split_asm)
qed

lemma skip_spaces_Some:
  "skip_spaces s nhead ntail n = Some (nhead', ntail', n') \<Longrightarrow>
     \<exists>k \<le> n. nhead' = nhead + k \<and> ntail' = ntail - k \<and> n' = n - k \<and> nhead' < length s \<and>
       list_all c_isspace (take k (drop nhead s)) \<and> \<not> c_isspace (s ! nhead')"
proof (induction s nhead ntail n rule: skip_spaces.induct)
  case (2 s nhead ntail n)
  show ?case
  proof (cases "nhead < length s \<and> c_isspace (s ! nhead)")
    case True
    then have "skip_spaces s (Suc nhead) (ntail - 1) n = Some (nhead', ntail', n')"
      using "2.prems" by (simp add: nth_opt_def)
    with 2 True obtain k where "k \<le> n" "nhead' = Suc nhead + k" "ntail' = ntail - 1 - k" "n' = n - k"
        "nhead' < length s" "list_all c_isspace (take k (drop (Suc nhead) s))" "\<not> c_isspace (s ! nhead')"
      by (auto simp: nth_opt_def)
    with True show ?thesis by (intro exI [of _ "Suc k"]) (simp add: Cons_nth_drop_Suc [symmetric])
  qed (use "2.prems" in \<open>auto simp: nth_opt_def split: if_split_asm intro!: exI [of _ 0]\<close>)
qed (auto simp: nth_opt_def split: if_split_asm)

lemma help_line_progress:
  "help_line s nhead ntail = Some (t, d, nhead', ntail') \<Longrightarrow> 0 < ntail' \<Longrightarrow> ntail' < ntail"
proof -
  assume a: "help_line s nhead ntail = Some (t, d, nhead', ntail')" "0 < ntail'"
  then obtain n0 nh nt n where *: "mncommand_find_ncopy s nhead ntail BUFSZ = Some n0"
      "skip_spaces s nhead ntail n0 = Some (nh, nt, n)" "ntail' = nt - n"
    by (auto simp: help_line_def Let_def split: Option.bind_split_asm if_split_asm)
  obtain k where k: "k \<le> n0" "nt = ntail - k" "n = n0 - k" using skip_spaces_Some [OF *(2)] by auto
  have "0 < ntail" using a(2) *(3) k(2) by auto
  then show ?thesis using find_ncopy_pos [OF _ *(1)] *(3) k by auto
qed

function help_lines :: "char list \<Rightarrow> nat \<Rightarrow> nat \<Rightarrow> (string \<times> bool) list option" where
  "help_lines s nhead ntail =
     (case help_line s nhead ntail of
        None \<Rightarrow> None
      | Some (t, dash, nhead', ntail') \<Rightarrow>
          if ntail' > 0 then map_option (\<lambda>ls. (t, dash) # ls) (help_lines s nhead' ntail')
          else Some [(t, dash)])"
  by pat_completeness auto
termination
  by (relation "measure (\<lambda>(s, nhead, ntail). ntail)") (auto dest: help_line_progress)

declare help_lines.simps [simp del]

definition line_text :: "string \<times> bool \<Rightarrow> string" where
  "line_text l = fst l @ (if snd l then ''-'' else [])"

text \<open>Writing the lines, each but the last followed by the indentation of the next.\<close>

fun write_lines :: "'o out_env \<Rightarrow> 'o \<Rightarrow> (string \<times> bool) list \<Rightarrow> 'o" where
  "write_lines oe bs [] = bs"
| "write_lines oe bs (l # ls) =
     (let bs1 = snd (bytestream_nprintf oe bs 1024 (line_text l @ [LF]))
      in if ls = [] then bs1 else write_lines oe (snd (bytestream_nprintf oe bs1 1024 SPECE)) ls)"

definition ljust :: "nat \<Rightarrow> string \<Rightarrow> string" where
  "ljust w s = s @ replicate (w - length s) SP"

definition format_cmd :: "'o out_env \<Rightarrow> 'o \<Rightarrow> string option \<Rightarrow> string option \<Rightarrow> 'o option" where
  "format_cmd oe bs helpspec description = do {
     spec \<leftarrow> helpspec;
     case bytestream_nprintf oe bs 1024 (''  '' @ ljust 22 spec) of (nwritten, bs1) \<Rightarrow>
       if nwritten > 0 then
         (let bs2 = (if nwritten > int SPECW
                     then snd (bytestream_nprintf oe (snd (bytestream_cat oe bs1 1 [LF])) 1024 SPECE)
                     else bs1)
          in case description of
               Some d \<Rightarrow> map_option (write_lines oe bs2) (help_lines (d @ [NUL]) 0 (length d))
             | None \<Rightarrow> Some (snd (bytestream_cat oe bs2 1 [LF])))
       else Some bs1
   }"

section \<open>Breaking a description into lines\<close>

text \<open>A description without two adjacent white space characters.\<close>

fun tame :: "string \<Rightarrow> bool" where
  "tame (c # d # cs) \<longleftrightarrow> \<not> (c_isspace c \<and> c_isspace d) \<and> tame (d # cs)"
| "tame _ \<longleftrightarrow> True"

definition visible :: "string \<Rightarrow> string" where
  "visible s = filter (\<lambda>c. \<not> c_isspace c) s"

lemma tame_nth: "tame s \<Longrightarrow> Suc i < length s \<Longrightarrow> \<not> (c_isspace (s ! i) \<and> c_isspace (s ! Suc i))"
proof (induction s arbitrary: i rule: tame.induct)
  case (1 c d cs)
  then show ?case by (cases i) auto
qed auto

lemma visible_append: "visible (s @ t) = visible s @ visible t"
  by (simp add: visible_def)

lemma visible_spaces: "list_all c_isspace s \<Longrightarrow> visible s = []"
  by (induction s) (auto simp: visible_def)

lemma not_space_NUL [simp]: "\<not> c_isspace NUL" by (simp add: c_isspace_def)

lemma find_space_defined: "nhead + m < length s \<Longrightarrow> \<exists>n. find_space s nhead k m = Some n"
  by (induction m) (auto simp: nth_opt_def)

lemma find_ncopy_defined:
  "nhead + ntail < length s \<Longrightarrow> \<exists>n. mncommand_find_ncopy s nhead ntail bufsz = Some n"
  using find_space_defined [of nhead "min ntail (bufsz - 2)" s "bufsz - 2"]
  by (auto simp: mncommand_find_ncopy_def Let_def min_def split: if_splits)

text \<open>With single spaces, at least one of which is to be copied, skipping is defined and skips at most one.\<close>

lemma skip_spaces_tame:
  assumes "tame d" and "s = d @ [NUL]" and "nhead < length d" and "0 < n"
  shows "\<exists>k \<le> 1. skip_spaces s nhead ntail n = Some (nhead + k, ntail - k, n - k)"
proof (cases "c_isspace (d ! nhead)")
  case True
  have "\<not> c_isspace (s ! Suc nhead)"
    using tame_nth [OF assms(1), of nhead] True assms(2,3) by (cases "Suc nhead < length d") (auto simp: nth_append less_Suc_eq)
  moreover obtain m where "n = Suc m" using assms(4) by (cases n) auto
  ultimately show ?thesis
    using True assms(2,3) by (intro exI [of _ 1], cases m) (auto simp: nth_opt_def nth_append)
next
  case False
  moreover obtain m where "n = Suc m" using assms(4) by (cases n) auto
  ultimately show ?thesis using assms(2,3) by (intro exI [of _ 0]) (auto simp: nth_opt_def nth_append)
qed

lemma help_line_tame:
  assumes "tame d" and "s = d @ [NUL]" and "nhead + ntail = length d" and "0 < ntail"
  shows "\<exists>t dash nhead' ntail'. help_line s nhead ntail = Some (t, dash, nhead', ntail') \<and> length t \<le> 53 \<and>
    nhead' + ntail' = length d \<and> visible (drop nhead d) = visible t @ visible (drop nhead' d)"
proof -
  obtain n where n: "mncommand_find_ncopy s nhead ntail BUFSZ = Some n"
    using find_ncopy_defined [of nhead ntail s BUFSZ] assms(2,3) by auto
  note np = find_ncopy_pos [OF assms(4) n]
  have nl: "nhead < length d" using assms(3,4) by simp
  obtain k where k: "k \<le> 1" "skip_spaces s nhead ntail n = Some (nhead + k, ntail - k, n - k)"
    using skip_spaces_tame [OF assms(1,2) nl, of n ntail] np by auto
  have kn: "k \<le> n" using k(1) np by simp
  have sp: "list_all c_isspace (take k (drop nhead d))"
    using skip_spaces_Some [OF k(2)] kn np assms(2,3) by auto
  have pos: "0 \<le> int (nhead + k) + int (n - k) - 1" "nhead + k + (n - k) = nhead + n" using kn np by auto
  have le: "nhead + n \<le> length d" using np assms(3) by simp
  obtain a where a: "rd s (int (nhead + k) + int (n - k) - 1) = Some a"
    using rd_Some [of "int (nhead + k) + int (n - k) - 1" s] pos le by (simp add: assms(2))
  obtain b where b: "rd s (int (nhead + k) + int (n - k)) = Some b"
    using rd_Some [of "int (nhead + k) + int (n - k)" s] pos le by (simp add: assms(2))
  have tk: "take (n - k) (drop (nhead + k) s) = take (n - k) (drop (nhead + k) d)"
    using le kn by (simp add: assms(2))
  have "\<exists>dash. help_line s nhead ntail = Some (take (n - k) (drop (nhead + k) s), dash, nhead + n, ntail - n)"
    using n k(2) a b le np kn pos(2) by (auto simp: help_line_def Let_def assms(2))
  then obtain dash where hl: "help_line s nhead ntail = Some (take (n - k) (drop (nhead + k) d), dash, nhead + n, ntail - n)"
    unfolding tk by blast
  have "drop nhead d = take k (drop nhead d) @ take (n - k) (drop (nhead + k) d) @ drop (nhead + n) d"
  proof -
    have "drop (n - k) (drop (nhead + k) d) = drop (nhead + n) d" using kn by (simp add: add.commute)
    then have "drop (nhead + k) d = take (n - k) (drop (nhead + k) d) @ drop (nhead + n) d"
      using append_take_drop_id [of "n - k" "drop (nhead + k) d"] by simp
    moreover have "drop k (drop nhead d) = drop (nhead + k) d" by (simp add: add.commute)
    ultimately show ?thesis using append_take_drop_id [of k "drop nhead d"] by simp
  qed
  then have "visible (drop nhead d) = visible (take (n - k) (drop (nhead + k) d)) @ visible (drop (nhead + n) d)"
    using visible_spaces [OF sp] by (metis append_Nil visible_append)
  moreover have "length (take (n - k) (drop (nhead + k) d)) \<le> 53" "nhead + n + (ntail - n) = length d"
    using np assms(3) by (auto simp: min_def)
  ultimately show ?thesis using hl by blast
qed

lemma help_lines_tame:
  assumes "tame d" and "nhead + ntail = length d" and "0 < ntail"
  shows "\<exists>ls. help_lines (d @ [NUL]) nhead ntail = Some ls \<and> list_all (\<lambda>l. length (line_text l) \<le> 54) ls \<and>
    visible (concat (map fst ls)) = visible (drop nhead d)"
  using assms(2,3)
proof (induction ntail arbitrary: nhead rule: less_induct)
  case (less ntail)
  obtain t dash nhead' ntail' where l: "help_line (d @ [NUL]) nhead ntail = Some (t, dash, nhead', ntail')"
      "length t \<le> 53" "nhead' + ntail' = length d" "visible (drop nhead d) = visible t @ visible (drop nhead' d)"
    using help_line_tame [OF assms(1) refl less.prems] by blast
  have lt: "length (line_text (t, dash)) \<le> 54" using l(2) by (simp add: line_text_def)
  show ?case
  proof (cases "0 < ntail'")
    case True
    obtain ls where "help_lines (d @ [NUL]) nhead' ntail' = Some ls" "list_all (\<lambda>l. length (line_text l) \<le> 54) ls"
        "visible (concat (map fst ls)) = visible (drop nhead' d)"
      using less.IH [OF help_line_progress [OF l(1) True] l(3) True] by blast
    with True l(1,4) lt show ?thesis
      by (intro exI [of _ "(t, dash) # ls"]) (simp add: help_lines.simps [of _ nhead] visible_append)
  next
    case False
    with l lt show ?thesis
      by (intro exI [of _ "[(t, dash)]"]) (simp add: help_lines.simps [of _ nhead] visible_def)
  qed
qed

text \<open>
  C29. A non-empty description without adjacent white space is broken into lines safely: the loop ends,
  never reads outside the description or writes outside its buffer, every line with its dash
  has at most 54 characters, and the lines together hold exactly the description's visible
  characters in order.
\<close>

theorem help_text_complete:
  assumes "tame d" and "d \<noteq> []"
  shows "\<exists>ls. help_lines (d @ [NUL]) 0 (length d) = Some ls \<and> list_all (\<lambda>l. length (line_text l) \<le> 54) ls \<and>
    visible (concat (map fst ls)) = visible d"
  using help_lines_tame [OF assms(1), of 0 "length d"] assms(2) by simp

theorem help_text_complete_witness:
  "\<exists>ls. help_lines (''verbose output'' @ [NUL]) 0 (length ''verbose output'') = Some ls \<and>
     visible (concat (map fst ls)) = ''verboseoutput''"
proof -
  have t: "tame ''verbose output''" "''verbose output'' \<noteq> []" by code_simp+
  have "visible ''verbose output'' = ''verboseoutput''" by code_simp
  then show ?thesis using help_text_complete [OF t] by metis
qed

lemma find_space_at_1:
  assumes "m < length s" and "1 \<le> m" and "c_isspace (s ! 1)" and "\<And>j. 2 \<le> j \<Longrightarrow> j \<le> m \<Longrightarrow> \<not> c_isspace (s ! j)"
  shows "find_space s 0 k m = Some 1"
  using assms
proof (induction m)
  case (Suc m)
  show ?case
  proof (cases "m = 0")
    case True
    with Suc.prems show ?thesis by (simp add: nth_opt_def)
  next
    case False
    then have "find_space s 0 k m = Some 1" using Suc by simp
    moreover have "\<not> c_isspace (s ! Suc m)" using Suc.prems(4) [of "Suc m"] False by simp
    ultimately show ?thesis using Suc.prems(1) by (simp add: nth_opt_def)
  qed
qed simp

text \<open>
  C38. A description that begins with two blanks and a word of at least 52 characters makes the help
  function copy outside its buffer: the only break it finds is the second blank, and skipping both
  blanks then takes the number of bytes to copy below zero. So does an empty description, whose
  byte before the first is read.
\<close>

theorem help_text_overrun:
  assumes "list_all (\<lambda>c. \<not> c_isspace c) w" and "52 \<le> length w"
  shows "help_lines ((''  '' @ w) @ [NUL]) 0 (length (''  '' @ w)) = None \<and> help_lines ([] @ [NUL]) 0 (length []) = None"
proof (rule conjI)
  let ?s = "(''  '' @ w) @ [NUL]"
  have "\<not> c_isspace (?s ! j)" if "2 \<le> j" "j \<le> 53" for j
  proof -
    define i where "i = j - 2"
    have j: "j = Suc (Suc i)" using that(1) by (simp add: i_def)
    then have "?s ! j = (w @ [NUL]) ! i" by simp
    moreover have "i \<le> length w" using that(2) assms(2) j by simp
    ultimately show ?thesis using assms(1) by (cases "i < length w") (auto simp: nth_append list_all_length)
  qed
  then have "find_space ?s 0 53 53 = Some 1"
    using assms(2) by (intro find_space_at_1) (auto simp: c_isspace_def)
  then have "mncommand_find_ncopy ?s 0 (length (''  '' @ w)) BUFSZ = Some 1"
    using assms(2) by (simp add: mncommand_find_ncopy_def Let_def min_def del: find_space.simps)
  moreover have "skip_spaces ?s 0 (length (''  '' @ w)) 1 = None"
    by (simp add: nth_opt_def c_isspace_def)
  ultimately show "help_lines ?s 0 (length (''  '' @ w)) = None"
    by (subst help_lines.simps) (simp add: help_line_def)
  show "help_lines ([] @ [NUL]) 0 (length []) = None"
    by (subst help_lines.simps) (simp add: help_line_def mncommand_find_ncopy_def nth_opt_def rd_def)
qed

theorem help_text_overrun_witness:
  "help_lines ((''  '' @ replicate 52 (CHR ''x'')) @ [NUL]) 0 (length (''  '' @ replicate 52 (CHR ''x''))) = None"
  using help_text_overrun [of "replicate 52 (CHR ''x'')"] by (simp add: list_all_iff c_isspace_def)

end
