(* ===== verification/Command.thy ===== *)
theory Command
  imports CommandHelp
begin

text \<open>
  The option registry of src/src/mncommand.c. A context holds an array of commands and, beside it, the array
  of \<open>struct option\<close> that is handed to \<open>getopt_long\<close>; an option's \<open>flag\<close> points to the \<open>flag\<close> field of a
  command, here given by the command's index. Byte strings are the C strings they hold. \<open>getopt_long\<close> is an
  argument: the events it reports, one per call, until it is done, and the final \<open>optind\<close>.
\<close>

section \<open>Data\<close>

record getopt_option =
  name :: "string option"
  has_arg :: int
  oflag :: "nat option"
  val :: int

definition zero_option :: getopt_option where
  "zero_option = \<lparr>name = None, has_arg = 0, oflag = None, val = 0\<rparr>"

text \<open>A command's function gets the command's value, the option's argument and the user's data.\<close>

type_synonym 'u option_func = "int \<Rightarrow> string option \<Rightarrow> 'u \<Rightarrow> int \<times> 'u"

record 'u mncommand_cmd =
  longname :: "string option"
  flag :: int
  description :: "string option"
  helpspec :: "string option"
  opt :: getopt_option
  func :: "'u option_func option"

record 'u mncommand_ctx =
  progname :: "string option"
  commands :: "'u mncommand_cmd list"
  options :: "getopt_option list"

section \<open>Registering\<close>

text \<open>\<open>array_init\<close> may fail.\<close>

definition mncommand_ctx_init :: "bool \<Rightarrow> bool \<Rightarrow> res \<times> 'u mncommand_ctx" where
  "mncommand_ctx_init ok1 ok2 =
     (if \<not> ok1 then ERR MNCOMMAND_CTX_INIT 1 else if \<not> ok2 then ERR MNCOMMAND_CTX_INIT 2 else RC 0,
      \<lparr>progname = None, commands = [], options = []\<rparr>)"

definition mncommand_cmd_init :: "'u mncommand_cmd" where
  "mncommand_cmd_init = \<lparr>longname = None, flag = 0, description = None, helpspec = None, opt = zero_option,
     func = None\<rparr>"

definition mncommand_ctx_fini :: "'u mncommand_ctx \<Rightarrow> int \<times> 'u mncommand_ctx" where
  "mncommand_ctx_fini ctx = (0, \<lparr>progname = None, commands = [], options = []\<rparr>)"

text \<open>\<open>isalnum\<close> on an \<open>int\<close>: defined for \<open>EOF\<close> and the values of \<open>unsigned char\<close>.\<close>

definition isalnum_int :: "int \<Rightarrow> bool option" where
  "isalnum_int v =
     (if v = -1 then Some False
      else if 0 \<le> v \<and> v \<le> 255 then Some (c_isalnum (char_at (nat v))) else None)"

text \<open>\<open>%c\<close>.\<close>

definition char_of_int :: "int \<Rightarrow> char" where
  "char_of_int v = char_at (nat (v mod 256))"

definition mncommand_cmd_compute_helpspec :: "'u mncommand_cmd \<Rightarrow> 'u mncommand_cmd option" where
  "mncommand_cmd_compute_helpspec cmd = do {
     al \<leftarrow> isalnum_int (val (opt cmd));
     let namespec = (case longname cmd of
         Some n \<Rightarrow> if al then ''--'' @ n @ ''|-'' @ [char_of_int (val (opt cmd))] else ''--'' @ n
       | None \<Rightarrow> if al then ''-'' @ [char_of_int (val (opt cmd))] else ''--'');
     let argspec = (if has_arg (opt cmd) \<noteq> 0 then ''ARG'' else '''');
     Some (cmd\<lparr>helpspec := Some (namespec @ '' '' @ argspec)\<rparr>)
   }"

text \<open>\<open>array_incr\<close> may fail, once for each array; \<open>longname\<close> is asserted not to be \<open>NULL\<close>.\<close>

definition mncommand_ctx_add_cmd ::
  "bool \<Rightarrow> bool \<Rightarrow> 'u mncommand_ctx \<Rightarrow> string option \<Rightarrow> int \<Rightarrow> int \<Rightarrow> string option \<Rightarrow> 'u option_func option \<Rightarrow>
   (res \<times> 'u mncommand_ctx) option" where
  "mncommand_ctx_add_cmd ok1 ok2 ctx lname shortname harg descr fn =
     (if \<not> ok1 then Some (ERR MNCOMMAND_CTX_ADD_CMD 1, ctx)
      else do {
        n \<leftarrow> lname;
        cmd \<leftarrow> mncommand_cmd_compute_helpspec (mncommand_cmd_init\<lparr>longname := Some n, description := descr,
          func := fn, opt := \<lparr>name = Some n, has_arg = harg, oflag = None, val = shortname\<rparr>\<rparr>);
        let ctx1 = ctx\<lparr>commands := commands ctx @ [cmd]\<rparr>;
        Some (if \<not> ok2 then (ERR MNCOMMAND_CTX_ADD_CMD 2, ctx1)
              else (RC 0, ctx1\<lparr>options := options ctx1 @ [opt cmd]\<rparr>))
      })"

section \<open>Parsing the command line\<close>

text \<open>
  The short option characters: a colon follows the character of an option with an argument. The function also
  sets the command's flag pointer; the command's index is an argument.
\<close>

definition getopt_symbol :: "nat \<Rightarrow> 'u mncommand_cmd \<Rightarrow> (string \<times> 'u mncommand_cmd) option" where
  "getopt_symbol i cmd =
     map_option (\<lambda>al. (if al then [char_of_int (val (opt cmd))] @ (if has_arg (opt cmd) \<noteq> 0 then '':'' else [])
                       else [], cmd\<lparr>opt := (opt cmd)\<lparr>oflag := Some i\<rparr>\<rparr>))
       (isalnum_int (val (opt cmd)))"

fun getopt_symbols :: "nat \<Rightarrow> 'u mncommand_cmd list \<Rightarrow> (string \<times> 'u mncommand_cmd list) option" where
  "getopt_symbols i [] = Some ([], [])"
| "getopt_symbols i (c # cs) = do {
     (s, c') \<leftarrow> getopt_symbol i c;
     (ss, cs') \<leftarrow> getopt_symbols (Suc i) cs;
     Some (s @ ss, c' # cs')
   }"

text \<open>The fixups: entry \<open>i\<close> of both arrays gets a pointer to the flag of command \<open>i\<close>.\<close>

fun fixups :: "nat \<Rightarrow> 'u mncommand_cmd list \<Rightarrow> getopt_option list \<Rightarrow> ('u mncommand_cmd list \<times> getopt_option list) option" where
  "fixups i [] opts = Some ([], opts)"
| "fixups i (c # cs) opts = do {
     e \<leftarrow> nth_opt opts i;
     (cs', opts') \<leftarrow> fixups (Suc i) cs (opts[i := e\<lparr>oflag := Some i\<rparr>]);
     Some (c\<lparr>opt := (opt c)\<lparr>oflag := Some i\<rparr>\<rparr> # cs', opts')
   }"

text \<open>What one call of \<open>getopt_long\<close> reports: its result, the index of a long option or -1, the argument.\<close>

record getopt_event =
  ch :: int
  curropt :: int
  optarg :: "string option"

type_synonym getopt_long = "string list \<Rightarrow> string \<Rightarrow> getopt_option list \<Rightarrow> getopt_event list \<times> int"

text \<open>\<open>array_get\<close> gives \<open>NULL\<close> outside the array.\<close>

definition mncommand_ctx_find_cmd :: "'u mncommand_ctx \<Rightarrow> int \<Rightarrow> int \<Rightarrow> 'u mncommand_cmd option" where
  "mncommand_ctx_find_cmd ctx i optch =
     (if i = -1 then find (\<lambda>c. val (opt c) = optch) (commands ctx)
      else if 0 \<le> i then nth_opt (commands ctx) (nat i) else None)"

text \<open>For a long option with a flag pointer, \<open>getopt_long\<close> stores the option's value there.\<close>

definition store_flag :: "getopt_event \<Rightarrow> 'u mncommand_ctx \<Rightarrow> 'u mncommand_ctx" where
  "store_flag ev ctx =
     (if curropt ev < 0 then ctx
      else case nth_opt (options ctx) (nat (curropt ev)) of
        None \<Rightarrow> ctx
      | Some e \<Rightarrow> (case oflag e of
          None \<Rightarrow> ctx
        | Some k \<Rightarrow> ctx\<lparr>commands := (commands ctx)[k := (commands ctx ! k)\<lparr>flag := val e\<rparr>]\<rparr>))"

fun getopt_loop :: "getopt_event list \<Rightarrow> int \<Rightarrow> 'u mncommand_ctx \<Rightarrow> 'u \<Rightarrow> res \<times> 'u mncommand_ctx \<times> 'u" where
  "getopt_loop [] optind ctx u = (RC optind, ctx, u)"
| "getopt_loop (ev # evs) optind ctx u =
     (let ctx1 = store_flag ev ctx in
      case mncommand_ctx_find_cmd ctx1 (curropt ev) (ch ev) of
        None \<Rightarrow> (ERR MNCOMMAND_CTX_GETOPT 2, ctx1, u)
      | Some cmd \<Rightarrow>
          (case func cmd of
             None \<Rightarrow> getopt_loop evs optind ctx1 u
           | Some f \<Rightarrow> (case f (val (opt cmd)) (optarg ev) u of (r, u1) \<Rightarrow>
               if r \<noteq> 0 then (RC r, ctx1, u1) else getopt_loop evs optind ctx1 u1)))"

text \<open>\<open>basename\<close> of libgen: the last component, without trailing slashes.\<close>

definition basename :: "string \<Rightarrow> string" where
  "basename s =
     (if s = [] then ''.''
      else let t = rev (dropWhile (\<lambda>c. c = CHR ''/'') (rev s)) in
        if t = [] then ''/'' else rev (takeWhile (\<lambda>c. c \<noteq> CHR ''/'') (rev t)))"

text \<open>\<open>ok\<close>: the array of options can grow by the terminator; the program aborts when it cannot.\<close>

definition mncommand_ctx_getopt ::
  "getopt_long \<Rightarrow> bool \<Rightarrow> 'u mncommand_ctx \<Rightarrow> string list \<Rightarrow> 'u \<Rightarrow> (res \<times> 'u mncommand_ctx \<times> 'u) option" where
  "mncommand_ctx_getopt gl ok ctx argv u = do {
     pn \<leftarrow> (case progname ctx of
              None \<Rightarrow> map_option (\<lambda>a. Some (basename a)) (nth_opt argv 0)
            | Some p \<Rightarrow> Some (Some p));
     (cmds, opts) \<leftarrow> fixups 0 (commands ctx) (options ctx);
     (syms, cmds) \<leftarrow> getopt_symbols 0 cmds;
     if \<not> ok then None else do {
     let ctx1 = ctx\<lparr>progname := pn, commands := cmds, options := opts @ [zero_option]\<rparr>;
     Some (if options ctx1 = [] then (ERR MNCOMMAND_CTX_GETOPT 1, ctx1, u)
           else case gl argv syms (options ctx1) of (evs, optind) \<Rightarrow> getopt_loop evs optind ctx1 u)
   }}"

section \<open>Option functions\<close>

text \<open>
  The ready-made functions store through the command's \<open>udata\<close> pointer; each takes the command's value, the
  argument and the old value, and gives the result 0 and the new value. \<open>strtoimax\<close> is \<open>strtol\<close> on 64 bits;
  \<open>strtoumax\<close> negates modulo \<open>2 ^ 64\<close> and saturates; \<open>strtod\<close> is a parameter.
\<close>

definition strtoimax :: "string \<Rightarrow> int" where
  "strtoimax s = (case strtol 10 (s @ [NUL]) of Some (v, n, cv) \<Rightarrow> v | None \<Rightarrow> 0)"

definition strtoumax :: "string \<Rightarrow> int" where
  "strtoumax s =
     (let t = dropWhile c_isspace s;
          neg = (t \<noteq> [] \<and> hd t = CHR ''-'');
          ds = takeWhile c_isdigit (if t \<noteq> [] \<and> hd t \<in> set ''+-'' then drop 1 t else t);
          v = int (digits_val 10 ds)
      in if v \<ge> 2 ^ 64 then 2 ^ 64 - 1 else if neg then (- v) mod 2 ^ 64 else v)"

definition mncommand_option_int :: "int \<Rightarrow> string option \<Rightarrow> int \<Rightarrow> int \<times> int" where
  "mncommand_option_int v arg old = (0, case arg of Some s \<Rightarrow> strtoimax s | None \<Rightarrow> v)"

definition mncommand_option_uint :: "int \<Rightarrow> string option \<Rightarrow> int \<Rightarrow> int \<times> int" where
  "mncommand_option_uint v arg old = (0, case arg of Some s \<Rightarrow> strtoumax s | None \<Rightarrow> v mod 2 ^ 64)"

definition mncommand_option_double :: "(string \<Rightarrow> 'd) \<Rightarrow> int \<Rightarrow> string option \<Rightarrow> 'd \<Rightarrow> int \<times> 'd" where
  "mncommand_option_double strtod v arg old = (0, case arg of Some s \<Rightarrow> strtod s | None \<Rightarrow> old)"

definition strcasecmp0 :: "string \<Rightarrow> string \<Rightarrow> bool" where
  "strcasecmp0 s lit = (strcasecmp_eq (s @ [NUL]) lit = Some True)"

definition mncommand_option_bool :: "int \<Rightarrow> string option \<Rightarrow> bool \<Rightarrow> int \<times> bool" where
  "mncommand_option_bool v arg old =
     (0, case arg of
           Some s \<Rightarrow> \<not> (strcasecmp0 s ''0'' \<or> strcasecmp0 s ''off'' \<or> strcasecmp0 s ''false'' \<or> strcasecmp0 s ''no'')
         | None \<Rightarrow> True)"

definition mncommand_option_bytes :: "int \<Rightarrow> string option \<Rightarrow> string option \<Rightarrow> int \<times> string option" where
  "mncommand_option_bytes v arg old = (0, case arg of Some s \<Rightarrow> Some s | None \<Rightarrow> None)"

section \<open>Help\<close>

fun format_cmds :: "'o out_env \<Rightarrow> 'o \<Rightarrow> 'u mncommand_cmd list \<Rightarrow> 'o option" where
  "format_cmds oe bs [] = Some bs"
| "format_cmds oe bs (c # cs) = do { bs1 \<leftarrow> format_cmd oe bs (helpspec c) (description c); format_cmds oe bs1 cs }"

definition mncommand_ctx_format_help :: "'o out_env \<Rightarrow> 'u mncommand_ctx \<Rightarrow> 'o \<Rightarrow> 'o option" where
  "mncommand_ctx_format_help oe ctx bs = do {
     p \<leftarrow> progname ctx;
     format_cmds oe (snd (bytestream_nprintf oe bs 1024 (''Usage: '' @ p @ '' [OPTIONS] [ARGUMENTS]'' @ [LF, LF])))
       (commands ctx)
   }"

section \<open>The registry invariant\<close>

text \<open>The two arrays agree: option \<open>i\<close> is the option of command \<open>i\<close>, under the command's own name.\<close>

definition shorts_ok :: "'u mncommand_cmd list \<Rightarrow> bool" where
  "shorts_ok cs \<longleftrightarrow> list_all (\<lambda>c. isalnum_int (val (opt c)) \<noteq> None) cs"

definition registry_ok :: "'u mncommand_ctx \<Rightarrow> bool" where
  "registry_ok ctx \<longleftrightarrow>
     options ctx = map opt (commands ctx) \<and>
     list_all (\<lambda>c. longname c \<noteq> None \<and> name (opt c) = longname c \<and> helpspec c \<noteq> None) (commands ctx) \<and>
     shorts_ok (commands ctx)"

text \<open>A context as a program sets it up: initialised, then given commands.\<close>

inductive set_up :: "'u mncommand_ctx \<Rightarrow> bool" where
  init: "mncommand_ctx_init True True = (RC 0, ctx) \<Longrightarrow> set_up ctx"
| add: "set_up ctx \<Longrightarrow> mncommand_ctx_add_cmd ok1 ok2 ctx lname sname harg descr fn = Some (RC 0, ctx') \<Longrightarrow> set_up ctx'"

lemma compute_helpspec_eq:
  "isalnum_int (val (opt c)) \<noteq> None \<Longrightarrow>
     \<exists>h. mncommand_cmd_compute_helpspec c = Some (c\<lparr>helpspec := Some h\<rparr>)"
  by (auto simp: mncommand_cmd_compute_helpspec_def Let_def)

lemma compute_helpspec_Some:
  "mncommand_cmd_compute_helpspec c = Some c' \<Longrightarrow>
     isalnum_int (val (opt c)) \<noteq> None \<and> (\<exists>h. c' = c\<lparr>helpspec := Some h\<rparr>)"
  by (auto simp: mncommand_cmd_compute_helpspec_def Let_def split: Option.bind_split_asm)

lemma add_cmd_RC:
  assumes "mncommand_ctx_add_cmd ok1 ok2 ctx lname sname harg descr fn = Some (RC 0, ctx')"
  shows "\<exists>c. ctx' = ctx\<lparr>commands := commands ctx @ [c], options := options ctx @ [opt c]\<rparr> \<and> longname c = lname \<and>
    lname \<noteq> None \<and> opt c = \<lparr>name = lname, has_arg = harg, oflag = None, val = sname\<rparr> \<and> description c = descr \<and>
    func c = fn \<and> flag c = 0 \<and> helpspec c \<noteq> None \<and> isalnum_int sname \<noteq> None"
  using assms
  by (auto simp: mncommand_ctx_add_cmd_def mncommand_cmd_init_def Let_def dest!: compute_helpspec_Some
      split: Option.bind_split_asm if_split_asm)

lemma add_cmd_succeeds:
  assumes "isalnum_int sname \<noteq> None"
  shows "\<exists>ctx'. mncommand_ctx_add_cmd True True ctx (Some n) sname harg descr fn = Some (RC 0, ctx')"
  using assms compute_helpspec_eq [of "mncommand_cmd_init\<lparr>longname := Some n, description := descr,
    func := fn, opt := \<lparr>name = Some n, has_arg = harg, oflag = None, val = sname\<rparr>\<rparr>"]
  by (auto simp: mncommand_ctx_add_cmd_def)

lemma registry_ok_add: "registry_ok ctx \<Longrightarrow>
    mncommand_ctx_add_cmd ok1 ok2 ctx lname sname harg descr fn = Some (RC 0, ctx') \<Longrightarrow> registry_ok ctx'"
  by (drule add_cmd_RC) (auto simp: registry_ok_def shorts_ok_def)

lemma set_up_registry_ok: "set_up ctx \<Longrightarrow> registry_ok ctx"
proof (induction rule: set_up.induct)
  case (init ctx)
  then show ?case by (auto simp: mncommand_ctx_init_def registry_ok_def shorts_ok_def)
qed (rule registry_ok_add)

section \<open>The fixups\<close>

definition point :: "nat \<Rightarrow> 'u mncommand_cmd \<Rightarrow> 'u mncommand_cmd" where
  "point i c = c\<lparr>opt := (opt c)\<lparr>oflag := Some i\<rparr>\<rparr>"

lemma point_simps [simp]:
  "longname (point i c) = longname c" "func (point i c) = func c" "val (opt (point i c)) = val (opt c)"
  "name (opt (point i c)) = name (opt c)" "has_arg (opt (point i c)) = has_arg (opt c)"
  "oflag (opt (point i c)) = Some i" "point j (point i c) = point j c"
  by (simp_all add: point_def)

fun points :: "nat \<Rightarrow> 'u mncommand_cmd list \<Rightarrow> 'u mncommand_cmd list" where
  "points i [] = []"
| "points i (c # cs) = point i c # points (Suc i) cs"

lemma points_length [simp]: "length (points i cs) = length cs"
  by (induction i cs rule: points.induct) auto

lemma points_nth: "j < length cs \<Longrightarrow> points i cs ! j = point (i + j) (cs ! j)"
proof (induction i cs arbitrary: j rule: points.induct)
  case (2 i c cs)
  then show ?case by (cases j) auto
qed simp

lemma points_longname [simp]: "map longname (points i cs) = map longname cs"
  by (induction i cs rule: points.induct) auto

lemma points_points [simp]: "points i (points i cs) = points i cs"
  by (induction i cs rule: points.induct) auto

lemma fixups_eq:
  "fixups (length pre) cs (pre @ map opt cs @ post) = Some (points (length pre) cs, pre @ map opt (points (length pre) cs) @ post)"
proof (induction cs arbitrary: pre)
  case (Cons c cs)
  have "fixups (Suc (length pre)) cs ((pre @ [opt (point (length pre) c)]) @ map opt cs @ post) =
      Some (points (Suc (length pre)) cs, (pre @ [opt (point (length pre) c)]) @ map opt (points (Suc (length pre)) cs) @ post)"
    using Cons [of "pre @ [opt (point (length pre) c)]"] by simp
  then show ?case by (simp add: nth_opt_def point_def)
qed simp

lemma fixups_ok: "fixups 0 cs (map opt cs @ post) = Some (points 0 cs, map opt (points 0 cs) @ post)"
  using fixups_eq [of "[]" cs post] by simp

text \<open>The short options string, of the commands as they are registered.\<close>

definition short_spec :: "'u mncommand_cmd \<Rightarrow> string" where
  "short_spec c = (if isalnum_int (val (opt c)) = Some True
     then char_of_int (val (opt c)) # (if has_arg (opt c) = 0 then [] else '':'') else [])"

lemma getopt_symbols_eq:
  "shorts_ok cs \<Longrightarrow>
     getopt_symbols i cs = Some (concat (map short_spec cs), points i cs)"
  by (induction i cs rule: points.induct) (auto simp: getopt_symbol_def short_spec_def point_def shorts_ok_def)

lemma points_shorts_ok [simp]: "shorts_ok (points i cs) \<longleftrightarrow> shorts_ok cs"
  by (induction i cs rule: points.induct) (auto simp: shorts_ok_def)

lemma points_short_spec [simp]: "map short_spec (points i cs) = map short_spec cs"
  by (induction i cs rule: points.induct) (auto simp: short_spec_def)

text \<open>The context \<open>getopt_long\<close> is called with, on a well formed registry followed by old terminators.\<close>

definition fixed :: "string \<Rightarrow> 'u mncommand_ctx \<Rightarrow> 'u mncommand_ctx" where
  "fixed a ctx = ctx\<lparr>progname := Some (case progname ctx of None \<Rightarrow> basename a | Some p \<Rightarrow> p),
     commands := points 0 (commands ctx), options := map opt (points 0 (commands ctx)) @ [zero_option]\<rparr>"

lemma getopt_eq:
  assumes "registry_ok ctx"
  shows "mncommand_ctx_getopt gl True ctx (a # argv) u =
    Some (case gl (a # argv) (concat (map short_spec (commands ctx))) (options (fixed a ctx)) of
            (evs, optind) \<Rightarrow> getopt_loop evs optind (fixed a ctx) u)"
proof -
  have al: "shorts_ok (commands ctx)"
    and opts: "options ctx = map opt (commands ctx) @ []"
    using assms by (auto simp: registry_ok_def)
  note f = fixups_ok [of "commands ctx" "[]", folded opts]
  have g: "getopt_symbols 0 (points 0 (commands ctx)) = Some (concat (map short_spec (commands ctx)), points 0 (commands ctx))"
    using getopt_symbols_eq [of "points 0 (commands ctx)" 0] al by simp
  show ?thesis
    by (cases "progname ctx") (simp_all add: mncommand_ctx_getopt_def f g fixed_def nth_opt_def)
qed

section \<open>The loop\<close>

text \<open>A command up to the flag \<open>getopt_long\<close> stores to: the loop changes nothing else of the commands.\<close>

definition unflag :: "'u mncommand_cmd \<Rightarrow> 'u mncommand_cmd" where
  "unflag c = c\<lparr>flag := 0\<rparr>"

lemma unflag_eqD: "unflag c = unflag d \<Longrightarrow> func c = func d \<and> opt c = opt d \<and> longname c = longname d"
  by (cases c, cases d) (simp add: unflag_def)

lemma unflag_update [simp]: "map unflag (cs[k := (cs ! k)\<lparr>flag := v\<rparr>]) = map unflag cs"
  by (cases "k < length cs") (simp_all add: map_update unflag_def list_update_same_conv list_update_beyond)

lemma store_flag_unflag [simp]: "map unflag (commands (store_flag ev ctx)) = map unflag (commands ctx)"
  by (simp add: store_flag_def split: option.split)

lemma find_cmd_unflag:
  assumes "map unflag (commands a) = map unflag (commands b)" and "mncommand_ctx_find_cmd b i v = Some c"
  shows "\<exists>c'. mncommand_ctx_find_cmd a i v = Some c' \<and> func c' = func c \<and> val (opt c') = val (opt c)"
proof -
  have len: "length (commands a) = length (commands b)" using assms(1) by (rule map_eq_imp_length_eq)
  have eq: "func (commands a ! k) = func (commands b ! k) \<and> val (opt (commands a ! k)) = val (opt (commands b ! k))"
    if "k < length (commands b)" for k
    using that len nth_map [of k "commands a" unflag] nth_map [of k "commands b" unflag] assms(1)
    by (metis unflag_eqD)
  show ?thesis
  proof (cases "i = -1")
    case True
    with assms(2) obtain k where k: "k < length (commands b)" "val (opt (commands b ! k)) = v" "c = commands b ! k"
        "\<forall>j<k. val (opt (commands b ! j)) \<noteq> v"
      by (auto simp: mncommand_ctx_find_cmd_def find_Some_iff)
    have "find (\<lambda>c. val (opt c) = v) (commands a) = Some (commands a ! k)"
      unfolding find_Some_iff using k len eq by (intro exI [of _ k]) (simp add: eq)
    then show ?thesis using True k eq by (simp add: mncommand_ctx_find_cmd_def)
  next
    case False
    with assms(2) len eq show ?thesis
      by (auto simp: mncommand_ctx_find_cmd_def nth_opt_def split: if_split_asm)
  qed
qed

text \<open>What a sequence of options means: their functions run in order until one gives a non-zero result.\<close>

fun run_commands :: "('u mncommand_cmd \<times> string option) list \<Rightarrow> 'u \<Rightarrow> int option \<times> 'u" where
  "run_commands [] u = (None, u)"
| "run_commands ((c, arg) # cs) u =
     (case func c of
        None \<Rightarrow> run_commands cs u
      | Some f \<Rightarrow> (case f (val (opt c)) arg u of (r, u1) \<Rightarrow>
          if r \<noteq> 0 then (Some r, u1) else run_commands cs u1))"

lemma getopt_loop_runs:
  assumes "list_all2 (\<lambda>ev c. mncommand_ctx_find_cmd ctx0 (curropt ev) (ch ev) = Some c) evs cs"
    and "map unflag (commands ctx) = map unflag (commands ctx0)"
  shows "\<exists>ctx'. getopt_loop evs optind ctx u =
    (case run_commands (zip cs (map optarg evs)) u of (None, u') \<Rightarrow> (RC optind, ctx', u') | (Some r, u') \<Rightarrow> (RC r, ctx', u'))"
  using assms
proof (induction evs cs arbitrary: ctx u rule: list_all2_induct)
  case (Cons ev evs c cs)
  have eq: "map unflag (commands (store_flag ev ctx)) = map unflag (commands ctx0)" using Cons.prems by simp
  then obtain c' where c': "mncommand_ctx_find_cmd (store_flag ev ctx) (curropt ev) (ch ev) = Some c'"
      "func c' = func c" "val (opt c') = val (opt c)"
    using find_cmd_unflag [OF eq Cons.hyps(1)] by blast
  show ?case
    using c' Cons.IH [OF eq] by (auto simp: Let_def split: option.split prod.split)
qed simp

lemma getopt_loop_res:
  "\<exists>r ctx' u'. getopt_loop evs optind ctx u = (r, ctx', u') \<and> ((\<exists>n. r = RC n) \<or> r = ERR MNCOMMAND_CTX_GETOPT 2)"
  by (induction evs optind ctx u rule: getopt_loop.induct) (auto simp: Let_def split: option.split prod.split)

lemma find_cmd_fixed:
  "mncommand_ctx_find_cmd ctx i v = Some c \<Longrightarrow> \<exists>k. mncommand_ctx_find_cmd (fixed a ctx) i v = Some (point k c)"
proof (cases "i = -1")
  case True
  have "find (\<lambda>c. val (opt c) = v) cs = Some c \<Longrightarrow> \<exists>k. find (\<lambda>c. val (opt c) = v) (points i cs) = Some (point k c)" for i cs
    by (induction i cs rule: points.induct) (auto split: if_split_asm)
  moreover assume "mncommand_ctx_find_cmd ctx i v = Some c"
  ultimately show ?thesis using True by (simp add: mncommand_ctx_find_cmd_def fixed_def)
qed (auto simp: mncommand_ctx_find_cmd_def fixed_def nth_opt_def points_nth split: if_split_asm)

lemma run_commands_cong:
  "list_all2 (\<lambda>c d. func c = func d \<and> val (opt c) = val (opt d)) cs ds \<Longrightarrow>
     run_commands (zip cs as) u = run_commands (zip ds as) u"
proof (induction cs ds arbitrary: as u rule: list_all2_induct)
  case (Cons c cs d ds)
  then show ?case by (cases as) (auto split: option.split prod.split)
qed simp

section \<open>The contract of getopt_long\<close>

text \<open>The options before the terminator, which are all \<open>getopt_long\<close> looks at.\<close>

definition visible_options :: "getopt_option list \<Rightarrow> getopt_option list" where
  "visible_options opts = takeWhile (\<lambda>e. name e \<noteq> None) opts"

text \<open>
  As documented: the index is set to that of a long option, and is left alone for a short one, which is a
  character of the option string, or for an unknown option or a missing argument, reported as \<open>?\<close> (code 63).
\<close>

locale getopt_law =
  fixes gl :: getopt_long
  assumes long_index: "gl argv syms opts = (evs, optind) \<Longrightarrow> ev \<in> set evs \<Longrightarrow> curropt ev \<noteq> -1 \<Longrightarrow>
      0 \<le> curropt ev \<and> nat (curropt ev) < length (visible_options opts)"
    and short_char: "gl argv syms opts = (evs, optind) \<Longrightarrow> ev \<in> set evs \<Longrightarrow> curropt ev = -1 \<Longrightarrow>
      ch ev = 63 \<or> (\<exists>c \<in> set syms - {CHR '':''}. ch ev = int (byte_of c))"

lemma visible_fixed:
  assumes "registry_ok ctx"
  shows "length (visible_options (options (fixed a ctx))) = length (commands ctx)"
proof -
  have "list_all (\<lambda>c. name (opt c) \<noteq> None) cs \<Longrightarrow>
      length (takeWhile (\<lambda>e. name e \<noteq> None) (map opt (points i cs) @ zero_option # es)) = length cs" for i cs es
    by (induction i cs rule: points.induct) (auto simp: zero_option_def)
  moreover have "list_all (\<lambda>c. name (opt c) \<noteq> None) (commands ctx)"
    using assms by (auto simp: registry_ok_def list_all_iff)
  ultimately show ?thesis by (simp add: visible_options_def fixed_def)
qed

text \<open>
  The command an event stands for, of the commands that were registered: a long option is the command at the reported
  index, whose long name is the name at that index of the options \<open>getopt_long\<close> was given; a short option is the
  first command with that character.
\<close>

definition names_command :: "getopt_option list \<Rightarrow> 'u mncommand_cmd list \<Rightarrow> getopt_event \<Rightarrow> 'u mncommand_cmd \<Rightarrow> bool" where
  "names_command opts cmds ev c \<longleftrightarrow> (\<exists>pre post. cmds = pre @ c # post \<and>
     (if curropt ev = -1 then val (opt c) = ch ev \<and> (\<forall>d \<in> set pre. val (opt d) \<noteq> ch ev)
      else int (length pre) = curropt ev \<and> longname c = name (opts ! length pre)))"

lemma names_command_mem: "names_command opts cmds ev c \<Longrightarrow> c \<in> set cmds"
  by (auto simp: names_command_def)

lemma find_names:
  assumes "registry_ok ctx" and "mncommand_ctx_find_cmd ctx (curropt ev) (ch ev) = Some c"
  shows "names_command (options (fixed a ctx)) (commands ctx) ev c"
proof (cases "curropt ev = -1")
  case True
  then obtain k where k: "k < length (commands ctx)" "val (opt (commands ctx ! k)) = ch ev" "c = commands ctx ! k"
      "\<forall>j<k. val (opt (commands ctx ! j)) \<noteq> ch ev"
    using assms(2) by (auto simp: mncommand_ctx_find_cmd_def find_Some_iff)
  have "\<forall>d \<in> set (take k (commands ctx)). val (opt d) \<noteq> ch ev" using k(4) by (auto simp: in_set_conv_nth)
  then show ?thesis using True k id_take_nth_drop [OF k(1)] unfolding names_command_def by auto
next
  case False
  then have k: "0 \<le> curropt ev" "nat (curropt ev) < length (commands ctx)" "c = commands ctx ! nat (curropt ev)"
    using assms(2) by (auto simp: mncommand_ctx_find_cmd_def nth_opt_def split: if_split_asm)
  then have "longname c = name (options (fixed a ctx) ! nat (curropt ev))"
    using assms(1) by (simp add: registry_ok_def list_all_length fixed_def nth_append points_nth)
  then show ?thesis using False k id_take_nth_drop [OF k(2)] unfolding names_command_def
    by (intro exI [of _ "take (nat (curropt ev)) (commands ctx)"] exI [of _ "drop (Suc (nat (curropt ev))) (commands ctx)"]) simp
qed

lemma short_found:
  assumes "c \<in> set (concat (map short_spec (commands ctx)))" and "c \<noteq> CHR '':''"
  shows "mncommand_ctx_find_cmd ctx (-1) (int (byte_of c)) \<noteq> None"
proof -
  from assms obtain d where d: "d \<in> set (commands ctx)" "isalnum_int (val (opt d)) = Some True" "c = char_of_int (val (opt d))"
    by (auto simp: short_spec_def split: if_split_asm)
  then have "0 \<le> val (opt d)" "val (opt d) \<le> 255" by (auto simp: isalnum_int_def split: if_split_asm)
  then have "int (byte_of c) = val (opt d)" using d(3) by (simp add: char_of_int_def)
  with d(1) show ?thesis by (auto simp: mncommand_ctx_find_cmd_def find_None_iff)
qed

context getopt_law
begin

lemma event_found:
  assumes "registry_ok ctx" and "gl argv (concat (map short_spec (commands ctx))) (options (fixed a ctx)) = (evs, optind)"
    and "ev \<in> set evs" and "\<not> (curropt ev = -1 \<and> ch ev = 63)"
  shows "mncommand_ctx_find_cmd ctx (curropt ev) (ch ev) \<noteq> None"
proof (cases "curropt ev = -1")
  case True
  then obtain c where "c \<in> set (concat (map short_spec (commands ctx)))" "c \<noteq> CHR '':''" "ch ev = int (byte_of c)"
    using short_char [OF assms(2,3)] assms(4) by auto
  then show ?thesis using short_found [of c ctx] True by simp
next
  case False
  then show ?thesis using long_index [OF assms(2,3)] visible_fixed [OF assms(1), of a]
    by (auto simp: mncommand_ctx_find_cmd_def nth_opt_def)
qed

text \<open>Without a \<open>?\<close>, the options' functions run in the order of the command line.\<close>

lemma getopt_runs:
  assumes "registry_ok ctx" and "gl (a # argv) (concat (map short_spec (commands ctx))) (options (fixed a ctx)) = (evs, optind)"
    and "\<forall>ev \<in> set evs. \<not> (curropt ev = -1 \<and> ch ev = 63)"
  shows "\<exists>cs ctx'. list_all2 (\<lambda>ev c. mncommand_ctx_find_cmd ctx (curropt ev) (ch ev) = Some c) evs cs \<and>
    mncommand_ctx_getopt gl True ctx (a # argv) u =
      Some (case run_commands (zip cs (map optarg evs)) u of (None, u') \<Rightarrow> (RC optind, ctx', u') | (Some r, u') \<Rightarrow> (RC r, ctx', u'))"
proof -
  define cs where "cs = map (\<lambda>ev. the (mncommand_ctx_find_cmd ctx (curropt ev) (ch ev))) evs"
  define ds where "ds = map (\<lambda>ev. the (mncommand_ctx_find_cmd (fixed a ctx) (curropt ev) (ch ev))) evs"
  have cs: "list_all2 (\<lambda>ev c. mncommand_ctx_find_cmd ctx (curropt ev) (ch ev) = Some c) evs cs"
    using event_found [OF assms(1,2)] assms(3) by (force simp: cs_def list_all2_conv_all_nth)
  then have *: "\<exists>k. mncommand_ctx_find_cmd (fixed a ctx) (curropt (evs ! i)) (ch (evs ! i)) = Some (point k (cs ! i))"
    if "i < length evs" for i
    using find_cmd_fixed [of ctx "curropt (evs ! i)" "ch (evs ! i)" "cs ! i" a] that by (simp add: list_all2_conv_all_nth)
  have ds: "list_all2 (\<lambda>ev c. mncommand_ctx_find_cmd (fixed a ctx) (curropt ev) (ch ev) = Some c) evs ds"
    using * by (force simp: ds_def list_all2_conv_all_nth)
  have "list_all2 (\<lambda>c d. func c = func d \<and> val (opt c) = val (opt d)) ds cs"
    unfolding list_all2_conv_all_nth using * by (force simp: ds_def cs_def)
  then have "run_commands (zip ds (map optarg evs)) u = run_commands (zip cs (map optarg evs)) u"
    by (rule run_commands_cong)
  then show ?thesis
    using getopt_loop_runs [OF ds refl, of optind u] cs getopt_eq [OF assms(1), of gl a argv u] assms(2) by auto
qed

end

text \<open>
  A concrete \<open>getopt_long\<close>: whole words, exact long names, stopping at the first word that is not an option.
\<close>

fun option_index :: "string \<Rightarrow> getopt_option list \<Rightarrow> nat option" where
  "option_index w [] = None"
| "option_index w (e # es) = (if name e = Some w then Some 0 else map_option Suc (option_index w es))"

fun plain_scan :: "string \<Rightarrow> getopt_option list \<Rightarrow> string list \<Rightarrow> int \<Rightarrow> getopt_event list \<times> int" where
  "plain_scan syms opts [] i = ([], i)"
| "plain_scan syms opts (w # ws) i =
     (if take 2 w = ''--'' then
        (case option_index (drop 2 w) opts of
           None \<Rightarrow> ([\<lparr>ch = 63, curropt = -1, optarg = None\<rparr>], i)
         | Some k \<Rightarrow>
             if has_arg (opts ! k) = 0 then
               (case plain_scan syms opts ws (i + 1) of (evs, j) \<Rightarrow> (\<lparr>ch = 0, curropt = int k, optarg = None\<rparr> # evs, j))
             else (case ws of
                 [] \<Rightarrow> ([\<lparr>ch = 63, curropt = -1, optarg = None\<rparr>], i)
               | a # ws' \<Rightarrow> (case plain_scan syms opts ws' (i + 2) of (evs, j) \<Rightarrow>
                   (\<lparr>ch = 0, curropt = int k, optarg = Some a\<rparr> # evs, j))))
      else if length w = 2 \<and> w ! 0 = CHR ''-'' \<and> w ! 1 \<in> set syms - {CHR '':''} then
        (case plain_scan syms opts ws (i + 1) of (evs, j) \<Rightarrow>
           (\<lparr>ch = int (byte_of (w ! 1)), curropt = -1, optarg = None\<rparr> # evs, j))
      else ([], i))"

definition plain_getopt :: getopt_long where
  "plain_getopt argv syms opts = plain_scan syms (visible_options opts) (drop 1 argv) 1"

lemma option_index_less: "option_index w es = Some k \<Longrightarrow> k < length es"
  by (induction es arbitrary: k) (auto split: if_split_asm)

lemma plain_scan_events:
  "ev \<in> set (fst (plain_scan syms opts ws i)) \<Longrightarrow>
     (curropt ev \<noteq> -1 \<longrightarrow> 0 \<le> curropt ev \<and> nat (curropt ev) < length opts) \<and>
     (curropt ev = -1 \<longrightarrow> ch ev = 63 \<or> (\<exists>c \<in> set syms - {CHR '':''}. ch ev = int (byte_of c)))"
  by (induction syms opts ws i rule: plain_scan.induct)
    (auto split: if_split_asm option.split_asm list.split_asm prod.split_asm dest: option_index_less)

interpretation plain: getopt_law plain_getopt
proof
  fix argv syms opts evs optind ev
  assume "plain_getopt argv syms opts = (evs, optind)" "ev \<in> set evs"
  then have "ev \<in> set (fst (plain_scan syms (visible_options opts) (drop 1 argv) 1))" by (simp add: plain_getopt_def)
  note e = plain_scan_events [OF this]
  show "curropt ev \<noteq> -1 \<Longrightarrow> 0 \<le> curropt ev \<and> nat (curropt ev) < length (visible_options opts)" using e by blast
  show "curropt ev = -1 \<Longrightarrow> ch ev = 63 \<or> (\<exists>c \<in> set syms - {CHR '':''}. ch ev = int (byte_of c))" using e by blast
qed

section \<open>Claims\<close>

text \<open>
  C24. In every context that was initialised and given commands, the array of options handed to \<open>getopt_long\<close>
  is the array of the commands' options, entry by entry, under the commands' long names, every command has its
  help specification, and every short option character is one \<open>isalnum\<close> is defined on.
\<close>

theorem registry_invariant:
  assumes "set_up ctx"
  shows "registry_ok ctx"
  using assms by (rule set_up_registry_ok)

text \<open>Two commands, used by the witnesses: they count their calls and keep the last argument.\<close>

definition note_arg :: "(nat \<times> string option) option_func" where
  "note_arg v arg u = (0, (fst u + 1, arg))"

definition two_commands :: "(nat \<times> string option) mncommand_ctx" where
  "two_commands = (let add = (\<lambda>n c h ctx. snd (the (mncommand_ctx_add_cmd True True ctx (Some n) c h None (Some note_arg))))
     in add ''output'' 111 1 (add ''verbose'' 118 0 (snd (mncommand_ctx_init True True))))"

lemma two_commands_set_up: "set_up two_commands"
proof -
  let ?c0 = "snd (mncommand_ctx_init True True) :: (nat \<times> string option) mncommand_ctx"
  let ?a = "\<lambda>n c h ctx. mncommand_ctx_add_cmd True True ctx (Some n) c h None (Some note_arg)"
  have i: "isalnum_int 118 \<noteq> None" "isalnum_int 111 \<noteq> None" by (simp_all add: isalnum_int_def)
  have 0: "set_up ?c0" by (rule set_up.init) (simp add: mncommand_ctx_init_def)
  obtain c1 where c1: "?a ''verbose'' 118 0 ?c0 = Some (RC 0, c1)" using add_cmd_succeeds [OF i(1)] by blast
  obtain c2 where c2: "?a ''output'' 111 1 c1 = Some (RC 0, c2)" using add_cmd_succeeds [OF i(2)] by blast
  have "set_up c2" using set_up.add [OF set_up.add [OF 0 c1] c2] .
  moreover have "two_commands = c2" using c1 c2 by (simp add: two_commands_def)
  ultimately show ?thesis by simp
qed

theorem registry_invariant_witness: "registry_ok two_commands"
  by (rule registry_invariant [OF two_commands_set_up])

text \<open>
  C16. On a context that was set up, with a \<open>getopt_long\<close> that keeps its contract and reports no unknown option,
  every option on the command line stands for a command (a long option for the one at the reported index of the array, which
  bears the name \<open>getopt_long\<close> found there, a short one for the first with that character), and
  \<open>mncommand_ctx_getopt\<close> runs these commands' functions in the order of the options,
  each with the option's argument, until one gives a non-zero result, which is returned; if none does, the index of
  the first argument that is not an option is returned.
\<close>

theorem getopt_dispatches:
  assumes "getopt_law gl" and "set_up ctx"
    and "gl (a # argv) (concat (map short_spec (commands ctx))) (options (fixed a ctx)) = (evs, optind)"
    and "\<forall>ev \<in> set evs. \<not> (curropt ev = -1 \<and> ch ev = 63)"
  shows "\<exists>cs ctx'. list_all2 (names_command (options (fixed a ctx)) (commands ctx)) evs cs \<and>
    mncommand_ctx_getopt gl True ctx (a # argv) u =
      Some (case run_commands (zip cs (map optarg evs)) u of (None, u') \<Rightarrow> (RC optind, ctx', u') | (Some r, u') \<Rightarrow> (RC r, ctx', u'))"
proof -
  note reg = set_up_registry_ok [OF assms(2)]
  obtain cs ctx' where cs: "list_all2 (\<lambda>ev c. mncommand_ctx_find_cmd ctx (curropt ev) (ch ev) = Some c) evs cs"
    and g: "mncommand_ctx_getopt gl True ctx (a # argv) u =
      Some (case run_commands (zip cs (map optarg evs)) u of (None, u') \<Rightarrow> (RC optind, ctx', u') | (Some r, u') \<Rightarrow> (RC r, ctx', u'))"
    using getopt_law.getopt_runs [OF assms(1) reg assms(3,4)] by blast
  have "list_all2 (names_command (options (fixed a ctx)) (commands ctx)) evs cs"
    by (rule list_all2_mono [OF cs]) (rule find_names [OF reg])
  with g show ?thesis by blast
qed

theorem getopt_dispatches_witness:
  "\<exists>ctx'. mncommand_ctx_getopt plain_getopt True two_commands [''prog'', ''-v'', ''--output'', ''x'', ''y''] (0, None) =
     Some (RC 4, ctx', 2, Some ''x'')"
proof -
  let ?evs = "[\<lparr>ch = 118, curropt = -1, optarg = None\<rparr>, \<lparr>ch = 0, curropt = 1, optarg = Some ''x''\<rparr>]"
  have gl: "plain_getopt [''prog'', ''-v'', ''--output'', ''x'', ''y''] (concat (map short_spec (commands two_commands)))
      (options (fixed ''prog'' two_commands)) = (?evs, 4)" by code_simp
  have no: "\<forall>ev \<in> set ?evs. \<not> (curropt ev = -1 \<and> ch ev = 63)" by simp
  obtain cs ctx' where *: "list_all2 (names_command (options (fixed ''prog'' two_commands)) (commands two_commands)) ?evs cs"
      "mncommand_ctx_getopt plain_getopt True two_commands [''prog'', ''-v'', ''--output'', ''x'', ''y''] (0, None) =
      Some (case run_commands (zip cs (map optarg ?evs)) (0, None) of
        (None, u') \<Rightarrow> (RC 4, ctx', u') | (Some r, u') \<Rightarrow> (RC r, ctx', u'))"
    using getopt_dispatches [OF plain.getopt_law_axioms two_commands_set_up gl no] by blast
  have "\<forall>c \<in> set (commands two_commands). func c = Some note_arg"
    by (simp add: two_commands_def mncommand_ctx_add_cmd_def mncommand_ctx_init_def
        mncommand_cmd_compute_helpspec_def isalnum_int_def mncommand_cmd_init_def)
  with *(1) obtain c d where "cs = [c, d]" "func c = Some note_arg" "func d = Some note_arg"
    by (auto simp: list_all2_Cons1 dest!: names_command_mem)
  then have "run_commands (zip cs (map optarg ?evs)) (0, None) = (None, 2, Some ''x'')" by (simp add: note_arg_def)
  then show ?thesis using *(2) by simp
qed

text \<open>
  C25. On a context that was set up, \<open>mncommand_ctx_getopt\<close> with a \<open>getopt_long\<close> that keeps its contract is defined,
  and the only diagnostic it can give is \<open>MNCOMMAND_CTX_GETOPT + 2\<close>, when \<open>getopt_long\<close> reported an
  unknown option or a missing argument.
\<close>

theorem getopt_error:
  assumes "getopt_law gl" and "set_up ctx"
  shows "\<exists>r ctx' u'. mncommand_ctx_getopt gl True ctx (a # argv) u = Some (r, ctx', u') \<and>
    ((\<exists>n. r = RC n) \<or> r = ERR MNCOMMAND_CTX_GETOPT 2 \<and>
       (\<exists>ev \<in> set (fst (gl (a # argv) (concat (map short_spec (commands ctx))) (options (fixed a ctx)))).
          curropt ev = -1 \<and> ch ev = 63))"
proof -
  obtain evs optind where gl: "gl (a # argv) (concat (map short_spec (commands ctx))) (options (fixed a ctx)) = (evs, optind)"
    by fastforce
  note reg = set_up_registry_ok [OF assms(2)]
  have e: "mncommand_ctx_getopt gl True ctx (a # argv) u = Some (getopt_loop evs optind (fixed a ctx) u)"
    using getopt_eq [OF reg, of gl a argv u] gl by simp
  show ?thesis
  proof (cases "\<exists>ev \<in> set evs. curropt ev = -1 \<and> ch ev = 63")
    case True
    with e gl show ?thesis using getopt_loop_res [of evs optind "fixed a ctx" u] by auto
  next
    case False
    then have "\<forall>ev \<in> set evs. \<not> (curropt ev = -1 \<and> ch ev = 63)" by blast
    from getopt_law.getopt_runs [OF assms(1) reg gl this, of u] show ?thesis
      by (auto split: prod.split option.split)
  qed
qed

theorem getopt_error_witness:
  "\<exists>ctx' u'. mncommand_ctx_getopt plain_getopt True two_commands [''prog'', ''--outptu''] (0, None) =
     Some (ERR MNCOMMAND_CTX_GETOPT 2, ctx', u')"
proof -
  have "map_option fst (mncommand_ctx_getopt plain_getopt True two_commands [''prog'', ''--outptu''] (0, None)) =
      Some (ERR MNCOMMAND_CTX_GETOPT 2)" by code_simp
  then show ?thesis
    using getopt_error [OF plain.getopt_law_axioms two_commands_set_up, of "''prog''" "[''--outptu'']" "(0, None)"] by auto
qed

lemma getopt_loop_ctx:
  "getopt_loop evs optind ctx u = (r, ctx', u') \<Longrightarrow>
     options ctx' = options ctx \<and> map unflag (commands ctx') = map unflag (commands ctx)"
proof (induction evs optind ctx u rule: getopt_loop.induct)
  case (2 ev evs optind ctx u)
  have o: "options (store_flag ev ctx) = options ctx" by (simp add: store_flag_def split: option.split)
  show ?case
  proof (cases "mncommand_ctx_find_cmd (store_flag ev ctx) (curropt ev) (ch ev)")
    case None
    then show ?thesis using "2.prems" o by (auto simp: Let_def)
  next
    case (Some c)
    show ?thesis
    proof (cases "func c")
      case None
      then show ?thesis using "2.prems" "2.IH"(1) [OF refl Some None] Some o by (simp add: Let_def)
    next
      case (Some f)
      obtain n v where f: "f (val (opt c)) (optarg ev) u = (n, v)" by fastforce
      have fc: "mncommand_ctx_find_cmd (store_flag ev ctx) (curropt ev) (ch ev) = Some c" by fact
      show ?thesis using "2.prems" "2.IH"(2) [OF refl fc Some f [symmetric]] fc Some f o
        by (auto simp: Let_def split: if_split_asm)
    qed
  qed
qed simp

text \<open>
  C31. The option functions read what \<open>printf\<close> writes and the usual words: the integer option stores
  the number whose decimal digits the argument holds, up to the greatest 64 bit one; without an argument it
  stores the option's value; the boolean option stores false exactly for 0, off, false and no in any mixture of
  cases and true for every other argument or none.
\<close>

theorem option_values:
  assumes "int n < 2 ^ 63"
    and "NUL \<notin> set s"
  shows "mncommand_option_int v (Some (show_nat n)) old = (0, int n) \<and> mncommand_option_int v None old = (0, v) \<and>
    (snd (mncommand_option_bool v (Some s) b) \<longleftrightarrow> map c_tolower s \<notin> {''0'', ''off'', ''false'', ''no''}) \<and>
    snd (mncommand_option_bool v None b)"
proof (intro conjI)
  show "mncommand_option_int v (Some (show_nat n)) old = (0, int n)"
    using strtol_show_nat [of n NUL "[]"] assms(1) by (simp add: mncommand_option_int_def strtoimax_def LONG_MAX_def c_isdigit_def)
  show "mncommand_option_int v None old = (0, v)" "snd (mncommand_option_bool v None b)"
    by (simp_all add: mncommand_option_int_def mncommand_option_bool_def)
  have words: "map c_tolower w = w" if "w \<in> {''0'', ''off'', ''false'', ''no''}" for w
    using that by (auto simp: c_tolower_def c_isupper_def)
  have "strcasecmp0 s w \<longleftrightarrow> map c_tolower s = w" if "w \<in> {''0'', ''off'', ''false'', ''no''}" for w
    using that assms(2) strcasecmp_eq_map [of s w "[]"] words [OF that] by (auto simp: strcasecmp0_def)
  then show "snd (mncommand_option_bool v (Some s) b) \<longleftrightarrow> map c_tolower s \<notin> {''0'', ''off'', ''false'', ''no''}"
    by (simp add: mncommand_option_bool_def)
qed

theorem option_values_witness:
  "mncommand_option_int 7 (Some (show_nat 42)) 0 = (0, 42) \<and> \<not> snd (mncommand_option_bool 0 (Some ''Off'') True) \<and>
   snd (mncommand_option_bool 0 (Some ''yes'') False)"
proof -
  have s: "NUL \<notin> set ''Off''" "NUL \<notin> set ''yes''" by simp_all
  have l: "map c_tolower ''Off'' = ''off''" "map c_tolower ''yes'' = ''yes''" by code_simp+
  have n: "int 42 < 2 ^ 63" by simp
  show ?thesis
    using option_values [OF n s(1), of 7 0] option_values [OF n s(1), of 0 0 True] option_values [OF n s(2), of 0 0 False] l
    by simp
qed

text \<open>A second call after commands were added: the fixups go through the array by index, over the old terminator.\<close>

lemma fixups_names:
  "i + length cs \<le> length opts \<Longrightarrow> \<exists>opts'. fixups i cs opts = Some (points i cs, opts') \<and> map name opts' = map name opts"
proof (induction cs arbitrary: i opts)
  case (Cons c cs)
  let ?opts = "opts[i := (opts ! i)\<lparr>oflag := Some i\<rparr>]"
  have n: "map name ?opts = map name opts"
    using Cons.prems by (intro nth_equalityI) (auto simp: nth_list_update)
  obtain opts' where "fixups (Suc i) cs ?opts = Some (points (Suc i) cs, opts')" "map name opts' = map name ?opts"
    using Cons.IH [of "Suc i" ?opts] Cons.prems by auto
  then show ?case using Cons.prems n by (auto simp: nth_opt_def point_def)
qed simp

lemma visible_names: "length (visible_options opts) = length (takeWhile (\<lambda>n. n \<noteq> None) (map name opts))"
  by (simp add: visible_options_def takeWhile_map o_def)

definition with_late :: "'u mncommand_ctx \<Rightarrow> 'u mncommand_cmd \<Rightarrow> 'u mncommand_ctx \<Rightarrow> bool" where
  "with_late ctx cmd ctx2 \<longleftrightarrow> (\<exists>cs. map longname cs = map longname (commands ctx) \<and> map opt cs = map opt (points 0 (commands ctx)) \<and>
     commands ctx2 = cs @ [cmd] \<and> options ctx2 = map opt (points 0 (commands ctx)) @ [zero_option, opt cmd])"

lemma late_context:
  assumes "registry_ok ctx" and "mncommand_ctx_getopt gl True ctx (a # argv) u = Some (r, ctx1, u1)"
    and "mncommand_ctx_add_cmd True True ctx1 (Some n) c harg descr fn = Some (RC 0, ctx2)"
  shows "\<exists>cmd. with_late ctx cmd ctx2 \<and> longname cmd = Some n \<and> val (opt cmd) = c \<and> isalnum_int c \<noteq> None"
proof -
  obtain evs optind where "getopt_loop evs optind (fixed a ctx) u = (r, ctx1, u1)"
    using assms(2) getopt_eq [OF assms(1), of gl a argv u] by (auto split: prod.split_asm)
  note c1 = getopt_loop_ctx [OF this]
  then have u: "list_all2 (\<lambda>x y. unflag x = unflag y) (commands ctx1) (points 0 (commands ctx))"
    by (simp add: fixed_def list_all2_conv_all_nth list_eq_iff_nth_eq)
  have "list_all2 (\<lambda>x y. longname x = longname y \<and> opt x = opt y) (commands ctx1) (points 0 (commands ctx))"
    by (rule list_all2_mono [OF u]) (auto dest: unflag_eqD)
  then have m: "map longname (commands ctx1) = map longname (commands ctx)" "map opt (commands ctx1) = map opt (points 0 (commands ctx))"
    by (simp_all add: list_all2_conv_all_nth list_eq_iff_nth_eq points_nth)
  obtain cmd where cmd: "commands ctx2 = commands ctx1 @ [cmd]" "options ctx2 = options ctx1 @ [opt cmd]" "longname cmd = Some n"
      "val (opt cmd) = c" "isalnum_int c \<noteq> None"
    using add_cmd_RC [OF assms(3)] by auto
  have "with_late ctx cmd ctx2"
    unfolding with_late_def using m cmd(1,2) c1 by (intro exI [of _ "commands ctx1"]) (simp add: fixed_def)
  then show ?thesis using cmd(3-5) by blast
qed

text \<open>What the second call hands to \<open>getopt_long\<close> and looks events up in.\<close>

lemma late_getopt:
  assumes "registry_ok ctx" and "with_late ctx cmd ctx2" and "isalnum_int (val (opt cmd)) \<noteq> None"
  shows "\<exists>opts ctx3. mncommand_ctx_getopt gl True ctx2 (a # argv) u =
      Some (case gl (a # argv) (concat (map short_spec (commands ctx2))) opts of (evs, optind) \<Rightarrow> getopt_loop evs optind ctx3 u) \<and>
    length (visible_options opts) = length (commands ctx) \<and> map longname (commands ctx3) = map longname (commands ctx) @ [longname cmd]"
proof -
  obtain cs where cs: "map longname cs = map longname (commands ctx)" "map opt cs = map opt (points 0 (commands ctx))"
      "commands ctx2 = cs @ [cmd]" "options ctx2 = map opt (points 0 (commands ctx)) @ [zero_option, opt cmd]"
    using assms(2) by (auto simp: with_late_def)
  have len: "length cs = length (commands ctx)" using cs(1) by (rule map_eq_imp_length_eq)
  obtain opts where f: "fixups 0 (commands ctx2) (options ctx2) = Some (points 0 (commands ctx2), opts)"
      "map name opts = map name (options ctx2)"
    using fixups_names [of 0 "commands ctx2" "options ctx2"] cs len by auto
  have sh: "shorts_ok xs \<longleftrightarrow> list_all (\<lambda>e. isalnum_int (val e) \<noteq> None) (map opt xs)" for xs :: "'a mncommand_cmd list"
    by (simp add: shorts_ok_def list.pred_map o_def)
  have "shorts_ok cs" using sh [of cs] sh [of "points 0 (commands ctx)"] cs(2) assms(1) by (simp add: registry_ok_def)
  then have "shorts_ok (commands ctx2)" using cs(3) assms(3) by (simp add: shorts_ok_def)
  then have g: "getopt_symbols 0 (points 0 (commands ctx2)) = Some (concat (map short_spec (commands ctx2)), points 0 (commands ctx2))"
    using getopt_symbols_eq [of "points 0 (commands ctx2)" 0] by simp
  have names: "map name (map opt (points 0 (commands ctx))) = map longname (commands ctx)"
    using assms(1) by (intro nth_equalityI) (auto simp: registry_ok_def list_all_length points_nth)
  have nm: "map name (opts @ [zero_option]) = map longname (commands ctx) @ [None, name (opt cmd), None]"
    unfolding map_append f(2) cs(4) using names by (simp add: zero_option_def)
  have vis: "length (visible_options (opts @ [zero_option])) = length (commands ctx)"
    unfolding visible_names nm using assms(1) by (simp add: registry_ok_def list_all_iff takeWhile_append)
  have "map longname (points 0 (commands ctx2)) = map longname (commands ctx) @ [longname cmd]"
    using cs(1,3) by simp
  then show ?thesis
    by (cases "progname ctx2") (auto simp: mncommand_ctx_getopt_def f g nth_opt_def intro!: exI [of _ "opts @ [zero_option]"] exI vis)
qed

text \<open>
  C37. The long name of a command that is added after a command line was parsed is never recognised: its option
  stands behind the terminator that the first call appended. Whatever a later call of \<open>mncommand_ctx_getopt\<close> parses, every
  long option that \<open>getopt_long\<close> reports to it is one of the earlier commands, none of which has the new name, although
  the commands it looks events up in include the new one. The short character of the new command, if it has one, is among the
  option characters of that call, so that only this form works.
\<close>

theorem late_option_hidden:
  assumes "getopt_law gl" and "set_up ctx" and "mncommand_ctx_getopt gl True ctx (a # argv) u = Some (r, ctx1, u1)"
    and "mncommand_ctx_add_cmd True True ctx1 (Some n) c harg descr fn = Some (RC 0, ctx2)"
    and "Some n \<notin> longname ` set (commands ctx)"
  shows "\<exists>syms opts ctx3. mncommand_ctx_getopt gl True ctx2 (a' # argv') u' =
      Some (case gl (a' # argv') syms opts of (evs, optind) \<Rightarrow> getopt_loop evs optind ctx3 u') \<and>
    (\<forall>ev \<in> set (fst (gl (a' # argv') syms opts)). curropt ev \<noteq> -1 \<longrightarrow>
      0 \<le> curropt ev \<and> nat (curropt ev) < length (commands ctx) \<and> longname (commands ctx3 ! nat (curropt ev)) \<noteq> Some n) \<and>
    Some n \<in> longname ` set (commands ctx3) \<and> (isalnum_int c = Some True \<longrightarrow> char_of_int c \<in> set syms)"
proof -
  note reg = set_up_registry_ok [OF assms(2)]
  obtain cmd where cmd: "with_late ctx cmd ctx2" "longname cmd = Some n" "val (opt cmd) = c" "isalnum_int (val (opt cmd)) \<noteq> None"
    using late_context [OF reg assms(3,4)] by blast
  let ?syms = "concat (map short_spec (commands ctx2))"
  obtain opts ctx3 where g: "mncommand_ctx_getopt gl True ctx2 (a' # argv') u' =
      Some (case gl (a' # argv') ?syms opts of (evs, optind) \<Rightarrow> getopt_loop evs optind ctx3 u')"
    and v: "length (visible_options opts) = length (commands ctx)"
    and l: "map longname (commands ctx3) = map longname (commands ctx) @ [longname cmd]"
    using late_getopt [OF reg cmd(1,4)] by blast
  have len: "length (commands ctx3) = length (commands ctx) + 1" using arg_cong [OF l, of length] by simp
  have "longname (commands ctx3 ! k) = longname (commands ctx ! k)" if "k < length (commands ctx)" for k
    using arg_cong [OF l, of "\<lambda>xs. xs ! k"] that len by (simp add: nth_append)
  then have "longname (commands ctx3 ! k) \<noteq> Some n" if "k < length (commands ctx)" for k
    using that assms(5) nth_mem [OF that] by (metis image_eqI)
  then have "0 \<le> curropt ev \<and> nat (curropt ev) < length (commands ctx) \<and> longname (commands ctx3 ! nat (curropt ev)) \<noteq> Some n"
    if "ev \<in> set (fst (gl (a' # argv') ?syms opts))" "curropt ev \<noteq> -1" for ev
    using getopt_law.long_index [OF assms(1) _ that] v by (metis prod.collapse)
  moreover have "Some n \<in> longname ` set (commands ctx3)" using arg_cong [OF l, of set] cmd(2) by simp
  moreover have "isalnum_int c = Some True \<longrightarrow> char_of_int c \<in> set ?syms"
    using cmd(1,3) by (auto simp: with_late_def short_spec_def)
  ultimately show ?thesis using g by blast
qed

text \<open>A third command that is added after a first command line: its long form is unknown, its short form works.\<close>

definition late_commands :: "(nat \<times> string option) mncommand_ctx" where
  "late_commands = snd (the (mncommand_ctx_add_cmd True True
     (fst (snd (the (mncommand_ctx_getopt plain_getopt True two_commands [''prog''] (0, None))))) (Some ''late'') 108 0 None (Some note_arg)))"

theorem late_option_hidden_witness:
  "Some ''late'' \<in> longname ` set (commands late_commands) \<and>
     map_option fst (mncommand_ctx_getopt plain_getopt True late_commands [''prog'', ''--late''] (0, None)) = Some (ERR MNCOMMAND_CTX_GETOPT 2) \<and>
     map_option fst (mncommand_ctx_getopt plain_getopt True late_commands [''prog'', ''-l''] (0, None)) = Some (RC 2) \<and>
     (\<exists>syms opts ctx3. mncommand_ctx_getopt plain_getopt True late_commands [''prog'', ''--late''] (0, None) =
        Some (case plain_getopt [''prog'', ''--late''] syms opts of (evs, optind) \<Rightarrow> getopt_loop evs optind ctx3 (0, None)) \<and>
        Some ''late'' \<in> longname ` set (commands ctx3) \<and> CHR ''l'' \<in> set syms)"
proof -
  have names: "Some ''late'' \<notin> longname ` set (commands two_commands)" by code_simp
  have al: "isalnum_int 108 = Some True" "char_of_int 108 = CHR ''l''" by code_simp+
  obtain r ctx1 u1 where g: "mncommand_ctx_getopt plain_getopt True two_commands [''prog''] (0, None) = Some (r, ctx1, u1)"
    using getopt_eq [OF set_up_registry_ok [OF two_commands_set_up], of plain_getopt "''prog''" "[]" "(0, None)"]
    by (metis prod.exhaust)
  obtain ctx2 where a: "mncommand_ctx_add_cmd True True ctx1 (Some ''late'') 108 0 None (Some note_arg) = Some (RC 0, ctx2)"
    using add_cmd_succeeds [of 108 ctx1 "''late''" 0 None "Some note_arg"] al by auto
  have "late_commands = ctx2" using g a by (simp add: late_commands_def)
  then have "\<exists>syms opts ctx3. mncommand_ctx_getopt plain_getopt True late_commands [''prog'', ''--late''] (0, None) =
        Some (case plain_getopt [''prog'', ''--late''] syms opts of (evs, optind) \<Rightarrow> getopt_loop evs optind ctx3 (0, None)) \<and>
        Some ''late'' \<in> longname ` set (commands ctx3) \<and> CHR ''l'' \<in> set syms"
    using late_option_hidden [OF plain.getopt_law_axioms two_commands_set_up g a names, of "''prog''" "[''--late'']" "(0, None)"] al by auto
  moreover have "Some ''late'' \<in> longname ` set (commands late_commands)" by code_simp
  moreover have "map_option fst (mncommand_ctx_getopt plain_getopt True late_commands [''prog'', ''--late''] (0, None)) = Some (ERR MNCOMMAND_CTX_GETOPT 2)"
    by code_simp
  moreover have "map_option fst (mncommand_ctx_getopt plain_getopt True late_commands [''prog'', ''-l''] (0, None)) = Some (RC 2)"
    by code_simp
  ultimately show ?thesis by blast
qed

end
