(* ===== verification/Servers.thy ===== *)
theory Servers
  imports HttpCtx
begin

text \<open>
  The servers of src/src/local_server.c and src/src/mntcps.h. System calls and the thread library act on a state
  of type \<open>'s\<close> through the record \<open>os_env\<close>; a call that may let other threads run (accept, join, a callback) may
  change all of it. \<open>FAIL\<close> ends the process; it is the result \<open>Inl\<close> with the name of the failed call. A write
  outside an array is undefined (\<open>None\<close>).
\<close>

section \<open>The system\<close>

abbreviation (input) PF_LOCAL :: int where "PF_LOCAL \<equiv> 1"
abbreviation (input) PF_INET :: int where "PF_INET \<equiv> 2"
abbreviation (input) SOCK_STREAM :: int where "SOCK_STREAM \<equiv> 1"

text \<open>
  \<open>os_stat_sock p\<close>: \<open>stat\<close> succeeds on \<open>p\<close> and finds a socket. \<open>sun_path_size\<close> is the size of the array in
  \<open>struct sockaddr_un\<close>, 104 or 108 on the systems the program runs on. A thread is started on a function
  with its arguments, given by a value of type \<open>'j\<close>.
\<close>

record ('s, 'j) os_env =
  sun_path_size :: nat
  os_stat_sock :: "string \<Rightarrow> 's \<Rightarrow> bool"
  os_unlink :: "string \<Rightarrow> 's \<Rightarrow> 's"
  os_socket :: "int \<Rightarrow> int \<Rightarrow> 's \<Rightarrow> int \<times> 's"
  os_nonblock :: "int \<Rightarrow> 's \<Rightarrow> int \<times> 's"
  os_bind :: "int \<Rightarrow> char list \<Rightarrow> 's \<Rightarrow> int \<times> 's"
  os_listen :: "int \<Rightarrow> int \<Rightarrow> 's \<Rightarrow> int \<times> 's"
  os_close :: "int \<Rightarrow> 's \<Rightarrow> 's"
  mnthr_socket_bind :: "string \<Rightarrow> string option \<Rightarrow> int \<Rightarrow> 's \<Rightarrow> int \<times> 's"
  mnthr_accept_all :: "int \<Rightarrow> 's \<Rightarrow> int \<times> int list \<times> 's"
  mnthr_spawn :: "string \<Rightarrow> 'j \<Rightarrow> 's \<Rightarrow> nat \<times> 's"
  mnthr_interrupt_join :: "nat \<Rightarrow> 's \<Rightarrow> 's"
  mnthr_join :: "nat \<Rightarrow> 's \<Rightarrow> int \<times> 's"

text \<open>
  The address of a local socket: zeroed, \<open>MIN(strlen(path) + 1, sizeof)\<close> characters copied by \<open>strncpy\<close>, which pads
  with zeros, and a terminator stored after them. The path is a C string.
\<close>

definition strncpy :: "char list \<Rightarrow> string \<Rightarrow> nat \<Rightarrow> char list option" where
  "strncpy buf s n =
     (if n \<le> length buf then Some (take n (s @ replicate n NUL) @ drop n buf) else None)"

definition fill_sun_path :: "nat \<Rightarrow> string \<Rightarrow> char list option" where
  "fill_sun_path N path = (let sz = min (length path + 1) N in do {
     sun_path \<leftarrow> strncpy (replicate N NUL) path sz;
     put sun_path sz NUL
   })"

text \<open>An existing socket at the path is removed first.\<close>

definition unlink_socket :: "('s, 'j) os_env \<Rightarrow> string \<Rightarrow> 's \<Rightarrow> 's" where
  "unlink_socket os path s = (if os_stat_sock os path s then os_unlink os path s else s)"

section \<open>The local server\<close>

text \<open>A new connection's thread runs \<open>cb(fd, udata)\<close>; its name is at most 31 characters of the format.\<close>

definition spawn_conn :: "('s, int) os_env \<Rightarrow> int \<Rightarrow> 's \<Rightarrow> 's" where
  "spawn_conn os fd s = snd (mnthr_spawn os (take 31 (''local_server @'' @ show_int fd)) fd s)"

fun spawn_all :: "('s, int) os_env \<Rightarrow> int list \<Rightarrow> 's \<Rightarrow> 's" where
  "spawn_all os [] s = s"
| "spawn_all os (fd # fds) s = spawn_all os fds (spawn_conn os fd s)"

text \<open>The global \<open>_shutdown\<close> is the first component of the local server's state; other threads set it.\<close>

definition local_server_shutdown :: "bool \<times> 'w \<Rightarrow> bool \<times> 'w" where
  "local_server_shutdown s = (True, snd s)"

definition local_round :: "(bool \<times> 'w, int) os_env \<Rightarrow> int \<Rightarrow> bool \<times> 'w \<Rightarrow> ((bool \<times> 'w) + (bool \<times> 'w)) option" where
  "local_round os fd s =
     (if fst s then Some (Inr s)
      else case mnthr_accept_all os fd s of (r, socks, s1) \<Rightarrow>
        if r \<noteq> 0 then Some (Inr s1) else Some (Inl (spawn_all os socks s1)))"

definition local_open :: "('s, int) os_env \<Rightarrow> int \<Rightarrow> string \<Rightarrow> 's \<Rightarrow> (string + int \<times> 's) option" where
  "local_open os backlog0 path s = do {
     let backlog = (if backlog0 \<le> 0 then 1 else backlog0);
     let s1 = unlink_socket os path s;
     sun_path \<leftarrow> fill_sun_path (sun_path_size os) path;
     Some (case os_socket os PF_LOCAL SOCK_STREAM s1 of (fd, s2) \<Rightarrow>
       if fd < 0 then Inl ''socket''
       else case os_bind os fd sun_path s2 of (r, s3) \<Rightarrow>
         if r \<noteq> 0 then Inl ''bind''
         else case os_listen os fd backlog s3 of (r, s4) \<Rightarrow>
           if r \<noteq> 0 then Inl ''listen'' else Inr (fd, s4))
   }"

definition local_server ::
  "nat \<Rightarrow> (bool \<times> 'w, int) os_env \<Rightarrow> int \<Rightarrow> string \<Rightarrow> bool \<times> 'w \<Rightarrow> (bool \<times> 'w, string + int \<times> bool \<times> 'w) outcome" where
  "local_server n os backlog path s =
     (case local_open os backlog path s of
        None \<Rightarrow> Undefined
      | Some (Inl e) \<Rightarrow> Returned (Inl e)
      | Some (Inr (fd, s1)) \<Rightarrow>
          (case run_steps n (local_round os fd) s1 of
             Undefined \<Rightarrow> Undefined
           | Running s2 \<Rightarrow> Running s2
           | Returned s2 \<Rightarrow>
               Returned (Inr (0, os_unlink os path (if fd \<noteq> -1 then os_close os fd s2 else s2)))))"

section \<open>The TCP server\<close>

record mnapp_tcp_server =
  thread :: "nat option"
  hostname :: "string option"
  servname :: "string option"
  listen_backlog :: int
  family :: int
  socktype :: int
  fd :: int
  shutting_down :: bool

text \<open>\<open>addr\<close> is a C string; the callback and its data are arguments of the worker.\<close>

definition mnapp_tcp_server_init :: "int \<Rightarrow> string \<Rightarrow> mnapp_tcp_server" where
  "mnapp_tcp_server_init backlog addr =
     (case scan_while (\<lambda>c. c \<noteq> CHR '':'' \<and> c \<noteq> NUL) (addr @ [NUL]) of
        Some sz \<Rightarrow>
          if sz < length addr then
            \<lparr>thread = None, hostname = Some (take sz addr), servname = Some (drop (sz + 1) addr),
             listen_backlog = backlog, family = PF_INET, socktype = SOCK_STREAM, fd = -1, shutting_down = False\<rparr>
          else
            \<lparr>thread = None, hostname = Some addr, servname = None,
             listen_backlog = backlog, family = PF_LOCAL, socktype = SOCK_STREAM, fd = -1, shutting_down = False\<rparr>
      | None \<Rightarrow> \<lparr>thread = None, hostname = Some addr, servname = None,
             listen_backlog = backlog, family = PF_LOCAL, socktype = SOCK_STREAM, fd = -1, shutting_down = False\<rparr>)"

definition join_thread :: "('s, unit) os_env \<Rightarrow> mnapp_tcp_server \<Rightarrow> 's \<Rightarrow> mnapp_tcp_server \<times> 's" where
  "join_thread os srv s =
     (case thread srv of None \<Rightarrow> (srv, s) | Some t \<Rightarrow> (srv\<lparr>thread := None\<rparr>, mnthr_interrupt_join os t s))"

definition mnapp_tcp_server_fini :: "('s, unit) os_env \<Rightarrow> mnapp_tcp_server \<Rightarrow> 's \<Rightarrow> mnapp_tcp_server \<times> 's" where
  "mnapp_tcp_server_fini os srv s =
     (case join_thread os (srv\<lparr>shutting_down := True\<rparr>) s of (srv1, s1) \<Rightarrow>
        (srv1\<lparr>hostname := None, servname := None, fd := -1\<rparr>, s1))"

definition mnapp_tcp_server_stop :: "('s, unit) os_env \<Rightarrow> mnapp_tcp_server \<Rightarrow> 's \<Rightarrow> mnapp_tcp_server \<times> 's" where
  "mnapp_tcp_server_stop os srv s = join_thread os (srv\<lparr>shutting_down := True\<rparr>) s"

definition mnapp_tcp_server_serve :: "('s, unit) os_env \<Rightarrow> mnapp_tcp_server \<Rightarrow> 's \<Rightarrow> (int \<times> 's) option" where
  "mnapp_tcp_server_serve os srv s = do { t \<leftarrow> thread srv; Some (mnthr_join os t s) }"

text \<open>
  Starting. The \<open>assert\<close> in the local branch has an assignment for its condition; it is performed. \<open>start_local\<close> gives
  the descriptor with a bound socket or the diagnostic.
\<close>

definition start_local :: "('s, unit) os_env \<Rightarrow> mnapp_tcp_server \<Rightarrow> 's \<Rightarrow> (nat option \<times> mnapp_tcp_server \<times> 's) option" where
  "start_local os srv0 s = do {
     let srv = srv0\<lparr>family := PF_LOCAL\<rparr>;
     host \<leftarrow> hostname srv;
     let s1 = unlink_socket os host s;
     sun_path \<leftarrow> fill_sun_path (sun_path_size os) host;
     Some (case os_socket os (family srv) (socktype srv) s1 of (d, s2) \<Rightarrow>
       if d < 0 then (Some 2, srv\<lparr>fd := d\<rparr>, s2)
       else case os_nonblock os d s2 of (r, s3) \<Rightarrow>
         if r = -1 then (Some 3, srv\<lparr>fd := -1\<rparr>, os_close os d s3)
         else case os_bind os d sun_path s3 of (r, s4) \<Rightarrow>
           if r \<noteq> 0 then (Some 4, srv\<lparr>fd := -1\<rparr>, os_close os d s4)
           else (None, srv\<lparr>fd := d\<rparr>, s4))
   }"

definition start_bound :: "('s, unit) os_env \<Rightarrow> mnapp_tcp_server \<Rightarrow> 's \<Rightarrow> (nat option \<times> mnapp_tcp_server \<times> 's) option" where
  "start_bound os srv s =
     (if family srv = PF_INET then do {
        host \<leftarrow> hostname srv;
        Some (case mnthr_socket_bind os host (servname srv) (family srv) s of (d, s1) \<Rightarrow>
          (if d < 0 then Some 1 else None, srv\<lparr>fd := d\<rparr>, s1))
      }
      else start_local os srv s)"

definition mnapp_tcp_server_start ::
  "('s, unit) os_env \<Rightarrow> mnapp_tcp_server \<Rightarrow> 's \<Rightarrow> (res \<times> mnapp_tcp_server \<times> 's) option" where
  "mnapp_tcp_server_start os srv s = do {
     (e, srv1, s1) \<leftarrow> start_bound os srv s;
     case e of
       Some k \<Rightarrow> Some (ERR MNAPP_TCP_SERVER_START k, srv1, s1)
     | None \<Rightarrow>
         (case os_listen os (fd srv1) (listen_backlog srv1) s1 of (r, s2) \<Rightarrow>
            if r \<noteq> 0 then Some (ERR MNAPP_TCP_SERVER_START 5, srv1\<lparr>fd := -1\<rparr>, os_close os (fd srv1) s2)
            else do {
              host \<leftarrow> hostname srv1;
              let (t, s3) = mnthr_spawn os host () s2;
              Some (RC 0, srv1\<lparr>thread := Some t\<rparr>, s3)
            })
   }"

text \<open>
  The worker. \<open>accept\<close> and the callback work on the server's own structure and the rest of the state, as other threads
  may run meanwhile. A callback that fails ends the batch, not the worker.
\<close>

type_synonym 's tcp_accept = "int \<Rightarrow> mnapp_tcp_server \<times> 's \<Rightarrow> int \<times> int list \<times> mnapp_tcp_server \<times> 's"
type_synonym 's tcp_cb = "int \<Rightarrow> mnapp_tcp_server \<times> 's \<Rightarrow> int \<times> mnapp_tcp_server \<times> 's"

fun serve_batch :: "'s tcp_cb \<Rightarrow> int \<Rightarrow> int list \<Rightarrow> mnapp_tcp_server \<times> 's \<Rightarrow> int \<times> mnapp_tcp_server \<times> 's" where
  "serve_batch cb res [] st = (res, st)"
| "serve_batch cb res (p # ps) st =
     (case cb p st of (r, st1) \<Rightarrow> if r \<noteq> 0 then (r, st1) else serve_batch cb r ps st1)"

definition worker_round ::
  "'s tcp_accept \<Rightarrow> 's tcp_cb \<Rightarrow> int \<times> mnapp_tcp_server \<times> 's \<Rightarrow>
   ((int \<times> mnapp_tcp_server \<times> 's) + (int \<times> mnapp_tcp_server \<times> 's)) option" where
  "worker_round acc cb = (\<lambda>(res, srv, s).
     if shutting_down srv then Some (Inr (res, srv, s))
     else case acc (fd srv) (srv, s) of (r, ps, st1) \<Rightarrow>
       if r \<noteq> 0 then Some (Inr (r, st1)) else Some (Inl (serve_batch cb r ps st1)))"

definition mnapp_tcp_server_worker ::
  "nat \<Rightarrow> 's tcp_accept \<Rightarrow> 's tcp_cb \<Rightarrow> mnapp_tcp_server \<times> 's \<Rightarrow>
   (int \<times> mnapp_tcp_server \<times> 's, int \<times> mnapp_tcp_server \<times> 's) outcome" where
  "mnapp_tcp_server_worker n acc cb st = run_steps n (worker_round acc cb) (0, st)"

section \<open>The contract of the system\<close>

text \<open>
  What is observed of a state: the open sockets of the servers and how far each has got (made, bound to an address,
  listening there), the paths of local sockets, the connections accepted and the ones a thread was started for, in order.
\<close>

datatype sock_addr = Path string | Inet string "string option"

datatype sock_state = Unbound | Bound sock_addr | Listening sock_addr

record os_view =
  socks :: "int \<rightharpoonup> sock_state"
  paths :: "string set"
  accepted :: "int list"
  spawned :: "int list"

definition c_string :: "char list \<Rightarrow> string" where
  "c_string m = takeWhile (\<lambda>c. c \<noteq> NUL) m"

locale socket_law =
  fixes os :: "('s, 'j) os_env" and v :: "'s \<Rightarrow> os_view"
  assumes socket_new: "os_socket os f ty s = (d, s') \<Longrightarrow>
      v s' = (if d < 0 then v s else (v s)\<lparr>socks := (socks (v s))(d \<mapsto> Unbound)\<rparr>) \<and> (0 \<le> d \<longrightarrow> socks (v s) d = None)"
    and socket_bind_new: "mnthr_socket_bind os h q f s = (d, s') \<Longrightarrow>
      v s' = (if d < 0 then v s else (v s)\<lparr>socks := (socks (v s))(d \<mapsto> Bound (Inet h q))\<rparr>) \<and> (0 \<le> d \<longrightarrow> socks (v s) d = None)"
    and nonblock_keeps: "os_nonblock os d s = (r, s') \<Longrightarrow> v s' = v s"
    and bind_path: "os_bind os d sp s = (r, s') \<Longrightarrow>
      v s' = (if r = 0 then (v s)\<lparr>socks := (socks (v s))(d \<mapsto> Bound (Path (c_string sp))), paths := insert (c_string sp) (paths (v s))\<rparr>
              else v s)"
    and listen_bound: "os_listen os d b s = (r, s') \<Longrightarrow> socks (v s) d = Some (Bound a) \<Longrightarrow>
      v s' = (if r = 0 then (v s)\<lparr>socks := (socks (v s))(d \<mapsto> Listening a)\<rparr> else v s)"
    and close_removes: "v (os_close os d s) = (v s)\<lparr>socks := (socks (v s))(d := None)\<rparr>"
    and unlink_removes: "v (os_unlink os p s) = (v s)\<lparr>paths := paths (v s) - {p}\<rparr>"
    and spawn_socks: "mnthr_spawn os n j s = (t, s') \<Longrightarrow> socks (v s') = socks (v s)"
    and join_socks: "socks (v (mnthr_interrupt_join os t s)) = socks (v s)"

locale conn_law = socket_law os v for os :: "(bool \<times> 'w, int) os_env" and v :: "bool \<times> 'w \<Rightarrow> os_view" +
  assumes accept_conns: "mnthr_accept_all os d s = (r, ps, s') \<Longrightarrow>
      socks (v s') = socks (v s) \<and> spawned (v s') = spawned (v s) \<and>
      accepted (v s') = (if r = 0 then accepted (v s) @ ps else accepted (v s))"
    and spawn_conn: "mnthr_spawn os n j s = (t, s') \<Longrightarrow> v s' = (v s)\<lparr>spawned := spawned (v s) @ [j]\<rparr>"

lemma fill_sun_path_fits:
  assumes "length path + 1 < N"
  shows "fill_sun_path N path = Some (path @ replicate (N - length path) NUL)"
proof -
  let ?n = "length path + 1"
  have "take ?n (path @ replicate ?n NUL) @ drop ?n (replicate N NUL) = path @ replicate (N - length path) NUL"
    using assms by (simp add: replicate_add [symmetric] flip: replicate_Suc)
  moreover have "(path @ replicate (N - length path) NUL)[?n := NUL] = path @ replicate (N - length path) NUL"
    using assms by (intro list_update_same_conv [THEN iffD2]) (simp_all add: nth_append)
  ultimately show ?thesis
    using assms by (simp add: fill_sun_path_def Let_def strncpy_def put_def min_def)
qed

lemma fill_sun_path_overruns: "N \<le> length path + 1 \<Longrightarrow> fill_sun_path N path = None"
  by (simp add: fill_sun_path_def Let_def strncpy_def put_def min_def)

lemma c_string_fits: "c_string (path @ replicate k NUL) = c_string path"
  by (induction path) (auto simp: c_string_def)

lemma put_None: "length xs \<le> i \<Longrightarrow> put xs i x = None"
  by (simp add: put_def)

context socket_law
begin

lemma unlink_socket_view: "socks (v (unlink_socket os p s)) = socks (v s) \<and>
    accepted (v (unlink_socket os p s)) = accepted (v s) \<and> spawned (v (unlink_socket os p s)) = spawned (v s)"
  by (simp add: unlink_socket_def unlink_removes)

end

text \<open>The address a TCP server is made for.\<close>

definition server_addr :: "mnapp_tcp_server \<Rightarrow> string \<Rightarrow> sock_addr" where
  "server_addr srv h = (if family srv = PF_INET then Inet h (servname srv) else Path (c_string h))"

locale tcp_law = socket_law os v for os :: "('s, unit) os_env" and v :: "'s \<Rightarrow> os_view"
begin

lemma start_local_view:
  assumes "hostname srv = Some h" and "length h + 1 < sun_path_size os"
  shows "\<exists>e srv' s'. start_local os srv s = Some (e, srv', s') \<and> hostname srv' = Some h \<and> thread srv' = thread srv \<and>
    (case e of Some k \<Rightarrow> k \<in> {2, 3, 4} \<and> fd srv' < 0 \<and> socks (v s') = socks (v s)
     | None \<Rightarrow> 0 \<le> fd srv' \<and> socks (v s) (fd srv') = None \<and> socks (v s') = (socks (v s))(fd srv' \<mapsto> Bound (Path (c_string h))))"
proof -
  let ?s1 = "unlink_socket os h s"
  obtain d s2 where so: "os_socket os PF_LOCAL (socktype srv) ?s1 = (d, s2)" by fastforce
  obtain r3 s3 where nb: "os_nonblock os d s2 = (r3, s3)" by fastforce
  obtain r4 s4 where bi: "os_bind os d (h @ replicate (sun_path_size os - length h) NUL) s3 = (r4, s4)" by fastforce
  note views = socket_new [OF so] nonblock_keeps [OF nb] bind_path [OF bi] unlink_socket_view [of h s]
  show ?thesis
    using assms fill_sun_path_fits [OF assms(2)] so nb bi views
    by (auto simp: start_local_def Let_def close_removes c_string_fits fun_upd_idem split: if_split_asm)
qed

lemma start_bound_view:
  assumes "hostname srv = Some h" and "family srv = PF_INET \<or> length h + 1 < sun_path_size os"
  shows "\<exists>e srv' s'. start_bound os srv s = Some (e, srv', s') \<and> hostname srv' = Some h \<and> thread srv' = thread srv \<and>
    (case e of Some k \<Rightarrow> k \<in> {1, 2, 3, 4} \<and> fd srv' < 0 \<and> socks (v s') = socks (v s)
     | None \<Rightarrow> 0 \<le> fd srv' \<and> socks (v s) (fd srv') = None \<and> socks (v s') = (socks (v s))(fd srv' \<mapsto> Bound (server_addr srv h)))"
proof (cases "family srv = PF_INET")
  case True
  obtain d s1 where so: "mnthr_socket_bind os h (servname srv) (family srv) s = (d, s1)" by fastforce
  show ?thesis using assms True so socket_bind_new [OF so] by (auto simp: start_bound_def server_addr_def)
next
  case False
  then obtain e srv' s' where l: "start_local os srv s = Some (e, srv', s')" "hostname srv' = Some h" "thread srv' = thread srv"
      "case e of Some k \<Rightarrow> k \<in> {2, 3, 4} \<and> fd srv' < 0 \<and> socks (v s') = socks (v s)
       | None \<Rightarrow> 0 \<le> fd srv' \<and> socks (v s) (fd srv') = None \<and> socks (v s') = (socks (v s))(fd srv' \<mapsto> Bound (Path (c_string h)))"
    using start_local_view [OF assms(1), of s] assms(2) by blast
  show ?thesis
    using False l by (intro exI [of _ e] exI [of _ srv'] exI [of _ s']) (auto simp: start_bound_def server_addr_def split: option.split_asm)
qed

lemma start_view:
  assumes "hostname srv = Some h" and "family srv = PF_INET \<or> length h + 1 < sun_path_size os"
  shows "\<exists>r srv' s'. mnapp_tcp_server_start os srv s = Some (r, srv', s') \<and>
    ((\<exists>k \<in> {1..5}. r = ERR MNAPP_TCP_SERVER_START k) \<and> fd srv' < 0 \<and> thread srv' = thread srv \<and> socks (v s') = socks (v s) \<or>
     r = RC 0 \<and> 0 \<le> fd srv' \<and> socks (v s) (fd srv') = None \<and> thread srv' \<noteq> None \<and>
       socks (v s') = (socks (v s))(fd srv' \<mapsto> Listening (server_addr srv h)))"
proof -
  obtain e srv1 s1 where b: "start_bound os srv s = Some (e, srv1, s1)" "hostname srv1 = Some h" "thread srv1 = thread srv"
      "case e of Some k \<Rightarrow> k \<in> {1, 2, 3, 4} \<and> fd srv1 < 0 \<and> socks (v s1) = socks (v s)
       | None \<Rightarrow> 0 \<le> fd srv1 \<and> socks (v s) (fd srv1) = None \<and> socks (v s1) = (socks (v s))(fd srv1 \<mapsto> Bound (server_addr srv h))"
    using start_bound_view [OF assms, of s] by blast
  show ?thesis
  proof (cases e)
    case (Some k)
    then show ?thesis using b by (auto simp: mnapp_tcp_server_start_def)
  next
    case None
    obtain r s2 where li: "os_listen os (fd srv1) (listen_backlog srv1) s1 = (r, s2)" by fastforce
    obtain t s3 where sp: "mnthr_spawn os h () s2 = (t, s3)" by fastforce
    have "socks (v s1) (fd srv1) = Some (Bound (server_addr srv h))" using b None by simp
    from listen_bound [OF li this] show ?thesis
      using None b li sp spawn_socks [OF sp]
      by (auto simp: mnapp_tcp_server_start_def close_removes fun_upd_idem)
  qed
qed

end

context conn_law
begin

lemma spawn_all_view:
  "v (spawn_all os ps s) = (v s)\<lparr>spawned := spawned (v s) @ ps\<rparr>"
proof (induction ps arbitrary: s)
  case (Cons p ps)
  have "v (Servers.spawn_conn os p s) = (v s)\<lparr>spawned := spawned (v s) @ [p]\<rparr>"
    using spawn_conn [of _ p s] by (simp add: spawn_conn_def prod_eq_iff)
  with Cons show ?case by simp
qed simp

text \<open>The loop keeps: every accepted connection has its thread, in order.\<close>

lemma local_round_view:
  assumes "local_round os d s = Some r" and "spawned (v s) = accepted (v s)"
  shows "\<exists>s'. (r = Inl s' \<or> r = Inr s') \<and> spawned (v s') = accepted (v s') \<and> socks (v s') = socks (v s)"
proof (cases "fst s")
  case True
  then show ?thesis using assms by (intro exI [of _ s]) (simp add: local_round_def)
next
  case False
  obtain c ps s1 where a: "mnthr_accept_all os d s = (c, ps, s1)" by (cases "mnthr_accept_all os d s")
  show ?thesis
    using assms False a accept_conns [OF a]
    by (intro exI [of _ "if c = 0 then spawn_all os ps s1 else s1"]) (simp add: local_round_def spawn_all_view split: if_split_asm)
qed

lemma local_loop_view:
  assumes "run_steps n (local_round os d) s = Returned s'" and "spawned (v s) = accepted (v s)"
  shows "spawned (v s') = accepted (v s') \<and> socks (v s') = socks (v s)"
proof -
  define J where "J a \<longleftrightarrow> spawned (v a) = accepted (v a) \<and> socks (v a) = socks (v s)" for a
  have "(\<exists>b. r = Inl b \<and> J b) \<or> (\<exists>x. r = Inr x \<and> J x)" if "J a" "local_round os d a = Some r" for a r
    using local_round_view [OF that(2)] that(1) unfolding J_def by metis
  moreover have "J s" using assms(2) by (simp add: J_def)
  ultimately have "J s'" using run_steps_keeps [of J "local_round os d" J s n s'] assms(1) by blast
  then show ?thesis by (simp add: J_def)
qed

lemma local_open_view:
  assumes "local_open os backlog path s = Some (Inr (d, s'))"
  shows "0 \<le> d \<and> socks (v s) d = None \<and> socks (v s') = (socks (v s))(d \<mapsto> Listening (Path (c_string path))) \<and>
    accepted (v s') = accepted (v s) \<and> spawned (v s') = spawned (v s)"
proof -
  let ?s1 = "unlink_socket os path s"
  obtain d2 s2 where so: "os_socket os PF_LOCAL SOCK_STREAM ?s1 = (d2, s2)" by (rule prod.exhaust)
  obtain sp where sp: "fill_sun_path (sun_path_size os) path = Some sp" and c: "c_string sp = c_string path"
    using assms fill_sun_path_fits [of path "sun_path_size os"] fill_sun_path_overruns [of "sun_path_size os" path]
    by (cases "length path + 1 < sun_path_size os") (auto simp: local_open_def Let_def c_string_fits split: Option.bind_split_asm)
  obtain r3 s3 where bi: "os_bind os d2 sp s2 = (r3, s3)" by (rule prod.exhaust)
  obtain r4 s4 where li: "os_listen os d2 (if backlog \<le> 0 then 1 else backlog) s3 = (r4, s4)" by (rule prod.exhaust)
  have ok: "0 \<le> d2" "r3 = 0" "r4 = 0" "d = d2" "s' = s4"
    using assms so sp bi li by (auto simp: local_open_def Let_def split: if_split_asm)
  have "socks (v s3) d2 = Some (Bound (Path (c_string path)))" using bind_path [OF bi] ok c by simp
  from listen_bound [OF li this] show ?thesis
    using ok c socket_new [OF so] bind_path [OF bi] unlink_socket_view [of path s] by simp
qed

lemma local_server_view:
  assumes "local_server n os backlog path s = Returned (Inr (r, s'))" and "spawned (v s) = accepted (v s)"
  shows "r = 0 \<and> spawned (v s') = accepted (v s') \<and> socks (v s') = socks (v s) \<and> path \<notin> paths (v s')"
proof -
  obtain d s1 s2 where *: "local_open os backlog path s = Some (Inr (d, s1))"
      "run_steps n (local_round os d) s1 = Returned s2" "r = 0"
      "s' = os_unlink os path (if d \<noteq> -1 then os_close os d s2 else s2)"
    using assms(1) by (auto simp: local_server_def split: option.split_asm sum.split_asm outcome.split_asm)
  note o = local_open_view [OF *(1)]
  have "spawned (v s2) = accepted (v s2) \<and> socks (v s2) = socks (v s1)"
    using local_loop_view [OF *(2)] o assms(2) by simp
  then show ?thesis using * o by (simp add: unlink_removes close_removes fun_upd_idem)
qed

end

text \<open>The loop ends when every successful round without a shutdown uses up some of a finite stock.\<close>

lemma local_server_returns:
  assumes "\<forall>d s ps s1. \<not> fst s \<longrightarrow> mnthr_accept_all os d s = (0, ps, s1) \<longrightarrow> m (spawn_all os ps s1) < (m s :: nat)"
    and "length path + 1 < sun_path_size os"
  shows "\<exists>n r. local_server n os backlog path s = Returned r"
proof -
  obtain x where x: "local_open os backlog path s = Some x"
    using fill_sun_path_fits [OF assms(2)] by (simp add: local_open_def Let_def)
  show ?thesis
  proof (cases x)
    case (Inl e)
    then show ?thesis using x by (auto simp: local_server_def)
  next
    case (Inr y)
    obtain d s1 where y: "y = (d, s1)" by (rule prod.exhaust)
    have "\<exists>n. \<forall>s'. run_steps n (local_round os d) s1 \<noteq> Running s'"
    proof (rule run_steps_ends [of "measure m" "\<lambda>_. True"])
      show "True \<and> (b, a) \<in> measure m" if "local_round os d a = Some (Inl b)" for a b
        using that assms(1) by (cases a) (auto simp: local_round_def split: if_split_asm prod.split_asm)
    qed simp_all
    then obtain n where n: "\<forall>s'. run_steps n (local_round os d) s1 \<noteq> Running s'" by blast
    have ud: "run_steps k (local_round os d) a \<noteq> Undefined" for k a
      by (induction k arbitrary: a) (auto simp: local_round_def split: prod.split)
    obtain s2 where "run_steps n (local_round os d) s1 = Returned s2"
      using n ud [of n s1] by (cases "run_steps n (local_round os d) s1") auto
    then show ?thesis using x Inr y by (auto simp: local_server_def intro!: exI [of _ n])
  qed
qed

section \<open>A system of lists\<close>

text \<open>A system that numbers its sockets and accepts the connections of a script, then fails.\<close>

record list_world =
  next_fd :: int
  view :: os_view
  script :: "int list list"

definition new_fd :: "sock_state \<Rightarrow> bool \<times> list_world \<Rightarrow> int \<times> bool \<times> list_world" where
  "new_fd a s = (let w = snd s; d = next_fd w in
     if d < 0 \<or> socks (view w) d \<noteq> None then (-1, s)
     else (d, fst s, w\<lparr>next_fd := d + 1, view := (view w)\<lparr>socks := (socks (view w))(d \<mapsto> a)\<rparr>\<rparr>))"

definition on_view :: "(os_view \<Rightarrow> os_view) \<Rightarrow> bool \<times> list_world \<Rightarrow> bool \<times> list_world" where
  "on_view g s = (fst s, (snd s)\<lparr>view := g (view (snd s))\<rparr>)"

definition list_os :: "('j \<Rightarrow> int list) \<Rightarrow> (bool \<times> list_world, 'j) os_env" where
  "list_os conns = \<lparr>
     sun_path_size = 108,
     os_stat_sock = (\<lambda>p s. p \<in> paths (view (snd s))),
     os_unlink = (\<lambda>p. on_view (\<lambda>x. x\<lparr>paths := paths x - {p}\<rparr>)),
     os_socket = (\<lambda>f ty. new_fd Unbound),
     os_nonblock = (\<lambda>d s. (0, s)),
     os_bind = (\<lambda>d sp s. (0, on_view (\<lambda>x. x\<lparr>socks := (socks x)(d \<mapsto> Bound (Path (c_string sp))),
       paths := insert (c_string sp) (paths x)\<rparr>) s)),
     os_listen = (\<lambda>d b s. case socks (view (snd s)) d of
         Some (Bound a) \<Rightarrow> (0, on_view (\<lambda>x. x\<lparr>socks := (socks x)(d \<mapsto> Listening a)\<rparr>) s)
       | _ \<Rightarrow> (-1, s)),
     os_close = (\<lambda>d. on_view (\<lambda>x. x\<lparr>socks := (socks x)(d := None)\<rparr>)),
     mnthr_socket_bind = (\<lambda>h q f. new_fd (Bound (Inet h q))),
     mnthr_accept_all = (\<lambda>d s. case script (snd s) of
         [] \<Rightarrow> (-1, [], s)
       | ps # bs \<Rightarrow> (0, ps, on_view (\<lambda>x. x\<lparr>accepted := accepted x @ ps\<rparr>) (fst s, (snd s)\<lparr>script := bs\<rparr>))),
     mnthr_spawn = (\<lambda>n j s. (0, on_view (\<lambda>x. x\<lparr>spawned := spawned x @ conns j\<rparr>) s)),
     mnthr_interrupt_join = (\<lambda>t s. s),
     mnthr_join = (\<lambda>t s. (0, s))\<rparr>"

lemma new_fd_view:
  "new_fd a s = (d, s') \<Longrightarrow>
     view (snd s') = (if d < 0 then view (snd s) else (view (snd s))\<lparr>socks := (socks (view (snd s)))(d \<mapsto> a)\<rparr>) \<and>
     (0 \<le> d \<longrightarrow> socks (view (snd s)) d = None)"
  by (auto simp: new_fd_def Let_def split: if_split_asm)

interpretation list_sockets: socket_law "list_os conns" "\<lambda>s. view (snd s)" for conns :: "'j \<Rightarrow> int list"
  by unfold_locales (auto simp: list_os_def on_view_def dest: new_fd_view)

interpretation list_tcp: tcp_law "list_os (\<lambda>_. [])" "\<lambda>s. view (snd s)"
  by unfold_locales

interpretation list_conns: conn_law "list_os (\<lambda>d. [d])" "\<lambda>s. view (snd s)"
  by unfold_locales (auto simp: list_os_def on_view_def split: list.split_asm)

definition idle :: "int list list \<Rightarrow> bool \<times> list_world" where
  "idle batches = (False, \<lparr>next_fd = 3, view = \<lparr>socks = Map.empty, paths = {''/tmp/s''}, accepted = [], spawned = []\<rparr>,
     script = batches\<rparr>)"

lemma list_accept_stock:
  assumes "mnthr_accept_all (list_os (\<lambda>d. [d])) d s = (0, ps, s1)"
  shows "length (script (snd (spawn_all (list_os (\<lambda>d. [d])) ps s1))) < length (script (snd s))"
proof -
  have "script (snd (spawn_all (list_os (\<lambda>d. [d])) ps t)) = script (snd t)" for t
    by (induction ps arbitrary: t) (simp_all add: spawn_conn_def list_os_def on_view_def)
  then show ?thesis using assms by (auto simp: list_os_def on_view_def split: list.split_asm)
qed

section \<open>Batches\<close>

text \<open>The state after handing connections to the callback.\<close>

definition served :: "'s tcp_cb \<Rightarrow> int list \<Rightarrow> mnapp_tcp_server \<times> 's \<Rightarrow> mnapp_tcp_server \<times> 's" where
  "served cb ps st = foldl (\<lambda>st p. snd (cb p st)) st ps"

lemma served_simps [simp]: "served cb [] st = st" "served cb (p # ps) st = served cb ps (snd (cb p st))"
  by (simp_all add: served_def)

text \<open>Those of a batch that are handed on: up to and including the first one the callback fails on.\<close>

fun handed :: "'s tcp_cb \<Rightarrow> int list \<Rightarrow> mnapp_tcp_server \<times> 's \<Rightarrow> int list" where
  "handed cb [] st = []"
| "handed cb (p # ps) st = (case cb p st of (r, st1) \<Rightarrow> if r \<noteq> 0 then [p] else p # handed cb ps st1)"

lemma serve_batch_served: "snd (serve_batch cb res ps st) = served cb (handed cb ps st) st"
  by (induction cb res ps st rule: serve_batch.induct) (auto split: prod.split)

text \<open>A run of the worker: the batches it accepts, and the state after them, in which the worker is about to look for another.\<close>

inductive accepts :: "'s tcp_accept \<Rightarrow> 's tcp_cb \<Rightarrow> mnapp_tcp_server \<times> 's \<Rightarrow> int list list \<Rightarrow> mnapp_tcp_server \<times> 's \<Rightarrow> bool"
  for acc cb where
  none: "accepts acc cb st [] st"
| batch: "\<not> shutting_down (fst st) \<Longrightarrow> acc (fd (fst st)) st = (0, b, st1) \<Longrightarrow>
    accepts acc cb (served cb (handed cb b st1) st1) bs st' \<Longrightarrow> accepts acc cb st (b # bs) st'"

lemma worker_accepts:
  "accepts acc cb st bs st' \<Longrightarrow>
     \<exists>r'. run_steps (length bs + n) (worker_round acc cb) (r, st) = run_steps n (worker_round acc cb) (r', st')"
proof (induction st bs st' arbitrary: r rule: accepts.induct)
  case (batch st b st1 bs st')
  have "worker_round acc cb (r, st) = Some (Inl (serve_batch cb 0 b st1))"
    using batch(1,2) by (cases st) (simp add: worker_round_def)
  then show ?case
    using batch.IH [of "fst (serve_batch cb 0 b st1)"] by (simp flip: serve_batch_served [where res = 0])
qed auto

section \<open>Claims\<close>

text \<open>
  C39. The address of a local socket is built inside its array exactly when the path and its terminator are shorter than
  the array: the result is then the path followed by zeros. A path that fills the array with its terminator, or is
  longer, makes the code store the extra terminator one byte past the array.
\<close>

theorem sun_path_bounds:
  "fill_sun_path N path =
     (if length path + 1 < N then Some (path @ replicate (N - length path) NUL) else None)"
  using fill_sun_path_fits fill_sun_path_overruns by (simp add: not_less)

text \<open>
  C19. Starting a TCP server that has its host name (and, for a local address, one short enough) is defined on every
  branch and leaks nothing: either it gives one of the five diagnostics, the descriptor is negative, no thread was started
  and the open sockets are those there were before, or it gives 0, the server holds a thread and a new socket that is bound to
  the server's address (the host and service, or the path) and listens there, and no other socket has changed.
\<close>

theorem tcp_start_clean:
  assumes "tcp_law os v" and "hostname srv = Some h" and "family srv = PF_INET \<or> length h + 1 < sun_path_size os"
  shows "\<exists>r srv' s'. mnapp_tcp_server_start os srv s = Some (r, srv', s') \<and>
    ((\<exists>k \<in> {1..5}. r = ERR MNAPP_TCP_SERVER_START k) \<and> fd srv' < 0 \<and> thread srv' = thread srv \<and> socks (v s') = socks (v s) \<or>
     r = RC 0 \<and> 0 \<le> fd srv' \<and> socks (v s) (fd srv') = None \<and> thread srv' \<noteq> None \<and>
       socks (v s') = (socks (v s))(fd srv' \<mapsto> Listening (server_addr srv h)))"
  by (rule tcp_law.start_view [OF assms])

theorem tcp_start_clean_witness:
  "\<exists>srv' s'. mnapp_tcp_server_start (list_os (\<lambda>_. [])) (mnapp_tcp_server_init 5 ''/tmp/s'') (idle []) = Some (RC 0, srv', s') \<and>
     socks (view (snd s')) = [3 \<mapsto> Listening (Path ''/tmp/s'')]"
proof -
  let ?srv = "mnapp_tcp_server_init 5 ''/tmp/s''"
  have h: "hostname ?srv = Some ''/tmp/s''" "family ?srv = PF_INET \<or> length ''/tmp/s'' + 1 < sun_path_size (list_os (\<lambda>_ :: unit. []))"
    by (simp_all add: mnapp_tcp_server_init_def list_os_def)
  have p: "fill_sun_path 108 ''/tmp/s'' = Some (''/tmp/s'' @ replicate (108 - length ''/tmp/s'') NUL)"
    by (rule fill_sun_path_fits) simp
  have "\<exists>srv' s'. mnapp_tcp_server_start (list_os (\<lambda>_. [])) ?srv (idle []) = Some (RC 0, srv', s') \<and> fd srv' = 3"
    by (auto simp: mnapp_tcp_server_start_def start_bound_def start_local_def list_os_def idle_def new_fd_def on_view_def
        unlink_socket_def p mnapp_tcp_server_init_def)
  moreover have "socks (view (snd (idle []))) = Map.empty" by (simp add: idle_def)
  moreover have "server_addr ?srv ''/tmp/s'' = Path ''/tmp/s''"
    by (simp add: server_addr_def mnapp_tcp_server_init_def c_string_def)
  ultimately show ?thesis using tcp_start_clean [OF list_tcp.tcp_law_axioms h, of "idle []"] by auto
qed

text \<open>
  C40. Stopping and finishing a server that was started ends its thread and clears its structure but does not close the
  listening socket: the descriptor is forgotten while the socket stays open.
\<close>

theorem tcp_fini_leaks:
  assumes "tcp_law os v" and "mnapp_tcp_server_start os srv s = Some (RC 0, srv1, s1)"
    and "hostname srv = Some h" and "family srv = PF_INET \<or> length h + 1 < sun_path_size os"
    and "mnapp_tcp_server_stop os srv1 s1 = (srv2, s2)" and "mnapp_tcp_server_fini os srv2 s2 = (srv3, s3)"
  shows "thread srv3 = None \<and> shutting_down srv3 \<and> hostname srv3 = None \<and> fd srv3 = -1 \<and>
    socks (v s3) (fd srv1) = Some (Listening (server_addr srv h))"
proof -
  have "socks (v s1) (fd srv1) = Some (Listening (server_addr srv h))" using tcp_law.start_view [OF assms(1,3,4), of s] assms(2) by auto
  moreover have "socks (v s3) = socks (v s1)"
    using assms(1,5,6) unfolding tcp_law_def
    by (auto simp: mnapp_tcp_server_stop_def mnapp_tcp_server_fini_def join_thread_def socket_law.join_socks split: option.split_asm)
  moreover have "thread srv3 = None \<and> shutting_down srv3 \<and> hostname srv3 = None \<and> fd srv3 = -1"
    using assms(5,6) by (auto simp: mnapp_tcp_server_stop_def mnapp_tcp_server_fini_def join_thread_def split: option.split_asm)
  ultimately show ?thesis by simp
qed

theorem tcp_fini_leaks_witness:
  "\<exists>srv3 s3. fd srv3 = -1 \<and> socks (view (snd s3)) 3 = Some (Listening (Inet ''localhost'' (Some ''80''))) \<and>
     (\<exists>srv1 s1. mnapp_tcp_server_start (list_os (\<lambda>_. [])) (mnapp_tcp_server_init 5 ''localhost:80'') (idle []) = Some (RC 0, srv1, s1) \<and>
        mnapp_tcp_server_fini (list_os (\<lambda>_. [])) (fst (mnapp_tcp_server_stop (list_os (\<lambda>_. [])) srv1 s1))
          (snd (mnapp_tcp_server_stop (list_os (\<lambda>_. [])) srv1 s1)) = (srv3, s3))"
proof -
  let ?os = "list_os (\<lambda>_. [])" and ?srv = "mnapp_tcp_server_init 5 ''localhost:80''"
  have h: "hostname ?srv = Some ''localhost''" "family ?srv = PF_INET \<or> length ''localhost'' + 1 < sun_path_size ?os"
    by (simp_all add: mnapp_tcp_server_init_def)
  obtain srv1 s1 where 1: "mnapp_tcp_server_start ?os ?srv (idle []) = Some (RC 0, srv1, s1)" and f: "fd srv1 = 3"
    by (auto simp: mnapp_tcp_server_start_def start_bound_def list_os_def idle_def new_fd_def on_view_def
        mnapp_tcp_server_init_def)
  have a: "server_addr ?srv ''localhost'' = Inet ''localhost'' (Some ''80'')"
    by (simp add: server_addr_def mnapp_tcp_server_init_def)
  obtain srv2 s2 where 2: "mnapp_tcp_server_stop ?os srv1 s1 = (srv2, s2)" by (rule prod.exhaust)
  obtain srv3 s3 where 3: "mnapp_tcp_server_fini ?os srv2 s2 = (srv3, s3)" by (rule prod.exhaust)
  show ?thesis
    using tcp_fini_leaks [OF list_tcp.tcp_law_axioms 1 h 2 3] 1 2 3 f a
    by (intro exI [of _ srv3] exI [of _ s3]) auto
qed

text \<open>
  C20. The TCP server's worker hands the connections it accepts to the callback in order, batch by batch, each batch up
  to and including the first connection the callback fails on: a failing callback ends the batch (its other
  connections are never handed on) but not the worker. After any number of batches the worker returns as soon as accepting
  fails, with that result, or the server is shutting down, with the result of its last round.
\<close>

theorem tcp_worker_serves:
  assumes "accepts acc cb (srv, s) bs st'"
  shows "(shutting_down (fst st') \<longrightarrow> (\<exists>r. mnapp_tcp_server_worker (length bs + 1) acc cb (srv, s) = Returned (r, st'))) \<and>
    (\<forall>r ps st2. \<not> shutting_down (fst st') \<longrightarrow> acc (fd (fst st')) st' = (r, ps, st2) \<longrightarrow> r \<noteq> 0 \<longrightarrow>
      mnapp_tcp_server_worker (length bs + 1) acc cb (srv, s) = Returned (r, st2))"
proof -
  obtain r' where "mnapp_tcp_server_worker (length bs + 1) acc cb (srv, s) = run_steps 1 (worker_round acc cb) (r', st')"
    using worker_accepts [OF assms, of 1 0] unfolding mnapp_tcp_server_worker_def by auto
  then show ?thesis by (cases st') (auto simp: worker_round_def)
qed

text \<open>A server that accepts the batches of a script and then fails; its callback notes the connections and fails on 5.\<close>

definition script_accept :: "(int list list \<times> int list) tcp_accept" where
  "script_accept d = (\<lambda>(srv, bs, log). case bs of [] \<Rightarrow> (-1, [], srv, [], log) | b # bs' \<Rightarrow> (0, b, srv, bs', log))"

definition script_cb :: "(int list list \<times> int list) tcp_cb" where
  "script_cb p = (\<lambda>(srv, bs, log). (if p = 5 then -1 else 0, srv, bs, log @ [p]))"

theorem tcp_worker_serves_witness:
  "mnapp_tcp_server_worker 3 script_accept script_cb (mnapp_tcp_server_init 1 ''a:1'', [[4, 5, 6], [7]], []) =
     Returned (-1, mnapp_tcp_server_init 1 ''a:1'', [], [4, 5, 7])"
proof -
  let ?srv = "mnapp_tcp_server_init 1 ''a:1''"
  have sd: "\<not> shutting_down ?srv" by (simp add: mnapp_tcp_server_init_def)
  have "accepts script_accept script_cb (?srv, [[4, 5, 6], [7]], []) [[4, 5, 6], [7]] (?srv, [], [4, 5, 7])"
    by (rule accepts.batch, simp add: sd, simp add: script_accept_def, rule accepts.batch, simp add: script_cb_def sd,
        simp add: script_cb_def script_accept_def, simp add: script_cb_def accepts.none)
  from tcp_worker_serves [OF this] show ?thesis using sd by (simp add: script_accept_def numeral_3_eq_3)
qed

text \<open>
  C21. On a system that keeps its contract, and where only finitely many rounds accept connections before a shutdown or a
  failure, the local server returns (unless opening its socket ends the process). It then gives 0, every
  connection it accepted has got its thread, in order, its listening socket is closed (the open sockets are those there were before) and its path is removed.
\<close>

theorem local_server_complete:
  assumes "conn_law os v" and "spawned (v s) = accepted (v s)" and "length path + 1 < sun_path_size os"
    and "\<forall>d s ps s1. \<not> fst s \<longrightarrow> mnthr_accept_all os d s = (0, ps, s1) \<longrightarrow> m (spawn_all os ps s1) < (m s :: nat)"
  shows "\<exists>n. (\<exists>e. local_server n os backlog path s = Returned (Inl e)) \<or>
    (\<exists>s'. local_server n os backlog path s = Returned (Inr (0, s')) \<and> spawned (v s') = accepted (v s') \<and>
       socks (v s') = socks (v s) \<and> path \<notin> paths (v s'))"
proof -
  obtain n x where n: "local_server n os backlog path s = Returned x"
    using local_server_returns [OF assms(4,3)] by blast
  show ?thesis
  proof (cases x)
    case (Inl e)
    then show ?thesis using n by blast
  next
    case (Inr y)
    obtain r s' where y: "y = (r, s')" by (rule prod.exhaust)
    have "r = 0 \<and> spawned (v s') = accepted (v s') \<and> socks (v s') = socks (v s) \<and> path \<notin> paths (v s')"
      using conn_law.local_server_view [OF assms(1) n [unfolded Inr y] assms(2)] .
    then show ?thesis using n Inr y by blast
  qed
qed

theorem local_server_complete_witness:
  "\<exists>n s'. local_server n (list_os (\<lambda>d. [d])) 0 ''/tmp/s'' (idle [[4, 5], [6]]) = Returned (Inr (0, s')) \<and>
     spawned (view (snd s')) = accepted (view (snd s')) \<and> socks (view (snd s')) = Map.empty"
proof -
  let ?os = "list_os (\<lambda>d. [d])" and ?s = "idle [[4, 5], [6]]"
  have p: "length ''/tmp/s'' + 1 < sun_path_size ?os" by (simp add: list_os_def)
  have sa: "spawned (view (snd ?s)) = accepted (view (snd ?s))" by (simp add: idle_def)
  have no_fail: "local_server n ?os 0 ''/tmp/s'' ?s \<noteq> Returned (Inl e)" for n e
    using fill_sun_path_fits [OF p]
    by (auto simp: local_server_def local_open_def list_os_def idle_def new_fd_def on_view_def unlink_socket_def
        split: outcome.split)
  have stock: "\<forall>d s ps s1. \<not> fst s \<longrightarrow> mnthr_accept_all ?os d s = (0, ps, s1) \<longrightarrow>
      length (script (snd (spawn_all ?os ps s1))) < length (script (snd s))"
    using list_accept_stock by blast
  show ?thesis
    using local_server_complete [OF list_conns.conn_law_axioms sa p stock, of 0] no_fail
    by (auto simp: idle_def)
qed

end
