(* ===== verification/SslHelper.thy ===== *)
theory SslHelper
  imports HttpCtx
begin

text \<open>
  The TLS stream functions of src/src/bytestream_ssl_helper.c. OpenSSL and the thread library act on a state \<open>'w\<close>
  through the record \<open>ssl_env\<close>; the stream is that of the HTTP parser, its buffer being all of \<open>buf.data\<close>.
  A store or a read outside the buffer is undefined (\<open>None\<close>). Waiting may repeat for ever, so the loops run
  with fuel.
\<close>

section \<open>The code\<close>

abbreviation (input) BLOCKSZ :: int where "BLOCKSZ \<equiv> 4096"

abbreviation (input) SSL_ERROR_WANT_READ :: int where "SSL_ERROR_WANT_READ \<equiv> 2"
abbreviation (input) SSL_ERROR_WANT_WRITE :: int where "SSL_ERROR_WANT_WRITE \<equiv> 3"

text \<open>
  \<open>SSL_read\<close> is given the size of the buffer and gives its result and the bytes it stores; \<open>SSL_write\<close> is given the
  memory at the pointer and the number of bytes.
\<close>

record 'w ssl_env =
  bytestream_grow :: "bytestream \<Rightarrow> int \<Rightarrow> int \<times> bytestream"
  SSL_read :: "int \<Rightarrow> 'w \<Rightarrow> int \<times> string \<times> 'w"
  SSL_write :: "char list \<Rightarrow> int \<Rightarrow> 'w \<Rightarrow> int \<times> 'w"
  SSL_get_error :: "int \<Rightarrow> 'w \<Rightarrow> int"
  mnthr_wait_for_read :: "'w \<Rightarrow> int \<times> 'w"
  mnthr_wait_for_write :: "'w \<Rightarrow> int \<times> 'w"

definition store_bytes :: "char list \<Rightarrow> int \<Rightarrow> string \<Rightarrow> char list option" where
  "store_bytes m i bs =
     (if 0 \<le> i \<and> i + int (length bs) \<le> int (length m)
      then Some (take (nat i) m @ bs @ drop (nat i + length bs) m) else None)"

text \<open>What both loops do after a call that made no progress: wait and go on, or give up.\<close>

definition ssl_retry :: "'w ssl_env \<Rightarrow> int \<Rightarrow> 'w \<Rightarrow> 'w + 'w" where
  "ssl_retry ssl n w =
     (let res = SSL_get_error ssl n w in
      if res = SSL_ERROR_WANT_READ then
        (case mnthr_wait_for_read ssl w of (r, w') \<Rightarrow> if r \<noteq> 0 then Inr w' else Inl w')
      else if res = SSL_ERROR_WANT_WRITE then
        (case mnthr_wait_for_write ssl w of (r, w') \<Rightarrow> if r \<noteq> 0 then Inr w' else Inl w')
      else Inr w)"

definition recv_round ::
  "'w ssl_env \<Rightarrow> int \<Rightarrow> bytestream \<times> 'w \<Rightarrow> ((bytestream \<times> 'w) + (int \<times> bytestream \<times> 'w)) option" where
  "recv_round ssl sz = (\<lambda>(stream, w).
     case SSL_read ssl (c_int sz) w of (nrecv, bs, w1) \<Rightarrow>
       if nrecv > 0 then do {
         m \<leftarrow> store_bytes (sbuf stream) (seod stream) bs;
         Some (Inr (nrecv, stream\<lparr>sbuf := m, seod := seod stream + nrecv\<rparr>, w1))
       }
       else case ssl_retry ssl nrecv w1 of
         Inl w2 \<Rightarrow> Some (Inl (stream, w2))
       | Inr w2 \<Rightarrow> Some (Inr (-1, stream, w2)))"

definition bytestream_ssl_recv_more ::
  "nat \<Rightarrow> 'w ssl_env \<Rightarrow> bytestream \<Rightarrow> int \<Rightarrow> 'w \<Rightarrow> (bytestream \<times> 'w, int \<times> bytestream \<times> 'w) outcome" where
  "bytestream_ssl_recv_more fuel ssl stream sz w =
     (let need = seod stream + sz - int (length (sbuf stream));
          (r, stream1) = (if need > 0 then bytestream_grow ssl stream (if need < BLOCKSZ then BLOCKSZ else need)
                          else (0, stream))
      in if r \<noteq> 0 then Returned (-1, stream1, w)
         else run_steps fuel (recv_round ssl sz) (stream1, w))"

definition send_round ::
  "'w ssl_env \<Rightarrow> int \<Rightarrow> bytestream \<times> 'w \<Rightarrow> ((bytestream \<times> 'w) + (int \<times> bytestream \<times> 'w)) option" where
  "send_round ssl sz = (\<lambda>(stream, w). do {
     m \<leftarrow> mem_from (sbuf stream) (spos stream);
     Some (case SSL_write ssl m (c_int sz) w of (nwritten, w1) \<Rightarrow>
       if nwritten > 0 then Inr (nwritten, stream\<lparr>spos := spos stream + nwritten\<rparr>, w1)
       else case ssl_retry ssl nwritten w1 of
         Inl w2 \<Rightarrow> Inl (stream, w2)
       | Inr w2 \<Rightarrow> Inr (-1, stream, w2))
   })"

definition bytestream_ssl_send ::
  "nat \<Rightarrow> 'w ssl_env \<Rightarrow> bytestream \<Rightarrow> int \<Rightarrow> 'w \<Rightarrow> (bytestream \<times> 'w, int \<times> bytestream \<times> 'w) outcome" where
  "bytestream_ssl_send fuel ssl stream sz w =
     (if spos stream + sz > seod stream then Returned (-1, stream, w)
      else run_steps fuel (send_round ssl sz) (stream, w))"

section \<open>The contract of the libraries\<close>

text \<open>A stream whose end of data is inside its buffer and whose position is before it.\<close>

definition stream_ok :: "bytestream \<Rightarrow> bool" where
  "stream_ok b \<longleftrightarrow> 0 \<le> spos b \<and> spos b \<le> seod b \<and> seod b \<le> int (length (sbuf b))"

definition stream_data :: "bytestream \<Rightarrow> string" where
  "stream_data b = take (nat (seod b)) (sbuf b)"

text \<open>
  \<open>got\<close> and \<open>sent\<close> are the bytes the connection has delivered and taken. Growing adds the bytes asked for at the end of
  the buffer, or fails and leaves the stream alone. \<open>patience\<close> bounds how often the connection can make
  its user wait before it delivers, takes or fails.
\<close>

locale ssl_law =
  fixes ssl :: "'w ssl_env" and got :: "'w \<Rightarrow> string" and sent :: "'w \<Rightarrow> string" and patience :: "'w \<Rightarrow> nat"
  assumes grow_buf: "bytestream_grow ssl b n = (r, b') \<Longrightarrow>
      (if r = 0 then \<exists>xs a. b' = b\<lparr>sbuf := sbuf b @ xs, saddr := a\<rparr> \<and> n \<le> int (length xs) else b' = b)"
    and read_bytes: "SSL_read ssl num w = (n, bs, w') \<Longrightarrow>
      sent w' = sent w \<and> patience w' \<le> patience w \<and>
      (if 0 < n then n \<le> num \<and> n = int (length bs) \<and> got w' = got w @ bs else got w' = got w)"
    and write_bytes: "SSL_write ssl m num w = (n, w') \<Longrightarrow>
      got w' = got w \<and> patience w' \<le> patience w \<and>
      (if 0 < n then n \<le> num \<and> sent w' = sent w @ take (nat n) m else sent w' = sent w)"
    and wait_read_keeps: "mnthr_wait_for_read ssl w = (r, w') \<Longrightarrow>
      got w' = got w \<and> sent w' = sent w \<and> (r \<noteq> 0 \<or> patience w' < patience w)"
    and wait_write_keeps: "mnthr_wait_for_write ssl w = (r, w') \<Longrightarrow>
      got w' = got w \<and> sent w' = sent w \<and> (r \<noteq> 0 \<or> patience w' < patience w)"

text \<open>What a call of the receiver may come to, from the stream and the connection as they were before.\<close>

definition received :: "('w \<Rightarrow> string) \<Rightarrow> ('w \<Rightarrow> string) \<Rightarrow> bytestream \<Rightarrow> int \<Rightarrow> 'w \<Rightarrow> int \<times> bytestream \<times> 'w \<Rightarrow> bool" where
  "received got sent b sz w = (\<lambda>(n, b', w'). stream_ok b' \<and> spos b' = spos b \<and> sent w' = sent w \<and>
     (n = -1 \<and> stream_data b' = stream_data b \<and> got w' = got w \<or>
      0 < n \<and> n \<le> sz \<and> (\<exists>bs. int (length bs) = n \<and> stream_data b' = stream_data b @ bs \<and> got w' = got w @ bs)))"

text \<open>And one of the sender.\<close>

definition transmitted :: "('w \<Rightarrow> string) \<Rightarrow> ('w \<Rightarrow> string) \<Rightarrow> bytestream \<Rightarrow> int \<Rightarrow> 'w \<Rightarrow> int \<times> bytestream \<times> 'w \<Rightarrow> bool" where
  "transmitted got sent b sz w = (\<lambda>(n, b', w'). got w' = got w \<and>
     (n = -1 \<and> b' = b \<and> sent w' = sent w \<or>
      0 < n \<and> n \<le> sz \<and> b' = b\<lparr>spos := spos b + n\<rparr> \<and> stream_ok b' \<and>
        sent w' = sent w @ take (nat n) (drop (nat (spos b)) (stream_data b))))"

definition room :: "bytestream \<Rightarrow> int \<Rightarrow> bool" where
  "room b sz \<longleftrightarrow> stream_ok b \<and> 0 \<le> sz \<and> seod b + sz \<le> int (length (sbuf b))"

lemma c_int_le:
  assumes "0 \<le> sz"
  shows "c_int sz \<le> sz"
proof (cases "sz < 2 ^ 31")
  case True
  then have "int_ok sz" using assms by (simp add: int_ok_def)
  then show ?thesis by simp
next
  case False
  then show ?thesis using c_int_range [of sz] by (simp add: int_ok_def)
qed

context ssl_law
begin

lemma retry_keeps:
  "ssl_retry ssl n w = Inl w' \<Longrightarrow> got w' = got w \<and> sent w' = sent w \<and> patience w' < patience w"
  "ssl_retry ssl n w = Inr w' \<Longrightarrow> got w' = got w \<and> sent w' = sent w"
  by (auto simp: ssl_retry_def Let_def split: if_split_asm prod.split_asm dest: wait_read_keeps wait_write_keeps)

lemma recv_round_ok:
  assumes "room b sz" and "got w = got w0" and "sent w = sent w0"
  shows "(\<exists>w'. recv_round ssl sz (b, w) = Some (Inl (b, w')) \<and> got w' = got w0 \<and> sent w' = sent w0 \<and> patience w' < patience w) \<or>
    (\<exists>x. recv_round ssl sz (b, w) = Some (Inr x) \<and> received got sent b sz w0 x)"
proof -
  obtain n bs w1 where r: "SSL_read ssl (c_int sz) w = (n, bs, w1)" by (cases "SSL_read ssl (c_int sz) w")
  note rd = read_bytes [OF r]
  show ?thesis
  proof (cases "0 < n")
    case True
    then have n: "n \<le> sz" "n = int (length bs)" "got w1 = got w0 @ bs" "sent w1 = sent w0"
      using rd assms c_int_le [of sz] by (auto simp: room_def)
    define m where "m = take (nat (seod b)) (sbuf b) @ bs @ drop (nat (seod b) + length bs) (sbuf b)"
    have m: "store_bytes (sbuf b) (seod b) bs = Some m"
      using assms(1) n by (auto simp: store_bytes_def room_def stream_ok_def m_def)
    have len: "length m = length (sbuf b)" "nat (seod b + n) = nat (seod b) + length bs" "nat (seod b) \<le> length (sbuf b)"
      using assms(1) n by (auto simp: m_def room_def stream_ok_def)
    have "received got sent b sz w0 (n, b\<lparr>sbuf := m, seod := seod b + n\<rparr>, w1)"
      using assms(1) n len True by (auto simp: received_def room_def stream_ok_def stream_data_def m_def)
    then show ?thesis using r m True by (simp add: recv_round_def)
  next
    case False
    then have k: "got w1 = got w0" "sent w1 = sent w0" "patience w1 \<le> patience w" using rd assms by auto
    show ?thesis
    proof (cases "ssl_retry ssl n w1")
      case (Inl w2)
      then show ?thesis using False r k retry_keeps(1) [OF Inl] by (simp add: recv_round_def)
    next
      case (Inr w2)
      then show ?thesis using False r k retry_keeps(2) [OF Inr] assms(1)
        by (simp add: recv_round_def received_def room_def)
    qed
  qed
qed

lemma recv_loop:
  assumes "room b sz"
  shows "run_steps fuel (recv_round ssl sz) (b, w) \<noteq> Undefined"
    and "run_steps fuel (recv_round ssl sz) (b, w) = Returned x \<Longrightarrow> received got sent b sz w x"
    and "\<exists>n x. run_steps n (recv_round ssl sz) (b, w) = Returned x"
proof -
  define I where "I s \<longleftrightarrow> fst s = b \<and> got (snd s) = got w \<and> sent (snd s) = sent w" for s
  have step: "(\<exists>s'. recv_round ssl sz s = Some (Inl s') \<and> I s' \<and> (s', s) \<in> measure (\<lambda>s. patience (snd s))) \<or>
      (\<exists>x. recv_round ssl sz s = Some (Inr x) \<and> received got sent b sz w x)" if "I s" for s
    using recv_round_ok [OF assms, of "snd s" w] that by (cases s) (fastforce simp: I_def)
  have I: "I (b, w)" by (simp add: I_def)
  note loop = run_steps_loop [of "measure (\<lambda>s. patience (snd s))" I "recv_round ssl sz" "received got sent b sz w" "(b, w)",
      OF wf_measure step I]
  show "run_steps fuel (recv_round ssl sz) (b, w) \<noteq> Undefined" by (rule loop(1))
  show "run_steps fuel (recv_round ssl sz) (b, w) = Returned x \<Longrightarrow> received got sent b sz w x" by (rule loop(2))
  show "\<exists>n x. run_steps n (recv_round ssl sz) (b, w) = Returned x" by (rule loop(3))
qed

lemma send_round_ok:
  assumes "stream_ok b" and "0 \<le> sz" and "spos b + sz \<le> seod b" and "got w = got w0" and "sent w = sent w0"
  shows "(\<exists>w'. send_round ssl sz (b, w) = Some (Inl (b, w')) \<and> got w' = got w0 \<and> sent w' = sent w0 \<and> patience w' < patience w) \<or>
    (\<exists>x. send_round ssl sz (b, w) = Some (Inr x) \<and> transmitted got sent b sz w0 x)"
proof -
  define m where "m = drop (nat (spos b)) (sbuf b)"
  have m: "mem_from (sbuf b) (spos b) = Some m" using assms(1) by (simp add: mem_from_def stream_ok_def m_def)
  obtain n w1 where r: "SSL_write ssl m (c_int sz) w = (n, w1)" by fastforce
  note wb = write_bytes [OF r]
  show ?thesis
  proof (cases "0 < n")
    case True
    then have n: "n \<le> sz" "sent w1 = sent w0 @ take (nat n) m" "got w1 = got w0"
      using wb assms c_int_le [of sz] by auto
    have "nat n \<le> nat (seod b) - nat (spos b)" using n(1) True assms(1,3) by (simp add: stream_ok_def nat_diff_distrib [symmetric])
    then have "take (nat n) m = take (nat n) (drop (nat (spos b)) (stream_data b))"
      by (simp add: m_def stream_data_def drop_take take_take min_absorb1)
    then have "transmitted got sent b sz w0 (n, b\<lparr>spos := spos b + n\<rparr>, w1)"
      using n True assms(1,3) by (auto simp: transmitted_def stream_ok_def)
    then show ?thesis using r m True by (simp add: send_round_def)
  next
    case False
    then have k: "got w1 = got w0" "sent w1 = sent w0" "patience w1 \<le> patience w" using wb assms by auto
    show ?thesis
    proof (cases "ssl_retry ssl n w1")
      case (Inl w2)
      then show ?thesis using False r m k retry_keeps(1) [OF Inl] by (simp add: send_round_def)
    next
      case (Inr w2)
      then show ?thesis using False r m k retry_keeps(2) [OF Inr] by (simp add: send_round_def transmitted_def)
    qed
  qed
qed

lemma send_loop:
  assumes "stream_ok b" and "0 \<le> sz" and "spos b + sz \<le> seod b"
  shows "run_steps fuel (send_round ssl sz) (b, w) \<noteq> Undefined"
    and "run_steps fuel (send_round ssl sz) (b, w) = Returned x \<Longrightarrow> transmitted got sent b sz w x"
    and "\<exists>n x. run_steps n (send_round ssl sz) (b, w) = Returned x"
proof -
  define I where "I s \<longleftrightarrow> fst s = b \<and> got (snd s) = got w \<and> sent (snd s) = sent w" for s
  have step: "(\<exists>s'. send_round ssl sz s = Some (Inl s') \<and> I s' \<and> (s', s) \<in> measure (\<lambda>s. patience (snd s))) \<or>
      (\<exists>x. send_round ssl sz s = Some (Inr x) \<and> transmitted got sent b sz w x)" if "I s" for s
    using send_round_ok [OF assms, of "snd s" w] that by (cases s) (fastforce simp: I_def)
  have I: "I (b, w)" by (simp add: I_def)
  note loop = run_steps_loop [of "measure (\<lambda>s. patience (snd s))" I "send_round ssl sz" "transmitted got sent b sz w" "(b, w)",
      OF wf_measure step I]
  show "run_steps fuel (send_round ssl sz) (b, w) \<noteq> Undefined" by (rule loop(1))
  show "run_steps fuel (send_round ssl sz) (b, w) = Returned x \<Longrightarrow> transmitted got sent b sz w x" by (rule loop(2))
  show "\<exists>n x. run_steps n (send_round ssl sz) (b, w) = Returned x" by (rule loop(3))
qed

text \<open>The buffer is made large enough before anything is received.\<close>

lemma recv_more_cases:
  assumes "stream_ok b" and "0 \<le> sz"
  shows "(\<forall>fuel. bytestream_ssl_recv_more fuel ssl b sz w = Returned (-1, b, w)) \<or>
    (\<exists>b'. room b' sz \<and> spos b' = spos b \<and> stream_data b' = stream_data b \<and>
      (\<forall>fuel. bytestream_ssl_recv_more fuel ssl b sz w = run_steps fuel (recv_round ssl sz) (b', w)))"
proof (cases "0 < seod b + sz - int (length (sbuf b))")
  case True
  define need where "need = (let n = seod b + sz - int (length (sbuf b)) in if n < BLOCKSZ then BLOCKSZ else n)"
  obtain r b' where g: "bytestream_grow ssl b need = (r, b')" by fastforce
  have eq: "bytestream_ssl_recv_more fuel ssl b sz w =
      (if r \<noteq> 0 then Returned (-1, b', w) else run_steps fuel (recv_round ssl sz) (b', w))" for fuel
    using True g by (simp add: bytestream_ssl_recv_more_def need_def Let_def)
  show ?thesis
  proof (cases "r = 0")
    case True
    then obtain xs a where xs: "b' = b\<lparr>sbuf := sbuf b @ xs, saddr := a\<rparr>" "need \<le> int (length xs)"
      using grow_buf [OF g] by auto
    have fields: "sbuf b' = sbuf b @ xs" "seod b' = seod b" "spos b' = spos b" using xs(1) by simp_all
    have "seod b + sz - int (length (sbuf b)) \<le> need" by (simp add: need_def Let_def)
    then have "room b' sz" using assms xs(2) fields by (simp add: room_def stream_ok_def)
    moreover have "stream_data b' = stream_data b" using fields assms(1) by (auto simp: stream_data_def stream_ok_def)
    ultimately show ?thesis using eq True fields(3) by auto
  next
    case False
    then show ?thesis using eq grow_buf [OF g] by simp
  qed
next
  case False
  then show ?thesis using assms
    by (intro disjI2 exI [of _ b]) (simp add: bytestream_ssl_recv_more_def room_def)
qed

lemma received_cong:
  "spos b' = spos b \<Longrightarrow> stream_data b' = stream_data b \<Longrightarrow> received got sent b' sz w = received got sent b sz w"
  by (simp add: received_def)

lemma recv_more_correct:
  assumes "stream_ok b" and "0 \<le> sz"
  shows "bytestream_ssl_recv_more fuel ssl b sz w \<noteq> Undefined \<and>
    (\<forall>x. bytestream_ssl_recv_more fuel ssl b sz w = Returned x \<longrightarrow> received got sent b sz w x) \<and>
    (\<exists>n x. bytestream_ssl_recv_more n ssl b sz w = Returned x)"
  using recv_more_cases [OF assms, of w]
proof (elim disjE exE conjE)
  assume "\<forall>fuel. bytestream_ssl_recv_more fuel ssl b sz w = Returned (-1, b, w)"
  then show ?thesis using assms(1) by (simp add: received_def)
next
  fix b'
  assume b': "room b' sz" "spos b' = spos b" "stream_data b' = stream_data b"
    and eq: "\<forall>fuel. bytestream_ssl_recv_more fuel ssl b sz w = run_steps fuel (recv_round ssl sz) (b', w)"
  show ?thesis
    unfolding received_cong [OF b'(2,3), of sz w, symmetric]
    using recv_loop(1) [OF b'(1)] recv_loop(2) [OF b'(1)] recv_loop(3) [OF b'(1)] eq by simp
qed

lemma send_correct:
  assumes "stream_ok b" and "0 \<le> sz"
  shows "(seod b < spos b + sz \<longrightarrow> bytestream_ssl_send fuel ssl b sz w = Returned (-1, b, w)) \<and>
    bytestream_ssl_send fuel ssl b sz w \<noteq> Undefined \<and>
    (\<forall>x. bytestream_ssl_send fuel ssl b sz w = Returned x \<longrightarrow> transmitted got sent b sz w x) \<and>
    (\<exists>n x. bytestream_ssl_send n ssl b sz w = Returned x)"
proof (cases "seod b < spos b + sz")
  case True
  then show ?thesis by (simp add: bytestream_ssl_send_def transmitted_def)
next
  case False
  then have "spos b + sz \<le> seod b" by simp
  note loop = send_loop [OF assms this]
  show ?thesis using False loop(1) loop(2) loop(3) by (simp add: bytestream_ssl_send_def)
qed

end

section \<open>A connection of lists\<close>

text \<open>
  A connection that plays a script: \<open>None\<close> makes its user wait for reading once, \<open>Some bs\<close> delivers at most those bytes;
  at the end of the script it fails. It takes everything that is written.
\<close>

record script_conn =
  conn_got :: string
  conn_sent :: string
  conn_script :: "string option list"

definition script_ssl :: "script_conn ssl_env" where
  "script_ssl = \<lparr>
     bytestream_grow = (\<lambda>b n. (0, b\<lparr>sbuf := sbuf b @ replicate (nat n) NUL\<rparr>)),
     SSL_read = (\<lambda>num w. case conn_script w of
         Some bs # rest \<Rightarrow> (let t = take (nat num) bs in
           (int (length t), t, w\<lparr>conn_got := conn_got w @ t, conn_script := rest\<rparr>))
       | _ \<Rightarrow> (-1, [], w)),
     SSL_write = (\<lambda>m num w. if 0 < num \<and> num \<le> int (length m) then (num, w\<lparr>conn_sent := conn_sent w @ take (nat num) m\<rparr>) else (-1, w)),
     SSL_get_error = (\<lambda>n w. case conn_script w of None # _ \<Rightarrow> SSL_ERROR_WANT_READ | _ \<Rightarrow> 1),
     mnthr_wait_for_read = (\<lambda>w. case conn_script w of None # rest \<Rightarrow> (0, w\<lparr>conn_script := rest\<rparr>) | _ \<Rightarrow> (-1, w)),
     mnthr_wait_for_write = (\<lambda>w. (-1, w))\<rparr>"

interpretation script_conn: ssl_law script_ssl conn_got conn_sent "\<lambda>w. length (conn_script w)"
proof
  fix b n r b'
  assume "bytestream_grow script_ssl b n = (r, b')"
  then have "r = 0" "b' = b\<lparr>sbuf := sbuf b @ replicate (nat n) NUL, saddr := saddr b\<rparr>" by (auto simp: script_ssl_def)
  then show "if r = 0 then \<exists>xs a. b' = b\<lparr>sbuf := sbuf b @ xs, saddr := a\<rparr> \<and> n \<le> int (length xs) else b' = b"
    by (metis int_nat_eq length_replicate linorder_linear nle_le order_refl)
qed (auto simp: script_ssl_def Let_def split: list.split_asm option.split_asm if_split_asm)

section \<open>Claims\<close>

text \<open>
  C22. Receiving into a stream whose end of data is inside its buffer never stores outside the buffer, whatever the
  size asked for, and returns once the connection stops making it wait. The result is either -1 and the stream's
  data are unchanged, or the number of new bytes, at most the size asked for, and they stand behind the old
  data exactly as the connection delivered them.
\<close>

theorem ssl_recv_correct:
  assumes "ssl_law ssl got sent patience" and "stream_ok b" and "0 \<le> sz"
  shows "(\<forall>n. bytestream_ssl_recv_more n ssl b sz w \<noteq> Undefined) \<and>
    (\<exists>n x. bytestream_ssl_recv_more n ssl b sz w = Returned x) \<and>
    (\<forall>n x. bytestream_ssl_recv_more n ssl b sz w = Returned x \<longrightarrow> received got sent b sz w x)"
  using ssl_law.recv_more_correct [OF assms] by blast

theorem ssl_recv_correct_witness:
  "\<exists>n x. bytestream_ssl_recv_more n script_ssl \<lparr>sbuf = ''ab......'', saddr = 0, seod = 2, spos = 1\<rparr> 4
       \<lparr>conn_got = [], conn_sent = [], conn_script = [None, Some ''cd'']\<rparr> = Returned x \<and>
     received conn_got conn_sent \<lparr>sbuf = ''ab......'', saddr = 0, seod = 2, spos = 1\<rparr> 4
       \<lparr>conn_got = [], conn_sent = [], conn_script = [None, Some ''cd'']\<rparr> x \<and> fst x = 2"
proof -
  let ?b = "\<lparr>sbuf = ''ab......'', saddr = 0, seod = 2, spos = 1\<rparr>"
    and ?w = "\<lparr>conn_got = [], conn_sent = [], conn_script = [None, Some ''cd'']\<rparr>"
  have ok: "stream_ok ?b" "0 \<le> (4 :: int)" by (simp_all add: stream_ok_def)
  have "case bytestream_ssl_recv_more 2 script_ssl ?b 4 ?w of Returned x \<Rightarrow> fst x = 2 | _ \<Rightarrow> False" by code_simp
  then have "\<exists>x. bytestream_ssl_recv_more 2 script_ssl ?b 4 ?w = Returned x \<and> fst x = 2"
    by (cases "bytestream_ssl_recv_more 2 script_ssl ?b 4 ?w") auto
  then show ?thesis using ssl_recv_correct [OF script_conn.ssl_law_axioms ok] by blast
qed

text \<open>
  Unless partial writes are enabled (nothing in the program enables them), \<open>SSL_write\<close> succeeds only when it has written
  all the bytes it was given.
\<close>

definition whole_writes :: "'w ssl_env \<Rightarrow> bool" where
  "whole_writes ssl \<longleftrightarrow> (\<forall>m num w n w'. SSL_write ssl m num w = (n, w') \<longrightarrow> 0 < n \<longrightarrow> n = num)"

lemma send_result:
  assumes "bytestream_ssl_send fuel ssl b sz w = Returned x" and "whole_writes ssl"
  shows "fst x = -1 \<or> fst x = c_int sz"
proof (cases "seod b < spos b + sz")
  case False
  have "run_steps fuel (send_round ssl sz) (b, w) = Returned x" using assms(1) False by (simp add: bytestream_ssl_send_def)
  then show ?thesis
  proof (rule run_steps_keeps [of "\<lambda>_. True" _ "\<lambda>x. fst x = -1 \<or> fst x = c_int sz", rotated 2])
    have "n = c_int sz" if "SSL_write ssl m (c_int sz) w = (n, w')" "0 < n" for m w n w'
      using assms(2) that unfolding whole_writes_def by blast
    then show "(\<exists>s'. r = Inl s' \<and> True) \<or> (\<exists>x. r = Inr x \<and> (fst x = -1 \<or> fst x = c_int sz))" if "send_round ssl sz s = Some r" for s r
      using that
      by (auto simp: send_round_def split: prod.split_asm Option.bind_split_asm if_split_asm sum.split_asm)
  qed simp
qed (use assms(1) in \<open>auto simp: bytestream_ssl_send_def\<close>)

text \<open>
  C23. Sending from a well formed stream never reads outside its buffer and returns once the connection stops making it
  wait. When fewer bytes than asked for are left it gives -1 and sends nothing; otherwise the result is -1 and
  nothing changes, or the number of bytes sent, which are the next ones of the stream's data, and
  the position moves on by that number and stays within the data. On success that number is the size asked for when partial writes
  are not enabled and the size fits the \<open>int\<close> that \<open>SSL_write\<close> takes.
\<close>

theorem ssl_send_correct:
  assumes "ssl_law ssl got sent patience" and "stream_ok b" and "0 \<le> sz"
  shows "(seod b < spos b + sz \<longrightarrow> (\<forall>n. bytestream_ssl_send n ssl b sz w = Returned (-1, b, w))) \<and>
    (\<forall>n. bytestream_ssl_send n ssl b sz w \<noteq> Undefined) \<and>
    (\<exists>n x. bytestream_ssl_send n ssl b sz w = Returned x) \<and>
    (\<forall>n x. bytestream_ssl_send n ssl b sz w = Returned x \<longrightarrow>
      transmitted got sent b sz w x \<and> (whole_writes ssl \<and> sz < 2 ^ 31 \<and> fst x \<noteq> -1 \<longrightarrow> fst x = sz))"
proof -
  have "fst x = sz" if "whole_writes ssl" "sz < 2 ^ 31" "fst x \<noteq> -1" "bytestream_ssl_send n ssl b sz w = Returned x" for n x
    using send_result [OF that(4,1)] that(2,3) assms(3) by (simp add: c_int_id int_ok_def)
  then show ?thesis using ssl_law.send_correct [OF assms] by blast
qed

theorem ssl_send_correct_witness:
  "\<exists>x. bytestream_ssl_send 1 script_ssl \<lparr>sbuf = ''abc'', saddr = 0, seod = 3, spos = 1\<rparr> 2
       \<lparr>conn_got = [], conn_sent = ''x'', conn_script = []\<rparr> = Returned x \<and>
     transmitted conn_got conn_sent \<lparr>sbuf = ''abc'', saddr = 0, seod = 3, spos = 1\<rparr> 2
       \<lparr>conn_got = [], conn_sent = ''x'', conn_script = []\<rparr> x \<and> conn_sent (snd (snd x)) = ''xbc'' \<and> fst x = 2"
proof -
  let ?b = "\<lparr>sbuf = ''abc'', saddr = 0, seod = 3, spos = 1\<rparr>" and ?w = "\<lparr>conn_got = [], conn_sent = ''x'', conn_script = []\<rparr>"
  have ok: "stream_ok ?b" "0 \<le> (2 :: int)" by (simp_all add: stream_ok_def)
  have w: "whole_writes script_ssl" "(2 :: int) < 2 ^ 31" by (simp_all add: whole_writes_def script_ssl_def)
  obtain x where "bytestream_ssl_send 1 script_ssl ?b 2 ?w = Returned x" "conn_sent (snd (snd x)) = ''xbc''" "fst x \<noteq> -1"
    by (simp add: bytestream_ssl_send_def send_round_def script_ssl_def c_int_def mem_from_def)
  then show ?thesis using ssl_send_correct [OF script_conn.ssl_law_axioms ok] w by blast
qed

end
