(* ===== verification/Daemonize.thy ===== *)
theory Daemonize
  imports CLib
begin

text \<open>
  src/src/daemonize.c: turning the process into a daemon. The process is a record with its descriptor table (which file
  each open descriptor refers to); the results of the system calls are given by the record \<open>dm_env\<close>. The model
  follows the process that goes on, the child, through each \<open>fork\<close>. A failed \<open>assert\<close> is undefined (\<open>None\<close>).
\<close>

section \<open>The process\<close>

record process =
  pid :: int
  session_leader :: bool
  file_mask :: int
  fdtab :: "string option list"
  cwd :: string
  contents :: "string \<Rightarrow> string"

datatype daemon = Daemon process | Exit int | Failed string

definition fd_get :: "string option list \<Rightarrow> nat \<Rightarrow> string option" where
  "fd_get t i = (if i < length t then t ! i else None)"

definition fd_set :: "string option list \<Rightarrow> nat \<Rightarrow> string option \<Rightarrow> string option list" where
  "fd_set t i f = (t @ replicate (Suc i - length t) None)[i := f]"

text \<open>\<open>open\<close> takes the lowest free descriptor.\<close>

fun free_fd :: "string option list \<Rightarrow> nat" where
  "free_fd [] = 0"
| "free_fd (None # t) = 0"
| "free_fd (Some f # t) = Suc (free_fd t)"

text \<open>
  What the system answers: the child's identifier for each \<open>fork\<close>, whether \<open>setsid\<close> succeeds, the limit on
  descriptors (\<open>None\<close>: \<open>getrlimit\<close> fails, \<open>Some None\<close>: no limit), whether a file can be opened, and whether locking,
  seeking, writing, \<open>fsync\<close> and \<open>chdir\<close> succeed. \<open>o_exlock\<close>: the system has \<open>O_EXLOCK\<close>.
\<close>

record dm_env =
  dm_fork :: "process \<Rightarrow> int option"
  dm_setsid :: bool
  dm_rlimit :: "int option option"
  dm_open :: "string \<Rightarrow> bool"
  o_exlock :: bool
  dm_flock :: bool
  dm_lseek :: bool
  dm_write :: bool
  dm_fsync :: bool
  dm_chdir :: bool

definition sys_open :: "dm_env \<Rightarrow> string \<Rightarrow> process \<Rightarrow> int \<times> process" where
  "sys_open e f p =
     (if dm_open e f then (int (free_fd (fdtab p)), p\<lparr>fdtab := fd_set (fdtab p) (free_fd (fdtab p)) (Some f)\<rparr>)
      else (-1, p))"

text \<open>\<open>dup2\<close> of an open descriptor; of a closed one it fails and changes nothing.\<close>

definition sys_dup2 :: "nat \<Rightarrow> nat \<Rightarrow> process \<Rightarrow> process" where
  "sys_dup2 a b p = (case fd_get (fdtab p) a of None \<Rightarrow> p | f \<Rightarrow> p\<lparr>fdtab := fd_set (fdtab p) b f\<rparr>)"

section \<open>The code\<close>

definition myfork :: "dm_env \<Rightarrow> process \<Rightarrow> process option" where
  "myfork e p = map_option (\<lambda>c. p\<lparr>pid := c, session_leader := False\<rparr>) (dm_fork e p)"

definition nfiles :: "dm_env \<Rightarrow> int" where
  "nfiles e = (case dm_rlimit e of None \<Rightarrow> 1024 | Some None \<Rightarrow> 1024 | Some (Some n) \<Rightarrow> c_int n)"

text \<open>\<open>for (i = 0; i < n; ++i) close(i)\<close>.\<close>

fun close_upto :: "nat \<Rightarrow> string option list \<Rightarrow> string option list" where
  "close_upto 0 t = t"
| "close_upto (Suc n) t = (let t' = close_upto n t in if n < length t' then t'[n := None] else t')"

definition open_std :: "dm_env \<Rightarrow> nat \<Rightarrow> string \<Rightarrow> process \<Rightarrow> process option" where
  "open_std e k f p = (case sys_open e f p of (fd, p1) \<Rightarrow> if fd = int k then Some p1 else None)"

definition std_files :: "dm_env \<Rightarrow> string option \<Rightarrow> string option \<Rightarrow> process \<Rightarrow> process option" where
  "std_files e stdoutfile stderrfile p = do {
     p0 \<leftarrow> open_std e 0 ''/dev/null'' p;
     let fout = (case stdoutfile of None \<Rightarrow> ''/dev/null'' | Some f \<Rightarrow> f);
     let ferr = (case stderrfile of None \<Rightarrow> ''/dev/null'' | Some f \<Rightarrow> f);
     p1 \<leftarrow> (if fout = ''/dev/null'' then Some (sys_dup2 0 1 p0) else open_std e 1 fout p0);
     if ferr = fout then Some (sys_dup2 1 2 p1) else open_std e 2 ferr p1
   }"

definition write_pidfile :: "dm_env \<Rightarrow> string \<Rightarrow> process \<Rightarrow> daemon" where
  "write_pidfile e f p =
     (case sys_open e f p of (fd, p1) \<Rightarrow>
        if fd < 0 then Exit 1
        else if \<not> o_exlock e \<and> \<not> dm_flock e then Exit 1
        else if \<not> o_exlock e \<and> \<not> dm_lseek e then Exit 1
        else
          let old = (if o_exlock e then [] else contents p1 f);
              buf = take 31 (show_int (pid p1));
              p2 = p1\<lparr>contents := (contents p1)(f := old @ buf)\<rparr>
          in if \<not> dm_write e then Failed ''write''
             else if \<not> dm_fsync e then Failed ''fsync''
             else if \<not> dm_chdir e then Failed ''chdir''
             else Daemon (p2\<lparr>cwd := ''/''\<rparr>))"

definition daemonize :: "dm_env \<Rightarrow> string option \<Rightarrow> string option \<Rightarrow> string option \<Rightarrow> process \<Rightarrow> daemon option" where
  "daemonize e pidfile stdoutfile stderrfile p =
     (case myfork e p of
        None \<Rightarrow> Some (Failed ''fork'')
      | Some p1 \<Rightarrow>
          let old_umask = file_mask p1; p2 = p1\<lparr>file_mask := 0\<rparr> in
          if \<not> dm_setsid e then Some (Failed ''setsid'')
          else case myfork e (p2\<lparr>session_leader := True\<rparr>) of
            None \<Rightarrow> Some (Failed ''fork'')
          | Some p3 \<Rightarrow> do {
              p4 \<leftarrow> std_files e stdoutfile stderrfile (p3\<lparr>fdtab := close_upto (nat (nfiles e)) (fdtab p3)\<rparr>);
              let p5 = p4\<lparr>file_mask := old_umask\<rparr>;
              Some (case pidfile of None \<Rightarrow> Daemon p5 | Some f \<Rightarrow> write_pidfile e f p5)
            })"

section \<open>Descriptor tables\<close>

lemma fd_get_set [simp]: "fd_get (fd_set t i f) j = (if j = i then f else fd_get t j)"
  by (auto simp: fd_get_def fd_set_def nth_append)

lemma fd_get_simps [simp]: "fd_get [] i = None" "fd_get (f # t) 0 = f" "fd_get (f # t) (Suc i) = fd_get t i"
  by (simp_all add: fd_get_def)

lemma free_fd_least: "fd_get t (free_fd t) = None \<and> (\<forall>j < free_fd t. fd_get t j \<noteq> None)"
proof (induction t rule: free_fd.induct)
  case (3 f t)
  have "fd_get (Some f # t) j \<noteq> None" if "j < free_fd (Some f # t)" for j
    using that 3 by (cases j) simp_all
  then show ?case using 3 by simp
qed simp_all

lemma free_fd_eqI: "fd_get t k = None \<Longrightarrow> (\<And>j. j < k \<Longrightarrow> fd_get t j \<noteq> None) \<Longrightarrow> free_fd t = k"
  using free_fd_least [of t] by (metis nat_neq_iff)

lemma close_upto_length [simp]: "length (close_upto n t) = length t"
  by (induction n) (simp_all add: Let_def)

lemma fd_get_close: "fd_get (close_upto n t) i = (if i < n then None else fd_get t i)"
  by (induction n) (auto simp: Let_def fd_get_def nth_list_update less_Suc_eq)

lemma open_std_ok:
  assumes "dm_open e f" and "fd_get (fdtab p) k = None" and "\<And>j. j < k \<Longrightarrow> fd_get (fdtab p) j \<noteq> None"
  shows "open_std e k f p = Some (p\<lparr>fdtab := fd_set (fdtab p) k (Some f)\<rparr>)"
  using assms free_fd_eqI [OF assms(2,3)] by (simp add: open_std_def sys_open_def)

lemma dup2_ok: "fd_get (fdtab p) a = Some f \<Longrightarrow> sys_dup2 a b p = p\<lparr>fdtab := fd_set (fdtab p) b (Some f)\<rparr>"
  by (simp add: sys_dup2_def)

text \<open>With all descriptors closed, the three standard ones are opened as 0, 1 and 2.\<close>

lemma std_files_ok:
  assumes "dm_open e ''/dev/null''" and "pred_option (dm_open e) out" and "pred_option (dm_open e) err"
    and "\<And>i. fd_get (fdtab p) i = None"
  shows "\<exists>t. std_files e out err p = Some (p\<lparr>fdtab := t\<rparr>) \<and>
    (\<forall>i. fd_get t i = (if i = 0 then Some ''/dev/null'' else if i = 1 then Some (case out of None \<Rightarrow> ''/dev/null'' | Some f \<Rightarrow> f)
       else if i = 2 then Some (case err of None \<Rightarrow> ''/dev/null'' | Some f \<Rightarrow> f) else None))"
proof -
  define fo where "fo = (case out of None \<Rightarrow> ''/dev/null'' | Some f \<Rightarrow> f)"
  define fe where "fe = (case err of None \<Rightarrow> ''/dev/null'' | Some f \<Rightarrow> f)"
  have ok: "dm_open e fo" "dm_open e fe" using assms(1-3) by (auto simp: fo_def fe_def split: option.split)
  let ?t0 = "fd_set (fdtab p) 0 (Some ''/dev/null'')" and ?p0 = "p\<lparr>fdtab := fd_set (fdtab p) 0 (Some ''/dev/null'')\<rparr>"
  have 0: "open_std e 0 ''/dev/null'' p = Some ?p0" using assms(1,4) by (intro open_std_ok) simp_all
  let ?p1 = "p\<lparr>fdtab := fd_set ?t0 1 (Some fo)\<rparr>"
  have 1: "(if fo = ''/dev/null'' then Some (sys_dup2 0 1 ?p0) else open_std e 1 fo ?p0) = Some ?p1"
    using open_std_ok [of e fo ?p0 1] ok(1) assms(4) by (simp add: dup2_ok)
  have 2: "(if fe = fo then Some (sys_dup2 1 2 ?p1) else open_std e 2 fe ?p1) =
      Some (p\<lparr>fdtab := fd_set (fd_set ?t0 1 (Some fo)) 2 (Some fe)\<rparr>)"
  proof (cases "fe = fo")
    case False
    have "fd_get (fdtab ?p1) j \<noteq> None" if "j < 2" for j using that by (cases j) simp_all
    moreover have "fd_get (fdtab ?p1) 2 = None" using assms(4) by simp
    ultimately have "open_std e 2 fe ?p1 = Some (?p1\<lparr>fdtab := fd_set (fdtab ?p1) 2 (Some fe)\<rparr>)"
      using open_std_ok [OF ok(2)] by blast
    then show ?thesis using False by simp
  qed (simp add: dup2_ok)
  have "std_files e out err p = Some (p\<lparr>fdtab := fd_set (fd_set ?t0 1 (Some fo)) 2 (Some fe)\<rparr>)"
    unfolding std_files_def Let_def fo_def [symmetric] fe_def [symmetric] by (simp only: 0 1 2 Option.bind.simps)
  then show ?thesis
    unfolding fo_def [symmetric] fe_def [symmetric]
    by (intro exI [of _ "fd_set (fd_set ?t0 1 (Some fo)) 2 (Some fe)"])
      (simp add: assms(4))
qed

lemma write_pidfile_ok:
  assumes "dm_open e f" and "free_fd (fdtab p) = k" and "dm_flock e" "dm_lseek e" "dm_write e" "dm_fsync e" "dm_chdir e"
  shows "write_pidfile e f p = Daemon (p\<lparr>fdtab := fd_set (fdtab p) k (Some f),
    contents := (contents p)(f := (if o_exlock e then [] else contents p f) @ take 31 (show_int (pid p))), cwd := ''/''\<rparr>)"
  using assms by (simp add: write_pidfile_def sys_open_def Let_def)

text \<open>The calls that do not depend on the files given.\<close>

definition calls_ok :: "dm_env \<Rightarrow> bool" where
  "calls_ok e \<longleftrightarrow> dm_setsid e \<and> dm_flock e \<and> dm_lseek e \<and> dm_write e \<and> dm_fsync e \<and> dm_chdir e \<and> dm_open e ''/dev/null''"

text \<open>
  C28. When the system calls succeed and no descriptor beyond the limit is open, the process that goes on is a grandchild
  that does not lead its session and has its old file mode mask. Descriptor 0 is the null device, 1 and 2 are the
  files asked for or the null device, and everything else that was open is closed; with a pid file, 3 is that file, the
  directory is the root, and the process's number has been appended to what the file held (the file is
  emptied first only where \<open>O_EXLOCK\<close> exists); without one the directory is the old one.
\<close>

theorem daemonize_process:
  assumes "calls_ok e" and "\<And>q. dm_fork e q = Some (child (pid q))" and "pred_option (dm_open e) out" "pred_option (dm_open e) err"
    and "pred_option (dm_open e) pidf" and "int (length (fdtab p)) \<le> nfiles e"
  shows "\<exists>q. daemonize e pidf out err p = Some (Daemon q) \<and> pid q = child (child (pid p)) \<and> \<not> session_leader q \<and> file_mask q = file_mask p \<and>
    (\<forall>i. fd_get (fdtab q) i = (if i = 0 then Some ''/dev/null''
       else if i = 1 then Some (case out of None \<Rightarrow> ''/dev/null'' | Some f \<Rightarrow> f)
       else if i = 2 then Some (case err of None \<Rightarrow> ''/dev/null'' | Some f \<Rightarrow> f) else if i = 3 then pidf else None)) \<and>
    (case pidf of None \<Rightarrow> cwd q = cwd p \<and> contents q = contents p
     | Some f \<Rightarrow> cwd q = ''/'' \<and>
         contents q f = (if o_exlock e then [] else contents p f) @ take 31 (show_int (child (child (pid p)))))"
proof -
  define t0 where "t0 = close_upto (nat (nfiles e)) (fdtab p)"
  define p3 where "p3 = p\<lparr>file_mask := 0, pid := child (child (pid p)), session_leader := False, fdtab := t0\<rparr>"
  have "fd_get (fdtab p3) i = None" for i
  proof -
    have "i < nat (nfiles e) \<or> fd_get (fdtab p) i = None" using assms(6) by (cases "i < length (fdtab p)") (auto simp: fd_get_def)
    then show ?thesis by (auto simp: p3_def t0_def fd_get_close)
  qed
  then obtain t where t: "std_files e out err p3 = Some (p3\<lparr>fdtab := t\<rparr>)"
      "\<forall>i. fd_get t i = (if i = 0 then Some ''/dev/null'' else if i = 1 then Some (case out of None \<Rightarrow> ''/dev/null'' | Some f \<Rightarrow> f)
       else if i = 2 then Some (case err of None \<Rightarrow> ''/dev/null'' | Some f \<Rightarrow> f) else None)"
    using std_files_ok [of e out err p3] assms(1,3,4) by (auto simp: calls_ok_def)
  define p5 where "p5 = p3\<lparr>fdtab := t, file_mask := file_mask p\<rparr>"
  have d: "daemonize e pidf out err p = Some (case pidf of None \<Rightarrow> Daemon p5 | Some f \<Rightarrow> write_pidfile e f p5)"
    using assms(1,2) t(1) by (cases pidf) (simp_all add: daemonize_def myfork_def Let_def calls_ok_def p3_def p5_def t0_def)
  have three: "free_fd t = 3" by (rule free_fd_eqI) (auto simp: t(2))
  show ?thesis
  proof (cases pidf)
    case None
    then show ?thesis using d t(2) by (simp add: p5_def p3_def)
  next
    case (Some f)
    then have "write_pidfile e f p5 = Daemon (p5\<lparr>fdtab := fd_set t 3 (Some f),
        contents := (contents p5)(f := (if o_exlock e then [] else contents p5 f) @ take 31 (show_int (pid p5))), cwd := ''/''\<rparr>)"
      using write_pidfile_ok [of e f p5 3] assms(1,5) three by (simp add: calls_ok_def p5_def)
    then show ?thesis using d t(2) Some by (simp add: p5_def p3_def)
  qed
qed

definition plain_system :: dm_env where
  "plain_system = \<lparr>dm_fork = (\<lambda>q. Some (pid q + 1)), dm_setsid = True, dm_rlimit = Some None, dm_open = (\<lambda>f. True),
     o_exlock = False, dm_flock = True, dm_lseek = True, dm_write = True, dm_fsync = True, dm_chdir = True\<rparr>"

theorem daemonize_process_witness:
  "\<exists>q. daemonize plain_system (Some ''/run/d.pid'') None None
      \<lparr>pid = 40, session_leader = True, file_mask = 18, fdtab = [Some ''tty''], cwd = ''/home'', contents = (\<lambda>f. ''41'')\<rparr> =
        Some (Daemon q) \<and> contents q ''/run/d.pid'' = ''4142''"
proof -
  let ?p = "\<lparr>pid = 40, session_leader = True, file_mask = 18, fdtab = [Some ''tty''], cwd = ''/home'', contents = (\<lambda>f. ''41'')\<rparr>"
  have h: "calls_ok plain_system" "\<And>q. dm_fork plain_system q = Some (pid q + 1)" "pred_option (dm_open plain_system) None"
      "pred_option (dm_open plain_system) (Some ''/run/d.pid'')" "int (length (fdtab ?p)) \<le> nfiles plain_system"
    by (simp_all add: calls_ok_def plain_system_def nfiles_def)
  have n: "take 31 (show_int (pid ?p + 1 + 1)) = ''42''" by code_simp
  show ?thesis
    using daemonize_process [OF h(1,2,3,3,4,5)] n by (auto simp: plain_system_def)
qed

end
