(* ===== verification/HttpcRequest.thy ===== *)
theory HttpcRequest
  imports HttpMessage HttpUri HttpWrite
begin

text \<open>
  Requests of the HTTP client, src/src/mnhttpc.c: the messages, their header hashes, the functions that add and look up
  fields, and the callbacks that fill a request in from the response. The hash of \<open>mncommon\<close> is a parameter: \<open>hash_env\<close>
  with \<open>hget\<close> for \<open>hash_get_item\<close>; \<open>lower\<close> is \<open>bytes_set_lower\<close>. Reference counts are left out.
\<close>

section \<open>Data\<close>

text \<open>The union \<open>mnhttpc_message_t\<close>: a request uses \<open>out\<close>, a response \<open>in\<close>. The one bit \<open>keepalive\<close> flags hold -1.\<close>

record ('b, 'h) message_out =
  o_method :: "string option"
  o_uri :: "('b, 'h) mnhttp_uri"
  o_headers :: 'h
  o_content_type :: "'b option"
  o_content_length :: nat
  o_keepalive :: int

record ('b, 'h) message_in =
  i_ctx :: mnhttp_ctx
  i_content_type :: "'b option"
  i_headers :: 'h
  i_keepalive :: int

text \<open>
  The connection is an index into the client's table. What the user's callbacks work on is \<open>r_user\<close>: the body
  callback of the request writes to the output stream, that of the response reads the input stream.
\<close>

record ('b, 'h, 'o, 'u) mnhttpc_request =
  connection :: "nat option"
  out_body_cb :: "('o \<Rightarrow> 'u \<Rightarrow> int \<times> 'o \<times> 'u) option"
  in_body_cb :: "'u mnhttp_cb option"
  request :: "('b, 'h) message_out"
  response :: "('b, 'h) message_in"
  r_user :: 'u

section \<open>Making and freeing\<close>

definition mnhttpc_message_init_out :: "('b, 'h) hash_env \<Rightarrow> ('b, 'h) message_out" where
  "mnhttpc_message_init_out he = \<lparr>o_method = None, o_uri = mnhttp_uri_init he, o_headers = hash_init he,
     o_content_type = None, o_content_length = 0, o_keepalive = -1\<rparr>"

definition mnhttpc_message_fini_out :: "('b, 'h) hash_env \<Rightarrow> ('b, 'h) message_out \<Rightarrow> ('b, 'h) message_out" where
  "mnhttpc_message_fini_out he msg = \<lparr>o_method = None, o_uri = mnhttp_uri_fini he (o_uri msg), o_headers = hash_init he,
     o_content_type = None, o_content_length = 0, o_keepalive = -1\<rparr>"

definition mnhttpc_message_init_in :: "('b, 'h) hash_env \<Rightarrow> ('b, 'h) message_in" where
  "mnhttpc_message_init_in he = \<lparr>i_ctx = http_ctx_init, i_content_type = None, i_headers = hash_init he, i_keepalive = -1\<rparr>"

definition mnhttpc_message_fini_in :: "('b, 'h) hash_env \<Rightarrow> ('b, 'h) message_in \<Rightarrow> ('b, 'h) message_in" where
  "mnhttpc_message_fini_in he msg = \<lparr>i_ctx = snd (http_ctx_fini (i_ctx msg)), i_content_type = None, i_headers = hash_init he,
     i_keepalive = -1\<rparr>"

definition mnhttpc_request_init :: "('b, 'h) hash_env \<Rightarrow> 'u \<Rightarrow> ('b, 'h, 'o, 'u) mnhttpc_request" where
  "mnhttpc_request_init he u = \<lparr>connection = None, out_body_cb = None, in_body_cb = None,
     request = mnhttpc_message_init_out he, response = mnhttpc_message_init_in he, r_user = u\<rparr>"

text \<open>A failed \<open>malloc\<close> ends the program.\<close>

definition mnhttpc_request_new :: "bool \<Rightarrow> ('b, 'h) hash_env \<Rightarrow> 'u \<Rightarrow> ('b, 'h, 'o, 'u) mnhttpc_request option" where
  "mnhttpc_request_new malloc_ok he u = (if malloc_ok then Some (mnhttpc_request_init he u) else None)"

definition mnhttpc_request_fini ::
  "('b, 'h) hash_env \<Rightarrow> ('b, 'h, 'o, 'u) mnhttpc_request \<Rightarrow> ('b, 'h, 'o, 'u) mnhttpc_request" where
  "mnhttpc_request_fini he req = req\<lparr>request := mnhttpc_message_fini_out he (request req),
     response := mnhttpc_message_fini_in he (response req), connection := None, out_body_cb := None, in_body_cb := None\<rparr>"

text \<open>The pointer afterwards; what it pointed to has been finished and freed.\<close>

definition mnhttpc_request_destroy :: "('b, 'h, 'o, 'u) mnhttpc_request option \<Rightarrow> ('b, 'h, 'o, 'u) mnhttpc_request option" where
  "mnhttpc_request_destroy req = None"

section \<open>Header fields\<close>

abbreviation set_out_headers :: "'h \<Rightarrow> ('b, 'h, 'o, 'u) mnhttpc_request \<Rightarrow> ('b, 'h, 'o, 'u) mnhttpc_request" where
  "set_out_headers h req \<equiv> req\<lparr>request := (request req)\<lparr>o_headers := h\<rparr>\<rparr>"

abbreviation set_in_headers :: "'h \<Rightarrow> ('b, 'h, 'o, 'u) mnhttpc_request \<Rightarrow> ('b, 'h, 'o, 'u) mnhttpc_request" where
  "set_in_headers h req \<equiv> req\<lparr>response := (response req)\<lparr>i_headers := h\<rparr>\<rparr>"

text \<open>The names are asserted not to be \<open>NULL\<close>; the result is 0.\<close>

definition mnhttpc_request_out_field_addb ::
  "('b, 'h) hash_env \<Rightarrow> ('b, 'h, 'o, 'u) mnhttpc_request \<Rightarrow> 'b option \<Rightarrow> 'b option \<Rightarrow>
   (int \<times> ('b, 'h, 'o, 'u) mnhttpc_request) option" where
  "mnhttpc_request_out_field_addb he req name val = do {
     n \<leftarrow> name;
     v \<leftarrow> val;
     Some (0, set_out_headers (hash_set_item he (o_headers (request req)) n v) req)
   }"

definition mnhttpc_request_out_field_addt ::
  "'b bytes_env \<Rightarrow> ('b, 'h) hash_env \<Rightarrow> ('b, 'h, 'o, 'u) mnhttpc_request \<Rightarrow> 'b option \<Rightarrow> int \<Rightarrow>
   (int \<times> ('b, 'h, 'o, 'u) mnhttpc_request) option" where
  "mnhttpc_request_out_field_addt be he req name t = do {
     n \<leftarrow> name;
     tv \<leftarrow> gmtime t;
     buf \<leftarrow> strftime 64 ''%a, %d %b %Y %H:%M:%S GMT'' tv;
     let v = bytes_new_from_str_len be buf (length buf);
     Some (0, set_out_headers (hash_set_item he (o_headers (request req)) n v) req)
   }"

text \<open>\<open>v\<close> is what \<open>bytes_vprintf\<close> makes of the format and its arguments.\<close>

definition mnhttpc_request_out_field_addf ::
  "('b, 'h) hash_env \<Rightarrow> ('b, 'h, 'o, 'u) mnhttpc_request \<Rightarrow> 'b option \<Rightarrow> 'b \<Rightarrow>
   (int \<times> ('b, 'h, 'o, 'u) mnhttpc_request) option" where
  "mnhttpc_request_out_field_addf he req name v = do {
     n \<leftarrow> name;
     Some (0, set_out_headers (hash_set_item he (o_headers (request req)) n v) req)
   }"

definition mnhttpc_request_out_header ::
  "('h \<Rightarrow> 'b \<Rightarrow> 'b option) \<Rightarrow> ('b, 'h, 'o, 'u) mnhttpc_request \<Rightarrow> 'b \<Rightarrow> 'b option" where
  "mnhttpc_request_out_header hget req name = hget (o_headers (request req)) name"

definition mnhttpc_request_in_header ::
  "('h \<Rightarrow> 'b \<Rightarrow> 'b option) \<Rightarrow> ('b, 'h, 'o, 'u) mnhttpc_request \<Rightarrow> 'b \<Rightarrow> 'b option" where
  "mnhttpc_request_in_header hget req name = hget (i_headers (response req)) name"

definition mnhttpc_request_out_qterm_addb ::
  "'b bytes_env \<Rightarrow> ('b, 'h) hash_env \<Rightarrow> ('b, 'h, 'o, 'u) mnhttpc_request \<Rightarrow> 'b option \<Rightarrow> 'b option \<Rightarrow>
   ('b, 'h, 'o, 'u) mnhttpc_request option" where
  "mnhttpc_request_out_qterm_addb be he req name val = do {
     uri \<leftarrow> mnhttp_uri_add_qterm be he (o_uri (request req)) name val;
     Some (req\<lparr>request := (request req)\<lparr>o_uri := uri\<rparr>\<rparr>)
   }"

section \<open>The response callbacks\<close>

text \<open>
  The \<open>udata\<close> pointer of the response callbacks: a request, \<open>NULL\<close>, or \<open>Undef\<close> after a callback has followed a \<open>NULL\<close>
  or has read outside the buffer.
\<close>

datatype 'r udata = Req 'r | Null | Undef

definition mnhttpc_response_line_cb :: "'r udata mnhttp_cb" where
  "mnhttpc_response_line_cb ctx bs u = (0, ctx, bs, u)"

text \<open>The first field of a name wins; names are compared in lower case.\<close>

definition mnhttpc_response_header_cb ::
  "'b bytes_env \<Rightarrow> ('b \<Rightarrow> 'b) \<Rightarrow> ('b, 'h) hash_env \<Rightarrow> ('h \<Rightarrow> 'b \<Rightarrow> 'b option) \<Rightarrow>
   ('b, 'h, 'o, 'u) mnhttpc_request udata mnhttp_cb" where
  "mnhttpc_response_header_cb be lower he hget ctx bs u =
     (0, ctx, bs,
      case u of
        Req req \<Rightarrow>
          (case cstr_at bs (br_start (current_header_name ctx)) of
             None \<Rightarrow> Undef
           | Some n \<Rightarrow>
               let name = lower (bytes_new_from_str be n) in
               (case hget (i_headers (response req)) name of
                  Some v \<Rightarrow> u
                | None \<Rightarrow>
                    (case cstr_at bs (br_start (current_header_value ctx)) of
                       None \<Rightarrow> Undef
                     | Some v \<Rightarrow> Req (set_in_headers
                         (hash_set_item he (i_headers (response req)) name (bytes_new_from_str be v)) req))))
      | _ \<Rightarrow> Undef)"

text \<open>The user's body callback, called with the request.\<close>

definition request_cb :: "'u mnhttp_cb \<Rightarrow> ('b, 'h, 'o, 'u) mnhttpc_request udata mnhttp_cb" where
  "request_cb f ctx bs u =
     (case u of
        Req req \<Rightarrow> (case f ctx bs (r_user req) of (r, ctx', bs', u') \<Rightarrow> (r, ctx', bs', Req (req\<lparr>r_user := u'\<rparr>)))
      | _ \<Rightarrow> (0, ctx, bs, Undef))"

text \<open>\<open>mnhttpc_response_in_body_cb_wrap\<close>, which is unused, calls the same callback for chunks and for plain bodies.\<close>

definition mnhttpc_response_in_body_cb_wrap :: "('b, 'h, 'o, 'u) mnhttpc_request udata mnhttp_cb" where
  "mnhttpc_response_in_body_cb_wrap ctx bs u =
     (case u of
        Req req \<Rightarrow> (case in_body_cb req of None \<Rightarrow> (0, ctx, bs, u) | Some f \<Rightarrow> request_cb f ctx bs u)
      | _ \<Rightarrow> (0, ctx, bs, Undef))"

section \<open>The contract of the header hash\<close>

text \<open>
  Keys are compared by content; a new key is found after it has been set, and other keys are as before.
  (\<open>hash_set_item\<close> is not relied upon for keys that are already there.)
\<close>

locale header_hash =
  fixes be :: "'b bytes_env" and lower :: "'b \<Rightarrow> 'b" and he :: "('b, 'h) hash_env" and hget :: "'h \<Rightarrow> 'b \<Rightarrow> 'b option"
  assumes bytes: "bytes_law be"
    and lower_holds: "holds be (Some b) s \<Longrightarrow> holds be (Some (lower b)) (map c_tolower s)"
    and get_init: "hget (hash_init he) k = None"
    and get_cong: "BDATA be k = BDATA be k' \<Longrightarrow> hget h k = hget h k'"
    and get_set: "hget h k = None \<Longrightarrow>
      hget (hash_set_item he h k v) k' = (if BDATA be k' = BDATA be k then Some v else hget h k')"

text \<open>The value of the first field with a name, given in lower case.\<close>

definition first_field :: "field list \<Rightarrow> string \<Rightarrow> string option" where
  "first_field fs s = map_option (\<lambda>f. snd (snd f)) (find (\<lambda>f. map c_tolower (fst f) = s) fs)"

text \<open>What the header callback does with a name and a value.\<close>

definition keep_header ::
  "'b bytes_env \<Rightarrow> ('b \<Rightarrow> 'b) \<Rightarrow> ('b, 'h) hash_env \<Rightarrow> ('h \<Rightarrow> 'b \<Rightarrow> 'b option) \<Rightarrow> string option \<Rightarrow> string option \<Rightarrow>
   ('b, 'h, 'o, 'u) mnhttpc_request udata \<Rightarrow> ('b, 'h, 'o, 'u) mnhttpc_request udata" where
  "keep_header be lower he hget n v u =
     (case u of
        Req req \<Rightarrow>
          (case n of
             None \<Rightarrow> Undef
           | Some n \<Rightarrow>
               let name = lower (bytes_new_from_str be n) in
               (case hget (i_headers (response req)) name of
                  Some v \<Rightarrow> u
                | None \<Rightarrow>
                    (case v of
                       None \<Rightarrow> Undef
                     | Some v \<Rightarrow> Req (set_in_headers
                         (hash_set_item he (i_headers (response req)) name (bytes_new_from_str be v)) req))))
      | _ \<Rightarrow> Undef)"

lemma header_cb_reader: "mnhttpc_response_header_cb be lower he hget = header_reader (keep_header be lower he hget)"
  by (simp add: fun_eq_iff mnhttpc_response_header_cb_def header_reader_def keep_header_def)

lemma line_cb_reader: "mnhttpc_response_line_cb = line_reader (\<lambda>c r a b u. u)"
  by (simp add: fun_eq_iff mnhttpc_response_line_cb_def line_reader_def)

text \<open>A body callback that only looks at the data, called with the request.\<close>

definition keep_body :: "(string \<Rightarrow> 'u \<Rightarrow> 'u) \<Rightarrow> string \<Rightarrow> ('b, 'h, 'o, 'u) mnhttpc_request udata \<Rightarrow> ('b, 'h, 'o, 'u) mnhttpc_request udata" where
  "keep_body h s u = (case u of Req req \<Rightarrow> Req (req\<lparr>r_user := h s (r_user req)\<rparr>) | _ \<Rightarrow> Undef)"

lemma request_cb_reader: "request_cb (body_reader h) = body_reader (keep_body h)"
  by (simp add: fun_eq_iff request_cb_def body_reader_def keep_body_def split: udata.split)

lemma fold_keep_body: "fold (keep_body h) ss (Req req) = Req (req\<lparr>r_user := fold h ss (r_user req)\<rparr>)"
  by (induction ss arbitrary: req) (simp_all add: keep_body_def)

lemma keep_header_lost: "fold (read_field (keep_header be lower he hget)) fs Undef = Undef"
  by (induction fs) (simp_all add: read_field_def keep_header_def)

lemma keep_header_at_null: "read_field (keep_header be lower he hget) f Null = Undef"
  by (simp add: read_field_def keep_header_def)

lemma keep_header_null: "fs \<noteq> [] \<Longrightarrow> fold (read_field (keep_header be lower he hget)) fs Null = Undef"
  by (cases fs) (simp_all add: keep_header_at_null keep_header_lost)

context header_hash
begin

lemma lower_name: "BDATA be (lower (bytes_new_from_str be n)) = map c_tolower n @ [NUL]"
  using lower_holds [of "bytes_new_from_str be n" n] holds_new(1) [OF bytes, of n n] by (simp add: holds_def)

text \<open>After a header section the hash has, for every name it did not have, the value of its first field.\<close>

lemma fold_keep_header:
  "\<exists>h'. fold (read_field (keep_header be lower he hget)) fs (Req req) = Req (set_in_headers h' req) \<and>
    (\<forall>k s. holds be (Some k) s \<longrightarrow> hget h' k =
       (case hget (i_headers (response req)) k of Some v \<Rightarrow> Some v
        | None \<Rightarrow> map_option (bytes_new_from_str be) (first_field fs s)))"
proof (induction fs arbitrary: req)
  case Nil
  show ?case by (intro exI [of _ "i_headers (response req)"]) (simp add: first_field_def split: option.split)
next
  case (Cons f fs)
  define h where "h = i_headers (response req)"
  define n where "n = lower (bytes_new_from_str be (fst f))"
  define h1 where "h1 = (case hget h n of Some v \<Rightarrow> h | None \<Rightarrow> hash_set_item he h n (bytes_new_from_str be (snd (snd f))))"
  have one: "read_field (keep_header be lower he hget) f (Req req) = Req (set_in_headers h1 req)"
    by (simp add: read_field_def keep_header_def Let_def h1_def n_def h_def split: option.split)
  obtain h' where h': "fold (read_field (keep_header be lower he hget)) fs (Req (set_in_headers h1 req)) =
      Req (set_in_headers h' (set_in_headers h1 req))"
      "\<forall>k s. holds be (Some k) s \<longrightarrow> hget h' k =
         (case hget h1 k of Some v \<Rightarrow> Some v | None \<Rightarrow> map_option (bytes_new_from_str be) (first_field fs s))"
    using Cons [of "set_in_headers h1 req"] by auto
  have "hget h' k = (case hget h k of Some v \<Rightarrow> Some v | None \<Rightarrow> map_option (bytes_new_from_str be) (first_field (f # fs) s))"
    if k: "holds be (Some k) s" for k s
  proof -
    have bk: "BDATA be k = s @ [NUL]" using k by (simp add: holds_def)
    have same: "BDATA be k = BDATA be n \<longleftrightarrow> map c_tolower (fst f) = s" using bk lower_name by (auto simp: n_def)
    have "hget h1 k = (if hget h n = None \<and> map c_tolower (fst f) = s then Some (bytes_new_from_str be (snd (snd f))) else hget h k)"
      using get_set [of h n _ k] same by (auto simp: h1_def split: option.split)
    moreover have "hget h k = hget h n" if "map c_tolower (fst f) = s" using that same get_cong [of k n h] by simp
    ultimately show ?thesis
      using h'(2) k by (auto simp: first_field_def split: option.split)
  qed
  then show ?case using one h'(1) by (intro exI [of _ h']) (simp add: h_def)
qed

end

end
