(* ===== verification/HttpcWorker.thy ===== *)
theory HttpcWorker
  imports HttpcRequest
begin

text \<open>
  The thread of src/src/mnhttpc.c that receives responses, \<open>mnhttpc_connection_recv_worker\<close>: it waits for data,
  takes the first request off the connection's queue and parses a response into it. The receiving side
  of a connection is a record; waiting lets other threads run, which may add requests.
\<close>

section \<open>The code\<close>

record ('w, 'r) rx =
  rx_in :: bytestream
  rx_fd :: 'w
  rx_errno :: c_errno
  rx_queue :: "'r list"
  rx_done :: "'r list"

definition rx_call :: "mnhttp_ctx \<Rightarrow> 'u \<Rightarrow> ('w, 'r) rx \<Rightarrow> ('w, 'u) mstate" where
  "rx_call ctx u s = \<lparr>m_ctx = ctx, m_in = rx_in s, m_errno = rx_errno s, m_fd = rx_fd s, m_udata = u\<rparr>"

definition rx_back :: "('w, 'u) mstate \<Rightarrow> ('w, 'r) rx \<Rightarrow> ('w, 'r) rx" where
  "rx_back st s = s\<lparr>rx_in := m_in st, rx_errno := m_errno st, rx_fd := m_fd st\<rparr>"

text \<open>
  Without a request the response is parsed with a context of its own and no user data; with one, the request is
  taken off the queue, and afterwards signalled (\<open>rx_done\<close>). Reading lets other threads run too: \<open>late w w'\<close> are the
  requests they queue while the parser takes the connection from \<open>w\<close> to \<open>w'\<close>. A result other than 0 ends the worker. The
  fuel bounds the rounds of the worker and of the parser.
\<close>

fun mnhttpc_connection_recv_worker ::
  "nat \<Rightarrow> 'w bs_env \<Rightarrow> (('w, ('b, 'h, 'o, 'u) mnhttpc_request) rx \<Rightarrow> int \<times> ('w, ('b, 'h, 'o, 'u) mnhttpc_request) rx) \<Rightarrow>
   ('w \<Rightarrow> 'w \<Rightarrow> ('b, 'h, 'o, 'u) mnhttpc_request list) \<Rightarrow>
   ('b, 'h, 'o, 'u) mnhttpc_request udata mnhttp_cb \<Rightarrow> ('w, ('b, 'h, 'o, 'u) mnhttpc_request) rx \<Rightarrow>
   (('w, ('b, 'h, 'o, 'u) mnhttpc_request) rx, ('w, ('b, 'h, 'o, 'u) mnhttpc_request) rx) outcome" where
  "mnhttpc_connection_recv_worker 0 env wait late hcb s = Running s"
| "mnhttpc_connection_recv_worker (Suc n) env wait late hcb s =
     (case wait s of (r, s1) \<Rightarrow>
        if r \<noteq> 0 then Returned s1
        else case rx_queue s1 of
          [] \<Rightarrow>
            (case http_parse_response n env (Some mnhttpc_response_line_cb) (Some hcb) None (rx_call http_ctx_init Null s1) of
               Undefined \<Rightarrow> Undefined
             | Running st \<Rightarrow> Running s1
             | Returned (res, st) \<Rightarrow>
                 (case m_udata st of
                    Undef \<Rightarrow> Undefined
                  | _ \<Rightarrow>
                      (let s2 = (rx_back st s1)\<lparr>rx_queue := late (rx_fd s1) (m_fd st)\<rparr>
                       in if res \<noteq> RC 0 then Returned s2 else mnhttpc_connection_recv_worker n env wait late hcb s2)))
        | req # rs \<Rightarrow>
            (case http_parse_response n env (Some mnhttpc_response_line_cb) (Some hcb) (map_option request_cb (in_body_cb req))
                    (rx_call (i_ctx (response req)) (Req req) (s1\<lparr>rx_queue := rs\<rparr>)) of
               Undefined \<Rightarrow> Undefined
             | Running st \<Rightarrow> Running s1
             | Returned (res, st) \<Rightarrow>
                 (case m_udata st of
                    Req req1 \<Rightarrow>
                      (let req2 = req1\<lparr>response := (response req1)\<lparr>i_ctx := m_ctx st\<rparr>\<rparr>;
                           s2 = (rx_back st s1)\<lparr>rx_queue := rs @ late (rx_fd s1) (m_fd st), rx_done := rx_done s1 @ [req2]\<rparr>
                       in if res \<noteq> RC 0 then Returned s2 else mnhttpc_connection_recv_worker n env wait late hcb s2)
                  | _ \<Rightarrow> Undefined)))"

section \<open>Reading before parsing\<close>

text \<open>The parser may find the stream empty and read first.\<close>

lemma parse_after_refill:
  assumes "refill env st = Inl st0" and "refill env st0 = Inl st0"
    and "http_parse_response n env lcb hcb bcb st0 = Returned x"
  shows "http_parse_response n env lcb hcb bcb st = Returned x"
proof (cases n)
  case (Suc k)
  have "message_step env pl lcb hcb bcb st = message_step env pl lcb hcb bcb st0" for pl
    using assms(1,2) by (simp add: message_step_def)
  then show ?thesis using assms(3) Suc by (simp add: http_parse_response_def http_parse_message_def)
qed (use assms(3) in \<open>simp add: http_parse_response_def http_parse_message_def\<close>)

lemma refill_keeps: "refill env st = Inl st0 \<Longrightarrow> m_ctx st0 = m_ctx st \<and> m_udata st0 = m_udata st"
  by (auto simp: refill_def Let_def split: if_split_asm prod.split_asm)

text \<open>Passing no body callback is passing one that does nothing.\<close>

lemma call_no_cb: "call_cb None = call_cb (Some (body_reader (\<lambda>s u. u)))"
  by (simp add: fun_eq_iff call_cb_def body_reader_def)

lemma process_no_cb: "process_body env None = process_body env (Some (body_reader (\<lambda>s u. u)))"
  by (intro ext) (simp only: process_body_def process_chunk_data_def process_plain_body_def call_no_cb)

lemma no_body_cb: "http_parse_response n env lcb hcb None = http_parse_response n env lcb hcb (Some (body_reader (\<lambda>s u. u)))"
proof -
  have "message_step env pl lcb hcb None = message_step env pl lcb hcb (Some (body_reader (\<lambda>s u. u)))" for pl
    by (intro ext) (simp only: message_step_def dispatch_def step_header_out_def step_body_in_def step_body_def process_no_cb)
  then show ?thesis by (intro ext) (simp only: http_parse_response_def http_parse_message_def)
qed

text \<open>What the parser makes of a whole response, present or about to be read, with the client's callbacks.\<close>

definition response_text :: "nat \<Rightarrow> nat \<Rightarrow> nat \<Rightarrow> string \<Rightarrow> field list \<Rightarrow> framing \<Rightarrow> string" where
  "response_text maj mnr status phrase fs fr =
     status_text maj mnr '' '' status phrase @ crlf @ headers_text fs @ crlf @ frame_text fr"

definition good_response :: "nat \<Rightarrow> nat \<Rightarrow> nat \<Rightarrow> string \<Rightarrow> field list \<Rightarrow> framing \<Rightarrow> bool" where
  "good_response maj mnr status phrase fs fr \<longleftrightarrow>
     CR \<notin> set phrase \<and> \<not> c_isdigit (hd (phrase @ crlf)) \<and> maj < 2 ^ 31 \<and> mnr < 2 ^ 31 \<and> status < 2 ^ 31 \<and>
     list_all good_field fs \<and> announced fr (fold header_effect (map name_value fs) http_ctx_init)"

text \<open>The state the parser starts from once it has read.\<close>

definition ready :: "'w bs_env \<Rightarrow> ('w, 'u) mstate \<Rightarrow> string \<Rightarrow> bool" where
  "ready env st s \<longleftrightarrow> (case refill env st of Inr _ \<Rightarrow> False
     | Inl st0 \<Rightarrow> left_over (m_in st0) s \<and> errno_ok (m_errno st0))"

lemma response_ready:
  assumes "needmore_law env" and "recycle_law env" and "m_ctx st = http_ctx_init"
    and "good_response maj mnr status phrase fs fr" and "ready env st (response_text maj mnr status phrase fs fr @ rest)"
  shows "\<exists>n st'. http_parse_response n env (Some (line_reader k)) (Some (header_reader g)) (Some (body_reader h)) st =
      Returned (RC 0, st') \<and> code (m_ctx st') = int status \<and> left_over (m_in st') rest \<and>
    m_udata st' = fold h (frame_pieces fr) (fold (read_field g) fs (k (int status) None (int maj) (int mnr) (m_udata st)))"
proof -
  obtain st0 where r: "refill env st = Inl st0" and l: "left_over (m_in st0) (response_text maj mnr status phrase fs fr @ rest)"
    and e: "errno_ok (m_errno st0)"
    using assms(5) by (auto simp: ready_def split: sum.split_asm)
  have b: "blanks '' ''" by code_simp
  have p: "pos_ok (m_in st0)" and u: "unread (m_in st0) = status_text maj mnr '' '' status phrase @ crlf @ headers_text fs @ crlf @
      frame_text fr @ rest"
    using l by (simp_all add: left_over_def response_text_def)
  have r0: "refill env st0 = Inl st0"
    using unread_nonempty [OF p] u by (intro refill_none [OF assms(1)]) (simp add: headers_text_def)
  note g = assms(4) [unfolded good_response_def]
  obtain n st' where "http_parse_response n env (Some (line_reader k)) (Some (header_reader g)) (Some (body_reader h)) st0 =
      Returned (RC 0, st')" "code (m_ctx st') = int status" "left_over (m_in st') rest"
      "m_udata st' = fold h (frame_pieces fr) (fold (read_field g) fs (k (int status) None (int maj) (int mnr) (m_udata st0)))"
    using response_parsed [OF assms(1,2) _ p e u b, of k g h] refill_keeps [OF r] assms(3) g by auto
  then show ?thesis using parse_after_refill [OF r r0] refill_keeps [OF r] by metis
qed

lemma parse_response_more:
  "http_parse_response n env lcb hcb bcb st = Returned x \<Longrightarrow> n \<le> m \<Longrightarrow> http_parse_response m env lcb hcb bcb st = Returned x"
  unfolding http_parse_response_def http_parse_message_def by (rule run_steps_more)

section \<open>A hash of lists\<close>

definition list_hget :: "(string \<times> string) list \<Rightarrow> string \<Rightarrow> string option" where
  "list_hget h k = map_of h k"

interpretation list_headers: header_hash list_bytes "map c_tolower" list_hash list_hget
proof
  show "bytes_law list_bytes" by (rule list_bytes_law)
  fix b s h k k' v
  show "holds list_bytes (Some (map c_tolower b)) (map c_tolower s)" if "holds list_bytes (Some b) s"
    using that by (auto simp: holds_def list_bytes_def c_tolower_def c_isupper_def)
  show "list_hget (hash_init list_hash) k = None" by (simp add: list_hget_def list_hash_def)
  show "BDATA list_bytes k = BDATA list_bytes k' \<Longrightarrow> list_hget h k = list_hget h k'" by (simp add: list_bytes_def)
  show "list_hget (hash_set_item list_hash h k v) k' =
      (if BDATA list_bytes k' = BDATA list_bytes k then Some v else list_hget h k')" if "list_hget h k = None"
    using that by (auto simp: list_hget_def list_hash_def list_bytes_def map_add_def split: option.split)
qed

section \<open>Claims\<close>

text \<open>
  C9. When a whole response is in the stream, or is what the next read gives, and a request heads the queue, a round of
  the receiving worker takes that request off the queue, gives it the status, hands its body callback the pieces of
  the body, and signals it; the other requests stay queued, followed by those that other threads queue meanwhile, and what
  follows the response stays unread. Looking up a name in lower case in the request's response headers then gives the value of the first field of
  that name in any mixture of cases, and nothing for a name the response does not have.
\<close>

theorem response_delivered:
  assumes "header_hash be lower he hget" and "needmore_law env" and "recycle_law env"
    and "wait s = (0, s1)" and "rx_queue s1 = req # rs" and "in_body_cb req = Some (body_reader h)"
    and "response req = mnhttpc_message_init_in he" and "good_response maj mnr status phrase fs fr"
    and "ready env (rx_call http_ctx_init (Req req) s1) (response_text maj mnr status phrase fs fr @ rest)"
  shows "\<exists>n0 s2 req2. (\<forall>n \<ge> n0. mnhttpc_connection_recv_worker (Suc n) env wait late (mnhttpc_response_header_cb be lower he hget) s =
      mnhttpc_connection_recv_worker n env wait late (mnhttpc_response_header_cb be lower he hget) s2) \<and>
    rx_queue s2 = rs @ late (rx_fd s1) (rx_fd s2) \<and> rx_done s2 = rx_done s1 @ [req2] \<and> left_over (rx_in s2) rest \<and>
    code (i_ctx (response req2)) = int status \<and> r_user req2 = fold h (frame_pieces fr) (r_user req) \<and>
    (\<forall>k name. holds be (Some k) name \<longrightarrow>
       mnhttpc_request_in_header hget req2 k = map_option (bytes_new_from_str be) (first_field fs name))"
proof -
  let ?hcb = "mnhttpc_response_header_cb be lower he hget" and ?st = "rx_call http_ctx_init (Req req) (s1\<lparr>rx_queue := rs\<rparr>)"
  have st: "?st = rx_call http_ctx_init (Req req) s1" by (simp add: rx_call_def)
  have ctx: "m_ctx ?st = http_ctx_init" "m_udata ?st = Req req" by (simp_all add: rx_call_def)
  obtain n0 st' where p: "http_parse_response n0 env (Some mnhttpc_response_line_cb) (Some ?hcb)
        (Some (request_cb (body_reader h))) ?st = Returned (RC 0, st')" "code (m_ctx st') = int status" "left_over (m_in st') rest"
      "m_udata st' = fold (keep_body h) (frame_pieces fr) (fold (read_field (keep_header be lower he hget)) fs (Req req))"
    using response_ready [OF assms(2,3) ctx(1) assms(8), of rest "\<lambda>c r a b u. u" "keep_header be lower he hget" "keep_body h"]
      assms(9) ctx(2) st
    by (auto simp: line_cb_reader header_cb_reader request_cb_reader)
  obtain h' where h': "fold (read_field (keep_header be lower he hget)) fs (Req req) = Req (set_in_headers h' req)"
      "\<forall>k s. holds be (Some k) s \<longrightarrow> hget h' k =
         (case hget (i_headers (response req)) k of Some v \<Rightarrow> Some v | None \<Rightarrow> map_option (bytes_new_from_str be) (first_field fs s))"
    using header_hash.fold_keep_header [OF assms(1), of fs req] by blast
  have empty: "hget (i_headers (response req)) k = None" for k
    using header_hash.get_init [OF assms(1)] assms(7) by (simp add: mnhttpc_message_init_in_def)
  let ?r1 = "(set_in_headers h' req)\<lparr>r_user := fold h (frame_pieces fr) (r_user req)\<rparr>"
  let ?r2 = "?r1\<lparr>response := (response ?r1)\<lparr>i_ctx := m_ctx st'\<rparr>\<rparr>"
  let ?s2 = "(rx_back st' s1)\<lparr>rx_queue := rs @ late (rx_fd s1) (m_fd st'), rx_done := rx_done s1 @ [?r2]\<rparr>"
  have u: "m_udata st' = Req ?r1" using p(4) h'(1) fold_keep_body [of h "frame_pieces fr" "set_in_headers h' req"] by simp
  have ic: "i_ctx (response req) = http_ctx_init" using assms(7) by (simp add: mnhttpc_message_init_in_def)
  have "mnhttpc_connection_recv_worker (Suc n) env wait late ?hcb s = mnhttpc_connection_recv_worker n env wait late ?hcb ?s2"
    if "n0 \<le> n" for n
    using assms(4,5,6) parse_response_more [OF p(1) that] u by (simp add: ic Let_def)
  moreover have "rx_queue ?s2 = rs @ late (rx_fd s1) (rx_fd ?s2)" "rx_done ?s2 = rx_done s1 @ [?r2]" "left_over (rx_in ?s2) rest"
    "code (i_ctx (response ?r2)) = int status" "r_user ?r2 = fold h (frame_pieces fr) (r_user req)"
    using p(2,3) by (simp_all add: rx_back_def)
  moreover have "\<forall>k name. holds be (Some k) name \<longrightarrow>
      mnhttpc_request_in_header hget ?r2 k = map_option (bytes_new_from_str be) (first_field fs name)"
    using h'(2) empty by (simp add: mnhttpc_request_in_header_def)
  ultimately show ?thesis by (intro exI [of _ n0] exI [of _ ?s2] exI [of _ ?r2]) blast
qed

text \<open>A request, and a connection whose next read gives a response.\<close>

definition sample_req :: "(string, (string \<times> string) list, unit, string) mnhttpc_request" where
  "sample_req = (mnhttpc_request_init list_hash [])\<lparr>in_body_cb := Some (body_reader (\<lambda>s u. u @ s))\<rparr>"

definition sample_rx :: "'r list \<Rightarrow> (string list, 'r) rx" where
  "sample_rx q = \<lparr>rx_in = \<lparr>sbuf = [], saddr = 4096, seod = 0, spos = 0\<rparr>,
     rx_fd = [response_text 1 1 200 '' OK'' [(''X-A'', '' '', ''1''), (''x-a'', '' '', ''2''), (''Content-Length'', '' '', ''3'')]
       (Whole ''abc'')], rx_errno = E_OTHER 0, rx_queue = q, rx_done = []\<rparr>"

lemma sample_ready:
  "good_response 1 1 200 '' OK'' [(''X-A'', '' '', ''1''), (''x-a'', '' '', ''2''), (''Content-Length'', '' '', ''3'')] (Whole ''abc'')"
  "ready fragment_env (rx_call http_ctx_init u (sample_rx q)) (response_text 1 1 200 '' OK''
     [(''X-A'', '' '', ''1''), (''x-a'', '' '', ''2''), (''Content-Length'', '' '', ''3'')] (Whole ''abc'') @ [])"
proof -
  have "list_all good_field [(''X-A'', '' '', ''1''), (''x-a'', '' '', ''2''), (''Content-Length'', '' '', ''3'')]"
    "announced (Whole ''abc'') (fold header_effect (map name_value
       [(''X-A'', '' '', ''1''), (''x-a'', '' '', ''2''), (''Content-Length'', '' '', ''3'')]) http_ctx_init)"
    "CR \<notin> set '' OK''" "\<not> c_isdigit (hd ('' OK'' @ crlf))" by code_simp+
  then show "good_response 1 1 200 '' OK'' [(''X-A'', '' '', ''1''), (''x-a'', '' '', ''2''), (''Content-Length'', '' '', ''3'')]
      (Whole ''abc'')" by (simp add: good_response_def)
  have l: "length (response_text 1 1 200 '' OK'' [(''X-A'', '' '', ''1''), (''x-a'', '' '', ''2''), (''Content-Length'', '' '', ''3'')]
     (Whole ''abc'')) = 57" by code_simp
  then show "ready fragment_env (rx_call http_ctx_init u (sample_rx q)) (response_text 1 1 200 '' OK''
     [(''X-A'', '' '', ''1''), (''x-a'', '' '', ''2''), (''Content-Length'', '' '', ''3'')] (Whole ''abc'') @ [])"
    by (simp add: ready_def refill_def fragment_env_def fragment_consume_def rx_call_def sample_rx_def left_over_def pos_ok_def
        stream_ok_def unread_def errno_ok_def)
qed

theorem response_delivered_witness:
  "\<exists>s2 req2. rx_queue s2 = [] \<and> rx_done s2 = [req2] \<and> code (i_ctx (response req2)) = 200 \<and> r_user req2 = ''abc'' \<and>
     mnhttpc_request_in_header list_hget req2 (''x-a'' @ [NUL]) = Some (''1'' @ [NUL]) \<and>
     (\<exists>n0. \<forall>n \<ge> n0. mnhttpc_connection_recv_worker (Suc n) fragment_env (\<lambda>s. (0, s)) (\<lambda>w w'. [])
        (mnhttpc_response_header_cb list_bytes (map c_tolower) list_hash list_hget) (sample_rx [sample_req]) =
      mnhttpc_connection_recv_worker n fragment_env (\<lambda>s. (0, s)) (\<lambda>w w'. [])
        (mnhttpc_response_header_cb list_bytes (map c_tolower) list_hash list_hget) s2)"
proof -
  let ?fs = "[(''X-A'', '' '', ''1''), (''x-a'', '' '', ''2''), (''Content-Length'', '' '', ''3'')]"
  have q: "rx_queue (sample_rx [sample_req]) = sample_req # []" "rx_done (sample_rx [sample_req]) = []" by (simp_all add: sample_rx_def)
  have r: "in_body_cb sample_req = Some (body_reader (\<lambda>s u. u @ s))" "response sample_req = mnhttpc_message_init_in list_hash"
      "r_user sample_req = []"
    by (simp_all add: sample_req_def mnhttpc_request_init_def)
  have f: "first_field ?fs ''x-a'' = Some ''1''" by code_simp
  have hk: "holds list_bytes (Some (''x-a'' @ [NUL])) ''x-a''" "bytes_new_from_str list_bytes ''1'' = ''1'' @ [NUL]"
    by (simp_all add: holds_def list_bytes_def)
  let ?w = "mnhttpc_connection_recv_worker" and ?cb = "mnhttpc_response_header_cb list_bytes (map c_tolower) list_hash list_hget"
  obtain n0 s2 req2 where *: "\<forall>n \<ge> n0. ?w (Suc n) fragment_env (\<lambda>s. (0, s)) (\<lambda>w w'. []) ?cb (sample_rx [sample_req]) =
      ?w n fragment_env (\<lambda>s. (0, s)) (\<lambda>w w'. []) ?cb s2" "rx_queue s2 = [] @ []" "rx_done s2 = rx_done (sample_rx [sample_req]) @ [req2]"
      "code (i_ctx (response req2)) = int 200" "r_user req2 = fold (\<lambda>s u. u @ s) (frame_pieces (Whole ''abc'')) (r_user sample_req)"
      "\<forall>k name. holds list_bytes (Some k) name \<longrightarrow>
         mnhttpc_request_in_header list_hget req2 k = map_option (bytes_new_from_str list_bytes) (first_field ?fs name)"
    using response_delivered [where wait = "\<lambda>s. (0, s)" and late = "\<lambda>w w'. []" and s = "sample_rx [sample_req]",
        OF list_headers.header_hash_axioms fragment_needmore fragment_recycle_law refl q(1) r(1,2) sample_ready] by blast
  have "mnhttpc_request_in_header list_hget req2 (''x-a'' @ [NUL]) = Some (''1'' @ [NUL])"
    using *(6) hk f by (simp del: append.simps)
  moreover have "rx_done s2 = [req2]" "code (i_ctx (response req2)) = 200" "r_user req2 = ''abc''"
    using *(3-5) q(2) r(3) by simp_all
  ultimately show ?thesis using *(1,2) by auto
qed

text \<open>
  C34. A response with at least one header field that arrives when no request is queued makes the worker follow a null
  pointer: the header callback is called without a request and uses it.
\<close>

theorem unsolicited_response_undefined:
  fixes be :: "'b bytes_env" and he :: "('b, 'h) hash_env" and s1 :: "('w, ('b, 'h, 'o, 'u) mnhttpc_request) rx"
  assumes "needmore_law env" and "recycle_law env" and "wait s = (0, s1)" and "rx_queue s1 = []"
    and "good_response maj mnr status phrase fs fr" and "fs \<noteq> []"
    and "ready env (rx_call http_ctx_init (Null :: ('b, 'h, 'o, 'u) mnhttpc_request udata) s1)
      (response_text maj mnr status phrase fs fr @ rest)"
  shows "\<exists>n. mnhttpc_connection_recv_worker n env wait late (mnhttpc_response_header_cb be lower he hget) s = Undefined"
proof -
  let ?hcb = "mnhttpc_response_header_cb be lower he hget"
    and ?st = "rx_call http_ctx_init (Null :: ('b, 'h, 'o, 'u) mnhttpc_request udata) s1"
  have ctx: "m_ctx ?st = http_ctx_init" "m_udata ?st = Null" by (simp_all add: rx_call_def)
  obtain n st' where p: "http_parse_response n env (Some mnhttpc_response_line_cb) (Some ?hcb) None ?st = Returned (RC 0, st')"
      "m_udata st' = fold (\<lambda>s u. u) (frame_pieces fr) (fold (read_field (keep_header be lower he hget)) fs Null)"
    using response_ready [OF assms(1,2) ctx(1) assms(5,7), of "\<lambda>c r a b u. u" "keep_header be lower he hget" "\<lambda>s u. u"] ctx(2)
    unfolding line_cb_reader header_cb_reader no_body_cb by metis
  have "fold (\<lambda>s u. u) xs u = u" for xs :: "string list" and u :: "('b, 'h, 'o, 'u) mnhttpc_request udata"
    by (induction xs) auto
  then have "m_udata st' = Undef" using p(2) keep_header_null [OF assms(6)] by metis
  then have "mnhttpc_connection_recv_worker (Suc n) env wait late ?hcb s = Undefined" using p(1) assms(3,4) by simp
  then show ?thesis by blast
qed

theorem unsolicited_response_undefined_witness:
  "\<exists>n. mnhttpc_connection_recv_worker n fragment_env (\<lambda>s. (0, s)) (\<lambda>w w'. [])
     (mnhttpc_response_header_cb list_bytes (map c_tolower) list_hash list_hget)
     (sample_rx [] :: (string list, (string, (string \<times> string) list, unit, string) mnhttpc_request) rx) = Undefined"
proof -
  have q: "rx_queue (sample_rx []) = []" by (simp add: sample_rx_def)
  show ?thesis
    by (rule unsolicited_response_undefined [where wait = "\<lambda>s. (0, s)" and s = "sample_rx []", OF fragment_needmore fragment_recycle_law refl q sample_ready(1) _ sample_ready(2)]) simp
qed

end
