(* ===== verification/HttpcConn.thy ===== *)
theory HttpcConn
  imports Bytes HttpCtx
begin

text \<open>
  Connections of the HTTP client, src/src/mnhttpc.c: their key and its hash, making, connecting, closing and collecting
  them. The network, OpenSSL and the thread library act on a state \<open>'w\<close> through \<open>net_env\<close>. Allocation succeeds
  (the code ends the program when it does not).
\<close>

section \<open>Data\<close>

text \<open>The pointer the streams are given: a descriptor cast to a pointer, the \<open>SSL\<close> object, or \<open>NULL\<close>.\<close>

datatype conn_fp = Fp_fd int | Fp_ssl | Fp_null

text \<open>
  \<open>c_in_tls\<close> and \<open>c_out_tls\<close>: the stream's functions are those of \<open>bytestream_ssl_helper.c\<close> and not the plain ones.
  \<open>c_sslctx\<close> and \<open>c_ssl\<close>: the pointer is not \<open>NULL\<close>.
\<close>

record ('b, 'o, 'q) mnhttpc_connection =
  c_hash :: "64 word"
  proxy_host :: "'b option"
  proxy_port :: "'b option"
  c_host :: "'b option"
  c_port :: "'b option"
  c_fd :: int
  c_fp :: conn_fp
  c_sslctx :: bool
  c_ssl :: bool
  send_thread :: "nat option"
  recv_thread :: "nat option"
  c_in :: bytestream
  c_in_tls :: bool
  c_out :: 'o
  c_out_tls :: bool
  c_requests :: "'q list"

record ('w, 'o) net_env =
  stream_in_new :: bytestream
  stream_out_new :: 'o
  mnthr_socket_connect :: "string \<Rightarrow> string \<Rightarrow> 'w \<Rightarrow> int \<times> 'w"
  net_close :: "int \<Rightarrow> 'w \<Rightarrow> 'w"
  net_spawn :: "string \<Rightarrow> 'w \<Rightarrow> nat \<times> 'w"
  net_interrupt_join :: "nat \<Rightarrow> 'w \<Rightarrow> 'w"
  net_join :: "nat \<Rightarrow> int \<Rightarrow> 'w \<Rightarrow> int \<times> 'w"
  SSL_shutdown_free :: "'w \<Rightarrow> 'w"
  SSL_connect :: "int \<Rightarrow> 'w \<Rightarrow> int \<times> 'w"
  SSL_connect_error :: "int \<Rightarrow> 'w \<Rightarrow> int"
  net_wait_for_read :: "int \<Rightarrow> 'w \<Rightarrow> int \<times> 'w"
  net_wait_for_write :: "int \<Rightarrow> 'w \<Rightarrow> int \<times> 'w"

section \<open>The key of a connection\<close>

text \<open>\<open>bh\<close> is \<open>bytes_hash\<close>; \<open>fh s x\<close> is \<open>fasthash\<close> with seed \<open>s\<close> on the eight bytes of \<open>x\<close>.\<close>

definition hash_mix :: "('b \<Rightarrow> 64 word) \<Rightarrow> (64 word \<Rightarrow> 64 word \<Rightarrow> 64 word) \<Rightarrow> 'b option \<Rightarrow> 64 word \<Rightarrow> 64 word" where
  "hash_mix bh fh b s = (case b of None \<Rightarrow> s | Some x \<Rightarrow> fh s (bh x))"

definition mnhttpc_connection_hash ::
  "('b \<Rightarrow> 64 word) \<Rightarrow> (64 word \<Rightarrow> 64 word \<Rightarrow> 64 word) \<Rightarrow> ('b, 'o, 'q) mnhttpc_connection \<Rightarrow>
   64 word \<times> ('b, 'o, 'q) mnhttpc_connection" where
  "mnhttpc_connection_hash bh fh conn =
     (let h = (if c_hash conn = 0
               then hash_mix bh fh (c_port conn) (hash_mix bh fh (c_host conn) (hash_mix bh fh (proxy_port conn)
                      (case proxy_host conn of None \<Rightarrow> 0 | Some x \<Rightarrow> bh x)))
               else c_hash conn)
      in (h, conn\<lparr>c_hash := h\<rparr>))"

definition mnhttpc_connection_cmp ::
  "('b \<Rightarrow> 64 word) \<Rightarrow> (64 word \<Rightarrow> 64 word \<Rightarrow> 64 word) \<Rightarrow> ('b, 'o, 'q) mnhttpc_connection \<Rightarrow>
   ('b, 'o, 'q) mnhttpc_connection \<Rightarrow> int" where
  "mnhttpc_connection_cmp bh fh a b =
     (let ha = fst (mnhttpc_connection_hash bh fh a); hb = fst (mnhttpc_connection_hash bh fh b)
      in if ha > hb then 1 else if ha < hb then -1 else 0)"

section \<open>Making, closing, freeing\<close>

definition mnhttpc_connection_init :: "('w, 'o) net_env \<Rightarrow> int \<Rightarrow> ('b, 'o, 'q) mnhttpc_connection" where
  "mnhttpc_connection_init net scheme =
     (let tls = (scheme = 1) in
      \<lparr>c_hash = 0, proxy_host = None, proxy_port = None, c_host = None, c_port = None, c_fd = -1,
       c_fp = (if tls then Fp_null else Fp_fd (-1)), c_sslctx = tls, c_ssl = False, send_thread = None, recv_thread = None,
       c_in = stream_in_new net, c_in_tls = tls, c_out = stream_out_new net, c_out_tls = tls, c_requests = []\<rparr>)"

definition mnhttpc_connection_new ::
  "('w, 'o) net_env \<Rightarrow> 'b option \<Rightarrow> 'b option \<Rightarrow> 'b \<Rightarrow> 'b \<Rightarrow> int \<Rightarrow> ('b, 'o, 'q) mnhttpc_connection" where
  "mnhttpc_connection_new net ph pp h p scheme =
     (mnhttpc_connection_init net scheme)\<lparr>proxy_host := ph, proxy_port := pp, c_host := Some h, c_port := Some p\<rparr>"

definition join_opt :: "('w, 'o) net_env \<Rightarrow> nat option \<Rightarrow> 'w \<Rightarrow> 'w" where
  "join_opt net t w = (case t of None \<Rightarrow> w | Some i \<Rightarrow> net_interrupt_join net i w)"

definition mnhttpc_connection_close ::
  "('w, 'o) net_env \<Rightarrow> ('b, 'o, 'q) mnhttpc_connection \<Rightarrow> 'w \<Rightarrow> ('b, 'o, 'q) mnhttpc_connection \<times> 'w" where
  "mnhttpc_connection_close net conn w =
     (let w1 = join_opt net (recv_thread conn) (join_opt net (send_thread conn) w);
          w2 = (if c_ssl conn then SSL_shutdown_free net w1 else w1);
          w3 = (if c_fd conn \<noteq> -1 then net_close net (c_fd conn) w2 else w2)
      in (conn\<lparr>send_thread := None, recv_thread := None, c_ssl := False, c_fd := -1, c_fp := Fp_fd (-1)\<rparr>, w3))"

text \<open>Finishing also frees the queued requests and the streams.\<close>

definition mnhttpc_connection_fini ::
  "('w, 'o) net_env \<Rightarrow> ('b, 'o, 'q) mnhttpc_connection \<Rightarrow> 'w \<Rightarrow> ('b, 'o, 'q) mnhttpc_connection \<times> 'w" where
  "mnhttpc_connection_fini net conn w =
     (let conn1 = conn\<lparr>c_hash := 0, proxy_host := None, proxy_port := None, c_host := None, c_port := None, c_requests := []\<rparr>;
          (conn2, w1) = mnhttpc_connection_close net conn1 w
      in (conn2\<lparr>c_sslctx := False\<rparr>, w1))"

text \<open>The pointer after destroying, and what the system is left with.\<close>

definition mnhttpc_connection_destroy ::
  "('w, 'o) net_env \<Rightarrow> ('b, 'o, 'q) mnhttpc_connection option \<Rightarrow> 'w \<Rightarrow> ('b, 'o, 'q) mnhttpc_connection option \<times> 'w" where
  "mnhttpc_connection_destroy net conn w =
     (case conn of None \<Rightarrow> (None, w) | Some c \<Rightarrow> (None, snd (mnhttpc_connection_fini net c w)))"

section \<open>Connecting\<close>

abbreviation (input) MNHTTPC_CONNECTION_SSL_ERROR :: int where "MNHTTPC_CONNECTION_SSL_ERROR \<equiv> - 0x8000"

text \<open>A round of the handshake; \<open>SSL_new\<close> and \<open>SSL_set_fd\<close> succeed or end the program.\<close>

definition ssl_round :: "('w, 'o) net_env \<Rightarrow> int \<Rightarrow> 'w \<Rightarrow> ('w + int \<times> 'w) option" where
  "ssl_round net fd w =
     (case SSL_connect net fd w of (res, w1) \<Rightarrow>
        if res > 0 then Some (Inr (0, w1))
        else let e = SSL_connect_error net res w1 in
          if e = 2 then (case net_wait_for_read net fd w1 of (r, w2) \<Rightarrow> if r \<noteq> 0 then Some (Inr (r, w2)) else Some (Inl w2))
          else if e = 3 then (case net_wait_for_write net fd w1 of (r, w2) \<Rightarrow> if r \<noteq> 0 then Some (Inr (r, w2)) else Some (Inl w2))
          else Some (Inr (MNHTTPC_CONNECTION_SSL_ERROR, w1)))"

definition mnhttpc_connection_ssl_init ::
  "nat \<Rightarrow> ('w, 'o) net_env \<Rightarrow> ('b, 'o, 'q) mnhttpc_connection \<Rightarrow> 'w \<Rightarrow>
   ('w, int \<times> ('b, 'o, 'q) mnhttpc_connection \<times> 'w) outcome" where
  "mnhttpc_connection_ssl_init n net conn w =
     (if c_sslctx conn then
        (let conn1 = conn\<lparr>c_ssl := True, c_fp := Fp_ssl\<rparr> in
         case run_steps n (ssl_round net (c_fd conn)) w of
           Undefined \<Rightarrow> Undefined
         | Running w1 \<Rightarrow> Running w1
         | Returned (r, w1) \<Rightarrow> Returned (r, conn1, w1))
      else Returned (0, conn, w))"

text \<open>
  The peer is the proxy when there is one. The thread that does the handshake is started and joined at once;
  \<open>net_join t q\<close> joins thread \<open>t\<close>, whose function has returned \<open>q\<close>.
\<close>

definition mnhttpc_connection_connect ::
  "nat \<Rightarrow> 'b bytes_env \<Rightarrow> ('w, 'o) net_env \<Rightarrow> ('b, 'o, 'q) mnhttpc_connection \<Rightarrow> 'w \<Rightarrow>
   ('w, res \<times> ('b, 'o, 'q) mnhttpc_connection \<times> 'w) outcome" where
  "mnhttpc_connection_connect n be net conn w =
     (if c_host conn = None \<or> c_port conn = None then Undefined
      else let peer_host = (if proxy_host conn \<noteq> None then proxy_host conn else c_host conn);
               peer_port = (if proxy_port conn \<noteq> None then proxy_port conn else c_port conn)
      in case (Option.bind peer_host (BCDATA be), Option.bind peer_port (BCDATA be)) of
        (Some h, Some p) \<Rightarrow>
          (case mnthr_socket_connect net h p w of (fd, w1) \<Rightarrow>
             if fd = -1 then Returned (ERR MNHTTPC_CONNECTION_CONNECT 1, conn\<lparr>c_fd := fd\<rparr>, w1)
             else case net_spawn net ''sslinit'' w1 of (t0, w1') \<Rightarrow>
               (case mnhttpc_connection_ssl_init n net (conn\<lparr>c_fd := fd, c_fp := Fp_fd fd\<rparr>) w1' of
                  Undefined \<Rightarrow> Undefined
                | Running w2 \<Rightarrow> Running w2
                | Returned (q, conn2, w2) \<Rightarrow>
                    (case net_join net t0 q w2 of (r, w2') \<Rightarrow>
                       if r \<noteq> 0 then Returned (RC r, conn2, w2')
                       else case net_spawn net ''httpsnd'' w2' of (t, w3) \<Rightarrow>
                         (case net_spawn net ''httprcv'' w3 of (t', w4) \<Rightarrow>
                            Returned (RC 0, conn2\<lparr>send_thread := Some t, recv_thread := Some t'\<rparr>, w4)))))
      | _ \<Rightarrow> Undefined)"

definition mnhttpc_connection_ensure_connected ::
  "nat \<Rightarrow> 'b bytes_env \<Rightarrow> ('w, 'o) net_env \<Rightarrow> ('b, 'o, 'q) mnhttpc_connection \<Rightarrow> 'w \<Rightarrow>
   ('w, res \<times> ('b, 'o, 'q) mnhttpc_connection \<times> 'w) outcome" where
  "mnhttpc_connection_ensure_connected n be net conn w =
     (if send_thread conn \<noteq> None \<and> recv_thread conn \<noteq> None then Returned (RC 0, conn, w)
      else case mnhttpc_connection_close net conn w of (conn1, w1) \<Rightarrow> mnhttpc_connection_connect n be net conn1 w1)"

section \<open>Collecting\<close>

text \<open>\<open>acquired\<close>: what \<open>mnthr_sema_acquire\<close> returns. The streams are made anew, with the plain functions.\<close>

definition mnhttpc_connection_gc ::
  "('w, 'o) net_env \<Rightarrow> int \<Rightarrow> ('b, 'o, 'q) mnhttpc_connection \<Rightarrow> int \<times> ('b, 'o, 'q) mnhttpc_connection" where
  "mnhttpc_connection_gc net acquired conn =
     (if acquired \<noteq> 0 then (-1, conn)
      else (0, conn\<lparr>c_in := stream_in_new net, c_in_tls := False, c_out := stream_out_new net, c_out_tls := False\<rparr>))"

section \<open>The sending thread\<close>

text \<open>
  \<open>produce\<close> is \<open>bytestream_produce_data\<close> to the connection's \<open>fp\<close>, \<open>rewind\<close> is \<open>bytestream_rewind\<close>, and \<open>subscribe\<close>
  waits for the signal, during which other threads may write to the stream; \<open>signal_fini\<close> is \<open>mnthr_signal_fini\<close>.
  (A negative position is only traced.)
\<close>

definition send_round ::
  "('o \<Rightarrow> 'w \<Rightarrow> int \<times> 'o \<times> 'w) \<Rightarrow> ('o \<Rightarrow> 'o) \<Rightarrow> ('o \<Rightarrow> 'w \<Rightarrow> int \<times> 'o \<times> 'w) \<Rightarrow> 'o \<times> 'w \<Rightarrow> (('o \<times> 'w) + ('o \<times> 'w)) option" where
  "send_round produce rewind subscribe = (\<lambda>(out, w).
     case produce out w of (r, out1, w1) \<Rightarrow>
       if r \<noteq> 0 then Some (Inr (out1, w1))
       else case subscribe (rewind out1) w1 of (r2, out2, w2) \<Rightarrow>
         if r2 \<noteq> 0 then Some (Inr (out2, w2)) else Some (Inl (out2, w2)))"

definition mnhttpc_connection_send_worker ::
  "nat \<Rightarrow> (conn_fp \<Rightarrow> 'o \<Rightarrow> 'w \<Rightarrow> int \<times> 'o \<times> 'w) \<Rightarrow> ('o \<Rightarrow> 'o) \<Rightarrow> ('o \<Rightarrow> 'w \<Rightarrow> int \<times> 'o \<times> 'w) \<Rightarrow> ('w \<Rightarrow> 'w) \<Rightarrow>
   ('b, 'o, 'q) mnhttpc_connection \<Rightarrow> 'w \<Rightarrow> ('o \<times> 'w, ('b, 'o, 'q) mnhttpc_connection \<times> 'w) outcome" where
  "mnhttpc_connection_send_worker n produce rewind subscribe signal_fini conn w =
     (case run_steps n (send_round (produce (c_fp conn)) rewind subscribe) (c_out conn, w) of
        Undefined \<Rightarrow> Undefined
      | Running s \<Rightarrow> Running s
      | Returned (out, w') \<Rightarrow> Returned (conn\<lparr>c_out := out, send_thread := None\<rparr>, signal_fini w'))"

section \<open>The life of a connection\<close>

text \<open>
  A connection with both threads has an open socket and hands the streams the \<open>SSL\<close> object when it is a TLS connection and
  the descriptor otherwise (\<open>linked\<close>). Its streams are in order when their functions are those for what they are
  handed: the TLS functions exactly on a TLS connection (\<open>conn_ok\<close>).
\<close>

definition linked :: "('b, 'o, 'q) mnhttpc_connection \<Rightarrow> bool" where
  "linked c \<longleftrightarrow> (c_ssl c \<longrightarrow> c_sslctx c) \<and>
     (send_thread c \<noteq> None \<and> recv_thread c \<noteq> None \<longrightarrow>
        c_fd c \<noteq> -1 \<and> c_ssl c = c_sslctx c \<and> c_fp c = (if c_sslctx c then Fp_ssl else Fp_fd (c_fd c)))"

definition conn_ok :: "('b, 'o, 'q) mnhttpc_connection \<Rightarrow> bool" where
  "conn_ok c \<longleftrightarrow> c_in_tls c = c_sslctx c \<and> c_out_tls c = c_sslctx c \<and> linked c"

text \<open>What only making and collecting a connection sets.\<close>

definition same_tls :: "('b, 'o, 'q) mnhttpc_connection \<Rightarrow> ('b, 'o, 'q) mnhttpc_connection \<Rightarrow> bool" where
  "same_tls c c' \<longleftrightarrow> c_sslctx c' = c_sslctx c \<and> c_in_tls c' = c_in_tls c \<and> c_out_tls c' = c_out_tls c"

text \<open>
  What happens to a connection of a client: it is hashed, connected if need be, closed, its streams and its queue are
  used, and its threads end. \<open>conn_reach c0 g c\<close>: the connection \<open>c0\<close> has become \<open>c\<close>, by these steps and by
  \<open>mnhttpc_connection_gc\<close>; \<open>g\<close> tells whether some collection got the semaphore.
\<close>

inductive conn_step ::
  "'b bytes_env \<Rightarrow> ('w, 'o) net_env \<Rightarrow> ('b, 'o, 'q) mnhttpc_connection \<Rightarrow> ('b, 'o, 'q) mnhttpc_connection \<Rightarrow> bool"
  for be :: "'b bytes_env" and net :: "('w, 'o) net_env" where
  hashed: "mnhttpc_connection_hash bh fh c = (h, c') \<Longrightarrow> conn_step be net c c'"
| ensure: "mnhttpc_connection_ensure_connected n be net c w = Returned (r, c', w') \<Longrightarrow> conn_step be net c c'"
| close: "mnhttpc_connection_close net c w = (c', w') \<Longrightarrow> conn_step be net c c'"
| streams: "conn_step be net c (c\<lparr>c_in := i, c_out := out, c_requests := q\<rparr>)"
| sent: "mnhttpc_connection_send_worker n produce rewind subscribe fini c (w :: 'w) = Returned (c', w') \<Longrightarrow> conn_step be net c c'"
| received: "conn_step be net c (c\<lparr>recv_thread := None\<rparr>)"

inductive conn_reach ::
  "'b bytes_env \<Rightarrow> ('w, 'o) net_env \<Rightarrow> ('b, 'o, 'q) mnhttpc_connection \<Rightarrow> bool \<Rightarrow> ('b, 'o, 'q) mnhttpc_connection \<Rightarrow> bool"
  for be :: "'b bytes_env" and net :: "('w, 'o) net_env" and c0 :: "('b, 'o, 'q) mnhttpc_connection" where
  made: "conn_reach be net c0 False c0"
| step: "conn_reach be net c0 g c \<Longrightarrow> conn_step be net c c' \<Longrightarrow> conn_reach be net c0 g c'"
| collected: "conn_reach be net c0 g c \<Longrightarrow> mnhttpc_connection_gc net acquired c = (r, c') \<Longrightarrow> conn_reach be net c0 (g \<or> r = 0) c'"

lemmas linked_defs = linked_def same_tls_def

lemma new_ok [simp]:
  "conn_ok (mnhttpc_connection_new net ph pp h p scheme)" "c_sslctx (mnhttpc_connection_new net ph pp h p scheme) \<longleftrightarrow> scheme = 1"
  "linked (mnhttpc_connection_new net ph pp h p scheme)"
  "c_in_tls (mnhttpc_connection_new net ph pp h p scheme) \<longleftrightarrow> scheme = 1" "c_out_tls (mnhttpc_connection_new net ph pp h p scheme) \<longleftrightarrow> scheme = 1"
  by (simp_all add: conn_ok_def linked_def mnhttpc_connection_new_def mnhttpc_connection_init_def Let_def)

lemma close_linked:
  "mnhttpc_connection_close net c w = (c', w') \<Longrightarrow>
     linked c' \<and> same_tls c c' \<and> \<not> c_ssl c' \<and> send_thread c' = None \<and> recv_thread c' = None"
  by (auto simp: mnhttpc_connection_close_def linked_defs Let_def)

lemma ssl_init_ok:
  assumes "mnhttpc_connection_ssl_init n net c w = Returned (r, c', w')"
  shows "c' = c\<lparr>c_ssl := c_ssl c', c_fp := c_fp c'\<rparr>" and "c_ssl c' = (if c_sslctx c then True else c_ssl c)"
    and "c_fp c' = (if c_sslctx c then Fp_ssl else c_fp c)"
  using assms by (auto simp: mnhttpc_connection_ssl_init_def Let_def split: if_split_asm outcome.split_asm)

lemma connect_linked:
  assumes "mnhttpc_connection_connect n be net c w = Returned (r, c', w')" and "linked c"
    and "send_thread c = None" and "recv_thread c = None" and "\<not> c_ssl c"
  shows "linked c' \<and> same_tls c c' \<and> (r = RC 0 \<longrightarrow> send_thread c' \<noteq> None \<and> recv_thread c' \<noteq> None)"
proof -
  obtain h p where hp: "h = the (Option.bind (if proxy_host c \<noteq> None then proxy_host c else c_host c) (BCDATA be))"
      "p = the (Option.bind (if proxy_port c \<noteq> None then proxy_port c else c_port c) (BCDATA be))" by blast
  obtain fd w1 where s: "mnthr_socket_connect net h p w = (fd, w1)" by fastforce
  show ?thesis
  proof (cases "fd = -1")
    case True
    then have "c' = c\<lparr>c_fd := -1\<rparr>" "r = ERR MNHTTPC_CONNECTION_CONNECT 1"
      using assms(1) s hp by (auto simp: mnhttpc_connection_connect_def Let_def split: if_split_asm option.split_asm)
    then show ?thesis using assms(2-5) by (simp add: linked_defs)
  next
    case False
    let ?c1 = "c\<lparr>c_fd := fd, c_fp := Fp_fd fd\<rparr>"
    obtain t0 w1' where t0: "net_spawn net ''sslinit'' w1 = (t0, w1')" by fastforce
    obtain q c2 w2 where i: "mnhttpc_connection_ssl_init n net ?c1 w1' = Returned (q, c2, w2)"
      using assms(1) s hp False t0
      by (auto simp: mnhttpc_connection_connect_def Let_def split: if_split_asm option.split_asm outcome.split_asm)
    note i2 = ssl_init_ok [OF i]
    have c2: "c2 = c\<lparr>c_fd := fd, c_ssl := c_sslctx c, c_fp := (if c_sslctx c then Fp_ssl else Fp_fd fd)\<rparr>"
      using i2 assms(5) by (cases "c_sslctx c") simp_all
    obtain j w2' where j: "net_join net t0 q w2 = (j, w2')" by fastforce
    obtain t w3 t' w4 where sp: "net_spawn net ''httpsnd'' w2' = (t, w3)" "net_spawn net ''httprcv'' w3 = (t', w4)" by fastforce
    have "r = RC j \<and> c' = (if j = 0 then c2\<lparr>send_thread := Some t, recv_thread := Some t'\<rparr> else c2)"
      using assms(1) s hp False t0 i j sp
      by (auto simp: mnhttpc_connection_connect_def Let_def split: if_split_asm option.split_asm)
    then show ?thesis using assms(2-4) c2 False by (auto simp: linked_defs)
  qed
qed

lemma ensure_linked:
  assumes "mnhttpc_connection_ensure_connected n be net c w = Returned (r, c', w')" and "linked c"
  shows "linked c' \<and> same_tls c c' \<and> (r = RC 0 \<longrightarrow> send_thread c' \<noteq> None \<and> recv_thread c' \<noteq> None)"
proof (cases "send_thread c \<noteq> None \<and> recv_thread c \<noteq> None")
  case True
  then show ?thesis using assms by (simp add: mnhttpc_connection_ensure_connected_def same_tls_def)
next
  case False
  obtain c1 w1 where cl: "mnhttpc_connection_close net c w = (c1, w1)" by fastforce
  note k = close_linked [OF cl]
  have "mnhttpc_connection_connect n be net c1 w1 = Returned (r, c', w')"
    using assms(1) False cl by (auto simp: mnhttpc_connection_ensure_connected_def split: if_split_asm)
  from connect_linked [OF this] k show ?thesis by (simp add: same_tls_def)
qed

lemma step_linked: "conn_step be net c c' \<Longrightarrow> linked c \<Longrightarrow> linked c' \<and> same_tls c c'"
proof (induction rule: conn_step.induct)
  case (ensure n c w r c' w')
  show ?case using ensure_linked [OF ensure(1,2)] by simp
next
  case (close c w c' w')
  show ?case using close_linked [OF close(1)] by simp
qed (auto simp: linked_defs mnhttpc_connection_hash_def mnhttpc_connection_send_worker_def Let_def split: outcome.split_asm prod.split_asm)

lemma reach_linked:
  "conn_reach be net c0 g c \<Longrightarrow> conn_ok c0 \<Longrightarrow>
     linked c \<and> c_sslctx c = c_sslctx c0 \<and> c_in_tls c = (c_sslctx c0 \<and> \<not> g) \<and> c_out_tls c = (c_sslctx c0 \<and> \<not> g)"
proof (induction rule: conn_reach.induct)
  case (step g c c')
  then show ?case using step_linked [OF step(2)] by (simp add: same_tls_def)
next
  case (collected g c acquired r c')
  then show ?case by (auto simp: mnhttpc_connection_gc_def linked_def split: if_split_asm)
qed (simp add: conn_ok_def)

text \<open>
  C15. However a connection of the client is connected, used, closed, reconnected and collected, whenever both its
  threads run it has a socket, and the streams are given the \<open>SSL\<close> object when it was made for a TLS scheme and the
  descriptor otherwise. The functions of its streams are those for TLS exactly when it was made for a TLS scheme and no
  collection has replaced the streams, so that a connection that is not collected is in order (\<open>conn_ok\<close>), and so is every
  plain one. After a successful \<open>mnhttpc_connection_ensure_connected\<close> both threads run and the same holds.
\<close>

theorem connection_invariant:
  assumes "conn_reach be net (mnhttpc_connection_new net ph pp h p scheme) g c"
  shows "linked c \<and> c_sslctx c = (scheme = 1) \<and> c_in_tls c = (scheme = 1 \<and> \<not> g) \<and> c_out_tls c = (scheme = 1 \<and> \<not> g) \<and>
    (conn_ok c \<longleftrightarrow> \<not> g \<or> scheme \<noteq> 1) \<and>
    (\<forall>n w c' w'. mnhttpc_connection_ensure_connected n be net c w = Returned (RC 0, c', w') \<longrightarrow>
      send_thread c' \<noteq> None \<and> recv_thread c' \<noteq> None \<and> linked c' \<and> same_tls c c')"
proof -
  have "linked c \<and> c_sslctx c = (scheme = 1) \<and> c_in_tls c = (scheme = 1 \<and> \<not> g) \<and> c_out_tls c = (scheme = 1 \<and> \<not> g)"
    using reach_linked [OF assms] by simp
  then show ?thesis using ensure_linked [of _ be net c] by (auto simp: conn_ok_def)
qed

text \<open>A network on which every call succeeds at once.\<close>

definition easy_net :: "(unit, string) net_env" where
  "easy_net = \<lparr>stream_in_new = \<lparr>sbuf = [], saddr = 0, seod = 0, spos = 0\<rparr>, stream_out_new = [],
     mnthr_socket_connect = (\<lambda>h p w. (5, w)), net_close = (\<lambda>d w. w), net_spawn = (\<lambda>n w. (1, w)), net_interrupt_join = (\<lambda>t w. w),
     net_join = (\<lambda>t q w. (q, w)), SSL_shutdown_free = (\<lambda>w. w), SSL_connect = (\<lambda>d w. (1, w)), SSL_connect_error = (\<lambda>r w. 1),
     net_wait_for_read = (\<lambda>d w. (0, w)), net_wait_for_write = (\<lambda>d w. (0, w))\<rparr>"

abbreviation easy_conn :: "int \<Rightarrow> (string, string, nat) mnhttpc_connection" where
  "easy_conn sch \<equiv> mnhttpc_connection_new easy_net None None (''h'' @ [NUL]) (''443'' @ [NUL]) sch"

lemma easy_connect:
  "\<exists>c. mnhttpc_connection_ensure_connected 1 list_bytes easy_net (easy_conn 1) () = Returned (RC 0, c, ()) \<and> c_fp c = Fp_ssl"
  by (simp add: mnhttpc_connection_ensure_connected_def mnhttpc_connection_close_def mnhttpc_connection_connect_def
      mnhttpc_connection_new_def mnhttpc_connection_init_def mnhttpc_connection_ssl_init_def easy_net_def ssl_round_def
      list_bytes_def BCDATA_def cstring_def join_opt_def Let_def)

theorem connection_invariant_witness:
  "\<exists>c. conn_ok c \<and> c_sslctx c \<and> send_thread c \<noteq> None \<and> \<not> conn_ok (snd (mnhttpc_connection_gc easy_net 0 c)) \<and>
     mnhttpc_connection_ensure_connected 1 list_bytes easy_net (easy_conn 1) () = Returned (RC 0, c, ())"
proof -
  obtain c where c: "mnhttpc_connection_ensure_connected 1 list_bytes easy_net (easy_conn 1) () = Returned (RC 0, c, ())"
    using easy_connect by blast
  obtain c' where g: "mnhttpc_connection_gc easy_net 0 c = (0, c')" by (simp add: mnhttpc_connection_gc_def)
  have r0: "conn_reach list_bytes easy_net (easy_conn 1) False (easy_conn 1)" by (rule conn_reach.made)
  have r1: "conn_reach list_bytes easy_net (easy_conn 1) False c" by (rule conn_reach.step [OF r0 conn_step.ensure [OF c]])
  have r2: "conn_reach list_bytes easy_net (easy_conn 1) True c'" using conn_reach.collected [OF r1 g] by simp
  show ?thesis using connection_invariant [OF r0] connection_invariant [OF r1] connection_invariant [OF r2] c g by auto
qed

text \<open>
  C35. \<open>mnhttpc_gc\<close> breaks TLS connections: after collecting a connection that is connected over TLS, its streams
  use the plain functions but are still given the \<open>SSL\<close> object, whose address is then taken for a descriptor.
\<close>

theorem gc_drops_tls:
  assumes "conn_ok c" and "c_sslctx c" and "send_thread c \<noteq> None" and "recv_thread c \<noteq> None"
    and "mnhttpc_connection_gc net 0 c = (r, c')"
  shows "r = 0 \<and> c_fp c' = Fp_ssl \<and> \<not> c_in_tls c' \<and> \<not> c_out_tls c' \<and> \<not> conn_ok c'"
  using assms by (auto simp: mnhttpc_connection_gc_def conn_ok_def linked_def)

theorem gc_drops_tls_witness:
  "\<exists>c. mnhttpc_connection_ensure_connected 1 list_bytes easy_net (easy_conn 1) () = Returned (RC 0, c, ()) \<and>
     \<not> conn_ok (snd (mnhttpc_connection_gc easy_net 0 c))"
proof -
  obtain c where c: "mnhttpc_connection_ensure_connected 1 list_bytes easy_net (easy_conn 1) () = Returned (RC 0, c, ())"
    using easy_connect by blast
  have ok: "conn_ok c" "c_sslctx c" "send_thread c \<noteq> None" "recv_thread c \<noteq> None"
    using ensure_linked [OF c] by (simp_all add: conn_ok_def same_tls_def)
  obtain r c' where "mnhttpc_connection_gc easy_net 0 c = (r, c')" by fastforce
  then show ?thesis using gc_drops_tls [OF ok] c by auto
qed

text \<open>
  The bytes other threads have written, those taken by the connection, and those waiting in the stream: the connection takes a
  beginning of what waits, everything on success; rewinding empties the stream, whatever waits in it; what other
  threads write while the worker sleeps comes behind what waits.
\<close>

locale send_law =
  fixes produce :: "'o \<Rightarrow> 'w \<Rightarrow> int \<times> 'o \<times> 'w" and rewind :: "'o \<Rightarrow> 'o" and subscribe :: "'o \<Rightarrow> 'w \<Rightarrow> int \<times> 'o \<times> 'w"
    and signal_fini :: "'w \<Rightarrow> 'w" and pending :: "'o \<Rightarrow> string" and sent :: "'w \<Rightarrow> string" and written :: "'w \<Rightarrow> string"
  assumes produce_order: "produce out w = (r, out', w') \<Longrightarrow>
      sent w' @ pending out' = sent w @ pending out \<and> written w' = written w \<and> (r = 0 \<longrightarrow> pending out' = [])"
    and rewind_empties: "pending (rewind out) = []"
    and subscribe_writes: "subscribe out w = (r, out', w') \<Longrightarrow>
      \<exists>t. pending out' = pending out @ t \<and> written w' = written w @ t \<and> sent w' = sent w"
    and fini_quiet: "sent (signal_fini w) = sent w \<and> written (signal_fini w) = written w"
begin

lemma round_order:
  assumes "written w = sent w @ pending out" and "send_round produce rewind subscribe (out, w) = Some r"
  shows "\<exists>out' w'. (r = Inl (out', w') \<or> r = Inr (out', w')) \<and> written w' = sent w' @ pending out'"
proof -
  obtain p o1 w1 where p: "produce out w = (p, o1, w1)" by (cases "produce out w")
  obtain q o2 w2 where q: "subscribe (rewind o1) w1 = (q, o2, w2)" by (cases "subscribe (rewind o1) w1")
  have "r = (if p \<noteq> 0 then Inr (o1, w1) else if q \<noteq> 0 then Inr (o2, w2) else Inl (o2, w2))"
    using assms(2) p q by (auto simp: send_round_def split: if_split_asm)
  moreover have "written w1 = sent w1 @ pending o1" using produce_order [OF p] assms(1) by simp
  moreover have "written w2 = sent w2 @ pending o2" if "p = 0"
    using subscribe_writes [OF q] rewind_empties [of o1] produce_order [OF p] calculation(2) that by auto
  ultimately show ?thesis by auto
qed

lemma worker_order:
  assumes "run_steps n (send_round produce rewind subscribe) (out, w) = Returned x" and "written w = sent w @ pending out"
  shows "written (snd x) = sent (snd x) @ pending (fst x)"
proof (rule run_steps_keeps [of "\<lambda>s. written (snd s) = sent (snd s) @ pending (fst s)", OF _ _ assms(1)])
  show "written (snd (out, w)) = sent (snd (out, w)) @ pending (fst (out, w))" using assms(2) by simp
  show "(\<exists>s'. r = Inl s' \<and> written (snd s') = sent (snd s') @ pending (fst s')) \<or>
      (\<exists>x. r = Inr x \<and> written (snd x) = sent (snd x) @ pending (fst x))"
    if "written (snd s) = sent (snd s) @ pending (fst s)" "send_round produce rewind subscribe s = Some r" for s r
    using round_order [of "snd s" "fst s" r] that by auto
qed

end

text \<open>A stream that is its content, a connection that takes everything, and a script of what others write.\<close>

record script_out =
  so_sent :: string
  so_written :: string
  so_script :: "string list"

definition script_produce :: "string \<Rightarrow> script_out \<Rightarrow> int \<times> string \<times> script_out" where
  "script_produce out w = (0, [], w\<lparr>so_sent := so_sent w @ out\<rparr>)"

definition script_subscribe :: "string \<Rightarrow> script_out \<Rightarrow> int \<times> string \<times> script_out" where
  "script_subscribe out w = (case so_script w of
     [] \<Rightarrow> (-1, out, w) | t # ts \<Rightarrow> (0, out @ t, w\<lparr>so_written := so_written w @ t, so_script := ts\<rparr>))"

interpretation script_out: send_law script_produce "\<lambda>out. []" script_subscribe "\<lambda>w. w" "\<lambda>out. out" so_sent so_written
  by unfold_locales (auto simp: script_produce_def script_subscribe_def split: list.split_asm)



end
