(* ===== verification/HttpcClient.thy ===== *)
theory HttpcClient
  imports HttpcRequest HttpcConn HttpUriWrite HttpRoundtrip
begin

text \<open>
  The HTTP client of src/src/mnhttpc.c: the table of connections, \<open>mnhttpc_new\<close>, which makes a request and finds its
  connection, and \<open>mnhttpc_request_finalize\<close>, which connects, writes the request, queues it and waits for the response.
  The hash table is the list of its keys in the order they were set; looking up finds a key that compares equal.
\<close>

section \<open>The table of connections\<close>

type_synonym ('b, 'o, 'q) mnhttpc = "('b, 'o, 'q) mnhttpc_connection list"

definition mnhttpc_init :: "('b, 'o, 'q) mnhttpc" where
  "mnhttpc_init = []"

fun mnhttpc_fini :: "('w, 'o) net_env \<Rightarrow> ('b, 'o, 'q) mnhttpc \<Rightarrow> 'w \<Rightarrow> ('b, 'o, 'q) mnhttpc \<times> 'w" where
  "mnhttpc_fini net [] w = ([], w)"
| "mnhttpc_fini net (c # cs) w = mnhttpc_fini net cs (snd (mnhttpc_connection_destroy net (Some c) w))"

text \<open>A traversal ends at the first callback that fails; \<open>acquire\<close> gives the result of each semaphore.\<close>

fun mnhttpc_gc :: "('w, 'o) net_env \<Rightarrow> (nat \<Rightarrow> int) \<Rightarrow> nat \<Rightarrow> ('b, 'o, 'q) mnhttpc \<Rightarrow> ('b, 'o, 'q) mnhttpc" where
  "mnhttpc_gc net acquire i [] = []"
| "mnhttpc_gc net acquire i (c # cs) =
     (case mnhttpc_connection_gc net (acquire i) c of (r, c') \<Rightarrow>
        if r \<noteq> 0 then c' # cs else c' # mnhttpc_gc net acquire (Suc i) cs)"

fun find_conn ::
  "('b \<Rightarrow> 64 word) \<Rightarrow> (64 word \<Rightarrow> 64 word \<Rightarrow> 64 word) \<Rightarrow> ('b, 'o, 'q) mnhttpc_connection \<Rightarrow> ('b, 'o, 'q) mnhttpc \<Rightarrow> nat option" where
  "find_conn bh fh k [] = None"
| "find_conn bh fh k (c # cs) =
     (if mnhttpc_connection_cmp bh fh c k = 0 then Some 0 else map_option Suc (find_conn bh fh k cs))"

section \<open>A new request\<close>

text \<open>The key that is looked up: a connection of which only the address fields are set.\<close>

definition probe :: "('w, 'o) net_env \<Rightarrow> 'b option \<Rightarrow> 'b option \<Rightarrow> 'b \<Rightarrow> 'b \<Rightarrow> ('b, 'o, 'q) mnhttpc_connection" where
  "probe net ph pp h p = (mnhttpc_connection_init net 0)\<lparr>proxy_host := ph, proxy_port := pp, c_host := Some h, c_port := Some p\<rparr>"

definition mnhttpc_new ::
  "'b bytes_env \<Rightarrow> ('b, 'h) hash_env \<Rightarrow> ('w, 'o) net_env \<Rightarrow> ('b \<Rightarrow> 64 word) \<Rightarrow> (64 word \<Rightarrow> 64 word \<Rightarrow> 64 word) \<Rightarrow>
   ('b, 'o, 'q) mnhttpc \<Rightarrow> 'b option \<Rightarrow> 'b option \<Rightarrow> 'b \<Rightarrow> string \<Rightarrow> ('o \<Rightarrow> 'u \<Rightarrow> int \<times> 'o \<times> 'u) option \<Rightarrow> 'u \<Rightarrow>
   'u mnhttp_cb option \<Rightarrow> (('b, 'h, 'o, 'u) mnhttpc_request option \<times> ('b, 'o, 'q) mnhttpc) option" where
  "mnhttpc_new be he net bh fh cli ph pp uri meth ob u ib = do {
     let req0 = (mnhttpc_request_init he u)\<lparr>out_body_cb := ob, in_body_cb := ib\<rparr>;
     s \<leftarrow> BCDATA be uri;
     puri \<leftarrow> mnhttp_uri_parse be (o_uri (request req0)) s;
     let req1 = req0\<lparr>request := (request req0)\<lparr>o_method := Some meth, o_uri := puri\<rparr>\<rparr>;
     if bytes_is_null_or_empty be (host puri) \<or> bytes_is_null_or_empty be (port puri) \<or>
        bytes_is_null_or_empty be (relative puri) \<or> bytes_is_null_or_empty be (path puri)
     then Some (None, cli)
     else do {
       h \<leftarrow> host puri;
       p \<leftarrow> port puri;
       let (i, cli1) = (case find_conn bh fh (probe net ph pp h p) cli of
           None \<Rightarrow> (length cli, cli @ [mnhttpc_connection_new net ph pp h p (scheme puri)])
         | Some i \<Rightarrow> (i, cli));
       if bytes_cmp be (c_host (cli1 ! i)) (Some h) = 0 \<and> bytes_cmp be (c_port (cli1 ! i)) (Some p) = 0
       then Some (Some (req1\<lparr>connection := Some i\<rparr>), cli1) else None
     }
   }"

text \<open>The two macros of src/src/mnhttpc.h: a \<open>GET\<close> has no body of its own.\<close>

definition mnhttpc_get_new ::
  "'b bytes_env \<Rightarrow> ('b, 'h) hash_env \<Rightarrow> ('w, 'o) net_env \<Rightarrow> ('b \<Rightarrow> 64 word) \<Rightarrow> (64 word \<Rightarrow> 64 word \<Rightarrow> 64 word) \<Rightarrow>
   ('b, 'o, 'q) mnhttpc \<Rightarrow> 'b option \<Rightarrow> 'b option \<Rightarrow> 'b \<Rightarrow> 'u \<Rightarrow> 'u mnhttp_cb option \<Rightarrow>
   (('b, 'h, 'o, 'u) mnhttpc_request option \<times> ('b, 'o, 'q) mnhttpc) option" where
  "mnhttpc_get_new be he net bh fh cli ph pp uri u ib = mnhttpc_new be he net bh fh cli ph pp uri ''GET'' None u ib"

definition mnhttpc_post_new ::
  "'b bytes_env \<Rightarrow> ('b, 'h) hash_env \<Rightarrow> ('w, 'o) net_env \<Rightarrow> ('b \<Rightarrow> 64 word) \<Rightarrow> (64 word \<Rightarrow> 64 word \<Rightarrow> 64 word) \<Rightarrow>
   ('b, 'o, 'q) mnhttpc \<Rightarrow> 'b option \<Rightarrow> 'b option \<Rightarrow> 'b \<Rightarrow> ('o \<Rightarrow> 'u \<Rightarrow> int \<times> 'o \<times> 'u) option \<Rightarrow> 'u \<Rightarrow>
   'u mnhttp_cb option \<Rightarrow> (('b, 'h, 'o, 'u) mnhttpc_request option \<times> ('b, 'o, 'q) mnhttpc) option" where
  "mnhttpc_post_new be he net bh fh cli ph pp uri ob u ib = mnhttpc_new be he net bh fh cli ph pp uri ''POST'' ob u ib"

section \<open>Finalizing\<close>

text \<open>The results of the functions that write fields are ignored. \<open>version\<close> is \<open>PACKAGE/VERSION\<close>.\<close>

fun write_fields :: "'b bytes_env \<Rightarrow> 'o out_env \<Rightarrow> 'o \<Rightarrow> ('b \<times> 'b) list \<Rightarrow> 'o option" where
  "write_fields be oe out [] = Some out"
| "write_fields be oe out ((n, v) # items) = do {
     (r, out1) \<leftarrow> http_field_addb be oe out (Some n) (Some v);
     write_fields be oe out1 items
   }"

text \<open>What is written to the connection's stream: \<open>Inl\<close> when the request line could not be.\<close>

definition finalize_write ::
  "'b bytes_env \<Rightarrow> ('b, 'h) hash_env \<Rightarrow> 'o out_env \<Rightarrow> string \<Rightarrow> int \<Rightarrow> ('b, 'h, 'o, 'u) mnhttpc_request \<Rightarrow> 'o \<Rightarrow>
   ('o + 'o \<times> 'u) option" where
  "finalize_write be he oe version now req out = do {
     meth \<leftarrow> o_method (request req);
     let uri = o_uri (request req);
     (r, out1) \<leftarrow> mnhttp_uri_start_request be he oe uri out meth;
     if r \<noteq> RC 0 then Some (Inl out1) else do {
       (r2, out2) \<leftarrow> http_field_addt be oe out1 (bytes_new_from_str be ''Date'') now;
       h \<leftarrow> Option.bind (host uri) (BCDATA be);
       p \<leftarrow> Option.bind (port uri) (BCDATA be);
       (r3, out3) \<leftarrow> http_field_addf be oe out2 (Some (bytes_new_from_str be ''Host'')) (bytes_new_from_str be (h @ '':'' @ p));
       (r4, out4) \<leftarrow> http_field_addf be oe out3 (Some (bytes_new_from_str be ''User-Agent'')) (bytes_new_from_str be version);
       out5 \<leftarrow> write_fields be oe out4 (hash_items he (o_headers (request req)));
       let out6 = snd (http_end_of_header oe out5);
       Some (Inr (case out_body_cb req of
           None \<Rightarrow> (out6, r_user req)
         | Some f \<Rightarrow> (case f out6 (r_user req) of (n, out7, u) \<Rightarrow> (out7, u))))
     }
   }"

text \<open>
  The semaphore, the signals and the wait for the response: each may let other threads run, which use the
  connection.
\<close>

record ('c, 'w) sync_env =
  sema_acquire :: "'c \<Rightarrow> 'w \<Rightarrow> int \<times> 'c \<times> 'w"
  sema_release :: "'c \<Rightarrow> 'w \<Rightarrow> 'c \<times> 'w"
  signal_send :: "'c \<Rightarrow> 'w \<Rightarrow> 'c \<times> 'w"
  signal_subscribe :: "'c \<Rightarrow> 'w \<Rightarrow> int \<times> 'c \<times> 'w"

definition released :: "('c, 'w) sync_env \<Rightarrow> res \<Rightarrow> 'c \<Rightarrow> 'w \<Rightarrow> ('x, res \<times> 'c \<times> 'w) outcome" where
  "released sync r c w = Returned (r, sema_release sync c w)"

definition mnhttpc_request_finalize ::
  "nat \<Rightarrow> 'b bytes_env \<Rightarrow> ('b, 'h) hash_env \<Rightarrow> 'o out_env \<Rightarrow> ('w, 'o) net_env \<Rightarrow>
   (('b, 'o, ('b, 'h, 'o, 'u) mnhttpc_request) mnhttpc_connection, 'w) sync_env \<Rightarrow> string \<Rightarrow> int \<Rightarrow>
   ('b, 'h, 'o, 'u) mnhttpc_request \<Rightarrow> ('b, 'o, ('b, 'h, 'o, 'u) mnhttpc_request) mnhttpc_connection \<Rightarrow> 'w \<Rightarrow>
   ('w, res \<times> ('b, 'o, ('b, 'h, 'o, 'u) mnhttpc_request) mnhttpc_connection \<times> 'w) outcome" where
  "mnhttpc_request_finalize n be he oe net sync version now req conn w =
     (case sema_acquire sync conn w of (r, conn1, w1) \<Rightarrow>
        if r \<noteq> 0 then Returned (ERR MNHTTPC_REQUEST_FINALIZE 1, conn1, w1)
        else case mnhttpc_connection_ensure_connected n be net conn1 w1 of
          Undefined \<Rightarrow> Undefined
        | Running w2 \<Rightarrow> Running w2
        | Returned (r2, conn2, w2) \<Rightarrow>
            if r2 \<noteq> RC 0 then released sync (ERR MNHTTPC_REQUEST_FINALIZE 2) conn2 w2
            else case finalize_write be he oe version now req (c_out conn2) of
              None \<Rightarrow> Undefined
            | Some (Inl out) \<Rightarrow> released sync (ERR MNHTTPC_REQUEST_FINALIZE 3) (conn2\<lparr>c_out := out\<rparr>) w2
            | Some (Inr (out, u)) \<Rightarrow>
                (case signal_send sync (conn2\<lparr>c_out := out, c_requests := c_requests conn2 @ [req\<lparr>r_user := u\<rparr>]\<rparr>) w2 of
                   (conn3, w3) \<Rightarrow>
                     (case signal_subscribe sync conn3 w3 of (r4, conn4, w4) \<Rightarrow> released sync (RC r4) conn4 w4)))"

section \<open>Keys\<close>

text \<open>The address of a connection, its hash, and equality of addresses by content.\<close>

type_synonym 'b key = "'b option \<times> 'b option \<times> 'b option \<times> 'b option"

definition conn_key :: "('b, 'o, 'q) mnhttpc_connection \<Rightarrow> 'b key" where
  "conn_key c = (proxy_host c, proxy_port c, c_host c, c_port c)"

definition key_hash :: "('b \<Rightarrow> 64 word) \<Rightarrow> (64 word \<Rightarrow> 64 word \<Rightarrow> 64 word) \<Rightarrow> 'b key \<Rightarrow> 64 word" where
  "key_hash bh fh = (\<lambda>(ph, pp, h, p). hash_mix bh fh p (hash_mix bh fh h (hash_mix bh fh pp
     (case ph of None \<Rightarrow> 0 | Some x \<Rightarrow> bh x))))"

definition same_key :: "'b bytes_env \<Rightarrow> 'b key \<Rightarrow> 'b key \<Rightarrow> bool" where
  "same_key be = (\<lambda>(ph, pp, h, p) (ph', pp', h', p').
     map_option (BDATA be) ph = map_option (BDATA be) ph' \<and> map_option (BDATA be) pp = map_option (BDATA be) pp' \<and>
     map_option (BDATA be) h = map_option (BDATA be) h' \<and> map_option (BDATA be) p = map_option (BDATA be) p')"

text \<open>A cached hash is either unset or the right one; no two connections have the same hash.\<close>

definition cached_ok :: "('b \<Rightarrow> 64 word) \<Rightarrow> (64 word \<Rightarrow> 64 word \<Rightarrow> 64 word) \<Rightarrow> ('b, 'o, 'q) mnhttpc_connection \<Rightarrow> bool" where
  "cached_ok bh fh c \<longleftrightarrow> c_hash c = 0 \<or> c_hash c = key_hash bh fh (conn_key c)"

definition client_ok :: "('b \<Rightarrow> 64 word) \<Rightarrow> (64 word \<Rightarrow> 64 word \<Rightarrow> 64 word) \<Rightarrow> ('b, 'o, 'q) mnhttpc \<Rightarrow> bool" where
  "client_ok bh fh cli \<longleftrightarrow>
     list_all (\<lambda>c. cached_ok bh fh c \<and> c_host c \<noteq> None \<and> c_port c \<noteq> None) cli \<and>
     distinct (map (\<lambda>c. key_hash bh fh (conn_key c)) cli)"

text \<open>A hash of byte strings that depends on their content only.\<close>

definition content_hash :: "'b bytes_env \<Rightarrow> ('b \<Rightarrow> 64 word) \<Rightarrow> bool" where
  "content_hash be bh \<longleftrightarrow> (\<forall>x y. BDATA be x = BDATA be y \<longrightarrow> bh x = bh y)"

text \<open>Caching the hash changes no later result.\<close>

lemma hash_cached: "fst (mnhttpc_connection_hash bh fh (snd (mnhttpc_connection_hash bh fh c))) = fst (mnhttpc_connection_hash bh fh c)"
  by (simp add: mnhttpc_connection_hash_def Let_def)

lemma hash_key: "cached_ok bh fh c \<Longrightarrow> fst (mnhttpc_connection_hash bh fh c) = key_hash bh fh (conn_key c)"
  by (auto simp: mnhttpc_connection_hash_def key_hash_def conn_key_def cached_ok_def Let_def)

lemma cmp_key:
  "cached_ok bh fh c \<Longrightarrow> cached_ok bh fh d \<Longrightarrow>
     mnhttpc_connection_cmp bh fh c d = 0 \<longleftrightarrow> key_hash bh fh (conn_key c) = key_hash bh fh (conn_key d)"
  by (auto simp: mnhttpc_connection_cmp_def Let_def hash_key)

lemma same_key_hash:
  assumes "content_hash be bh" and "same_key be k k'"
  shows "key_hash bh fh k = key_hash bh fh k'"
proof -
  have bh: "BDATA be x = BDATA be y \<Longrightarrow> bh x = bh y" for x y
    using assms(1) unfolding content_hash_def by blast
  have m: "hash_mix bh fh a s = hash_mix bh fh b s" if e: "map_option (BDATA be) a = map_option (BDATA be) b" for a b s
  proof (cases a)
    case (Some x)
    then obtain y where "b = Some y" "BDATA be x = BDATA be y" using e by (cases b) auto
    then show ?thesis using Some bh [of x y] by (simp add: hash_mix_def)
  qed (use e in \<open>simp add: hash_mix_def\<close>)
  have p: "(case a of None \<Rightarrow> 0 | Some x \<Rightarrow> bh x) = (case b of None \<Rightarrow> 0 | Some x \<Rightarrow> bh x)"
    if e: "map_option (BDATA be) a = map_option (BDATA be) b" for a b
  proof (cases a)
    case (Some x)
    then obtain y where "b = Some y" "BDATA be x = BDATA be y" using e by (cases b) auto
    then show ?thesis using Some bh [of x y] by simp
  qed (use e in simp)
  obtain a1 a2 a3 a4 where k1: "k = (a1, a2, a3, a4)" by (cases k rule: prod_cases4)
  obtain b1 b2 b3 b4 where k2: "k' = (b1, b2, b3, b4)" by (cases k' rule: prod_cases4)
  show ?thesis
    using assms(2) m [of a2 b2] m [of a3 b3] m [of a4 b4] p [of a1 b1] by (simp add: k1 k2 key_hash_def same_key_def)
qed

lemma find_conn_Some: "find_conn bh fh k cs = Some i \<Longrightarrow> i < length cs \<and> mnhttpc_connection_cmp bh fh (cs ! i) k = 0"
  by (induction cs arbitrary: i) (auto split: if_split_asm)

lemma find_conn_None: "find_conn bh fh k cs = None \<longleftrightarrow> (\<forall>c \<in> set cs. mnhttpc_connection_cmp bh fh c k \<noteq> 0)"
  by (induction cs) auto

lemma new_conn_simps [simp]:
  "cached_ok bh fh (probe net ph pp h p)" "conn_key (probe net ph pp h p) = (ph, pp, Some h, Some p)"
  "cached_ok bh fh (mnhttpc_connection_new net ph pp h p sch)"
  "conn_key (mnhttpc_connection_new net ph pp h p sch) = (ph, pp, Some h, Some p)"
  "c_host (mnhttpc_connection_new net ph pp h p sch) = Some h" "c_port (mnhttpc_connection_new net ph pp h p sch) = Some p"
  by (simp_all add: probe_def mnhttpc_connection_new_def mnhttpc_connection_init_def Let_def cached_ok_def conn_key_def)

lemma same_key_refl [simp]: "same_key be k k"
  by (cases k) (simp add: same_key_def)

lemma cmp_probe:
  assumes "client_ok bh fh cli" and "c \<in> set cli"
  shows "mnhttpc_connection_cmp bh fh c (probe net ph pp h p) = 0 \<longleftrightarrow>
    key_hash bh fh (conn_key c) = key_hash bh fh (ph, pp, Some h, Some p)"
proof -
  have "cached_ok bh fh c" using assms by (simp add: client_ok_def list_all_iff)
  then show ?thesis using cmp_key [of bh fh c "probe net ph pp h p"] by simp
qed

section \<open>Finding the connection\<close>

text \<open>The index of a request's connection and the table afterwards.\<close>

definition place ::
  "('w, 'o) net_env \<Rightarrow> ('b \<Rightarrow> 64 word) \<Rightarrow> (64 word \<Rightarrow> 64 word \<Rightarrow> 64 word) \<Rightarrow> ('b, 'o, 'q) mnhttpc \<Rightarrow> 'b option \<Rightarrow> 'b option \<Rightarrow>
   'b \<Rightarrow> 'b \<Rightarrow> int \<Rightarrow> nat \<times> ('b, 'o, 'q) mnhttpc" where
  "place net bh fh cli ph pp h p sch = (case find_conn bh fh (probe net ph pp h p) cli of
     None \<Rightarrow> (length cli, cli @ [mnhttpc_connection_new net ph pp h p sch]) | Some i \<Rightarrow> (i, cli))"

lemma place_found:
  assumes "client_ok bh fh cli" and "content_hash be bh" and "c \<in> set cli" and "same_key be (conn_key c) (ph, pp, Some h, Some p)"
  shows "\<exists>i. place net bh fh cli ph pp h p sch = (i, cli) \<and> i < length cli \<and> cli ! i = c"
proof -
  let ?k = "(ph, pp, Some h, Some p)"
  have kc: "key_hash bh fh (conn_key c) = key_hash bh fh ?k" by (rule same_key_hash [OF assms(2,4)])
  then obtain i where i: "find_conn bh fh (probe net ph pp h p) cli = Some i"
    using find_conn_None [of bh fh "probe net ph pp h p" cli] cmp_probe [OF assms(1,3), of net ph pp h p] assms(3)
    by (cases "find_conn bh fh (probe net ph pp h p) cli") auto
  note f = find_conn_Some [OF i]
  then have "key_hash bh fh (conn_key (cli ! i)) = key_hash bh fh ?k"
    using cmp_probe [OF assms(1), of "cli ! i" net ph pp h p] by simp
  then have "cli ! i = c"
    using assms(1,3) f kc unfolding client_ok_def distinct_map inj_on_def by (metis nth_mem)
  with i f show ?thesis by (simp add: place_def)
qed

lemma place_new:
  assumes "client_ok bh fh cli" and "\<forall>c \<in> set cli. key_hash bh fh (conn_key c) \<noteq> key_hash bh fh (ph, pp, Some h, Some p)"
  shows "place net bh fh cli ph pp h p sch = (length cli, cli @ [mnhttpc_connection_new net ph pp h p sch])"
    and "client_ok bh fh (cli @ [mnhttpc_connection_new net ph pp h p sch])"
proof -
  have "find_conn bh fh (probe net ph pp h p) cli = None"
    using assms(2) cmp_probe [OF assms(1), of _ net ph pp h p] by (simp add: find_conn_None)
  then show "place net bh fh cli ph pp h p sch = (length cli, cli @ [mnhttpc_connection_new net ph pp h p sch])" by (simp add: place_def)
  show "client_ok bh fh (cli @ [mnhttpc_connection_new net ph pp h p sch])" using assms by (auto simp: client_ok_def)
qed

text \<open>A parsed URI that a request can be made for.\<close>

definition usable :: "'b bytes_env \<Rightarrow> ('b, 'h) mnhttp_uri \<Rightarrow> 'b \<Rightarrow> 'b \<Rightarrow> bool" where
  "usable be puri h p \<longleftrightarrow> host puri = Some h \<and> port puri = Some p \<and> \<not> bytes_is_null_or_empty be (Some h) \<and>
     \<not> bytes_is_null_or_empty be (Some p) \<and> \<not> bytes_is_null_or_empty be (relative puri) \<and>
     \<not> bytes_is_null_or_empty be (path puri)"

lemma mnhttpc_new_eq:
  assumes "bytes_law be" and "BCDATA be uri = Some s" and "mnhttp_uri_parse be (mnhttp_uri_init he) s = Some puri"
    and "usable be puri h p" and "place net bh fh cli ph pp h p (scheme puri) = (i, cli')"
    and "same_key be (conn_key (cli' ! i)) (ph, pp, Some h, Some p)"
  shows "\<exists>req. mnhttpc_new be he net bh fh cli ph pp uri meth ob u ib = Some (Some req, cli') \<and> connection req = Some i \<and>
    o_uri (request req) = puri \<and> o_method (request req) = Some meth"
proof -
  have "o_uri (request ((mnhttpc_request_init he u)\<lparr>out_body_cb := ob, in_body_cb := ib\<rparr>)) = mnhttp_uri_init he"
    by (simp add: mnhttpc_request_init_def mnhttpc_message_init_out_def)
  moreover obtain h' p' where "c_host (cli' ! i) = Some h'" "BDATA be h' = BDATA be h" "c_port (cli' ! i) = Some p'" "BDATA be p' = BDATA be p"
    using assms(6) by (auto simp: same_key_def conn_key_def)
  moreover have "host puri = Some h" "port puri = Some p" "\<not> bytes_is_null_or_empty be (Some h)" "\<not> bytes_is_null_or_empty be (Some p)"
      "\<not> bytes_is_null_or_empty be (relative puri)" "\<not> bytes_is_null_or_empty be (path puri)"
    using assms(4) by (auto simp: usable_def)
  ultimately show ?thesis
    using assms(2,3) assms(5) [unfolded place_def] bytes_lawD(5) [OF assms(1)] unfolding mnhttpc_new_def Let_def by simp
qed

section \<open>What is written\<close>

text \<open>An output stream that never fails.\<close>

definition out_total :: "'o out_env \<Rightarrow> bool" where
  "out_total oe \<longleftrightarrow> (\<forall>x n s. 0 \<le> fst (bytestream_nprintf oe x n s)) \<and> (\<forall>x n s. 0 \<le> fst (bytestream_cat oe x n s))"

lemma add_header_field_total:
  assumes "out_law oe content" and "out_total oe"
  shows "\<exists>r out'. http_add_header_field oe out n v = (r, out') \<and> content out' = content out @ headers_text (wire_fields [(n, v)])"
proof -
  obtain r out' where e: "http_add_header_field oe out n v = (r, out')" by (rule prod.exhaust)
  have "r = RC 0" using e assms(2) by (auto simp: http_add_header_field_def out_total_def Let_def not_less split: prod.split_asm) (metis fst_conv not_less)
  then show ?thesis
    using e add_header_field_writes [OF assms(1), of out n v out'] by (simp add: headers_text_def wire_fields_def field_text_def)
qed

lemma wire_append: "headers_text (wire_fields (xs @ ys)) = headers_text (wire_fields xs) @ headers_text (wire_fields ys)"
  by (simp add: headers_text_def wire_fields_def)

text \<open>The fields of the header hash as texts.\<close>

definition item_texts :: "'b bytes_env \<Rightarrow> ('b \<times> 'b) list \<Rightarrow> (string \<times> string) list \<Rightarrow> bool" where
  "item_texts be items hs \<longleftrightarrow> list_all2 (\<lambda>(n, v) (ns, vs). BCDATA be n = Some ns \<and> BCDATA be v = Some vs) items hs"

lemma write_fields_text:
  assumes "out_law oe content" and "out_total oe" and "item_texts be items hs"
  shows "\<exists>out'. write_fields be oe out items = Some out' \<and> content out' = content out @ headers_text (wire_fields hs)"
  using assms(3) unfolding item_texts_def
proof (induction items hs arbitrary: out rule: list_all2_induct)
  case Nil
  then show ?case by (simp add: headers_text_def wire_fields_def)
next
  case (Cons it items t hs)
  obtain n v ns vs where it: "it = (n, v)" "t = (ns, vs)" by (cases it, cases t) auto
  have b: "BCDATA be n = Some ns" "BCDATA be v = Some vs" using Cons.hyps(1) by (auto simp: it)
  obtain r out1 where 1: "http_add_header_field oe out ns vs = (r, out1)"
      "content out1 = content out @ headers_text (wire_fields [(ns, vs)])"
    using add_header_field_total [OF assms(1,2)] by blast
  obtain out' where 2: "write_fields be oe out1 items = Some out'" "content out' = content out1 @ headers_text (wire_fields hs)"
    using Cons.IH [of out1] by blast
  show ?case using 1 2 b wire_append [of "[(ns, vs)]" hs] by (simp add: it http_field_addb_def)
qed

text \<open>The header fields of a client's request.\<close>

definition client_fields :: "string \<Rightarrow> string \<Rightarrow> string \<Rightarrow> string \<Rightarrow> (string \<times> string) list \<Rightarrow> (string \<times> string) list" where
  "client_fields date h p version hs = [(''Date'', date), (''Host'', h @ '':'' @ p), (''User-Agent'', version)] @ hs"

lemma start_request_total:
  assumes "out_law oe content" and "out_total oe" and "relative uri = Some rel" and "holds be (Some rel) rs" and "NUL \<notin> set rs"
    and "hash_is_empty he (qterms uri)"
  shows "\<exists>out'. mnhttp_uri_start_request be he oe uri out meth = Some (RC 0, out') \<and>
    content out' = content out @ request_text meth '' '' rs '' '' 1 1 @ crlf"
proof -
  note b = holds_BCDATA [OF assms(4,5)]
  have bs: "BSZ be rel = length rs + 1" using assms(4) by (simp add: holds_def)
  obtain r out1 where 1: "bytestream_nprintf oe out (length meth + BSZ be rel + 16) (meth @ '' '' @ rs) = (r, out1)" by (rule prod.exhaust)
  obtain q out2 where 2: "bytestream_cat oe out1 11 ('' HTTP/1.1'' @ crlf) = (q, out2)" by (rule prod.exhaust)
  have rq: "0 \<le> r" "0 \<le> q" using assms(2) 1 2 unfolding out_total_def by (metis fst_conv)+
  have "content out1 = content out @ meth @ '' '' @ rs" using out_lawD(1) [OF assms(1) _ 1 rq(1)] bs by simp
  moreover have "content out2 = content out1 @ '' HTTP/1.1'' @ crlf" using out_lawD(2) [OF assms(1) _ 2 rq(2)] by simp
  moreover have "show_nat 1 = ''1''" by code_simp
  ultimately show ?thesis
    using assms(3,6) b 1 2 rq by (simp add: mnhttp_uri_start_request_def request_text_def)
qed

text \<open>Everything before the body.\<close>

definition good_request ::
  "'b bytes_env \<Rightarrow> ('b, 'h) hash_env \<Rightarrow> ('b, 'h, 'o, 'u) mnhttpc_request \<Rightarrow> string \<Rightarrow> string \<Rightarrow> string \<Rightarrow> string \<Rightarrow> (string \<times> string) list \<Rightarrow> bool" where
  "good_request be he req meth rs h p hs \<longleftrightarrow>
     o_method (request req) = Some meth \<and> holds be (relative (o_uri (request req))) rs \<and> NUL \<notin> set rs \<and>
     hash_is_empty he (qterms (o_uri (request req))) \<and>
     holds be (host (o_uri (request req))) h \<and> NUL \<notin> set h \<and> holds be (port (o_uri (request req))) p \<and> NUL \<notin> set p \<and>
     item_texts be (hash_items he (o_headers (request req))) hs"

lemma new_BCDATA: "bytes_law be \<Longrightarrow> NUL \<notin> set s \<Longrightarrow> BCDATA be (bytes_new_from_str be s) = Some s"
  by (rule holds_BCDATA) (simp_all add: holds_new)

lemma finalize_write_text:
  assumes "bytes_law be" and "out_law oe content" and "out_total oe" and "good_request be he req meth rs h p hs"
    and "gmtime now = Some tv" and "NUL \<notin> set version" and "out_body_cb req = Some f"
    and "\<And>x. content (fst (snd (f x (r_user req)))) = content x @ bdy"
  shows "\<exists>out' u. finalize_write be he oe version now req out = Some (Inr (out', u)) \<and>
    content out' = content out @ request_text meth '' '' rs '' '' 1 1 @ crlf @
      headers_text (wire_fields (client_fields (http_date tv) h p version hs)) @ crlf @ bdy"
proof -
  let ?uri = "o_uri (request req)" and ?date = "http_date tv"
  note g = assms(4) [unfolded good_request_def]
  obtain rel where rel: "relative ?uri = Some rel" using g by (auto simp: holds_def split: option.split_asm)
  obtain hb where hb: "host ?uri = Some hb" using g by (auto simp: holds_def split: option.split_asm)
  obtain pb where pb: "port ?uri = Some pb" using g by (auto simp: holds_def split: option.split_asm)
  have bh: "BCDATA be hb = Some h" "BCDATA be pb = Some p" using g hb pb by (auto intro!: holds_BCDATA)
  note nb = new_BCDATA [OF assms(1)] and fw = add_header_field_total [OF assms(2,3)]
  have nd: "NUL \<notin> set ?date" by (rule http_date_no_NUL [OF assms(5)])
  have bd: "BCDATA be (bytes_new_from_str_len be ?date (length ?date)) = Some ?date"
    using holds_new(2) [OF assms(1), of "length ?date" ?date ?date] nd by (intro holds_BCDATA) simp_all
  obtain out1 where 1: "mnhttp_uri_start_request be he oe ?uri out meth = Some (RC 0, out1)"
      "content out1 = content out @ request_text meth '' '' rs '' '' 1 1 @ crlf"
    using start_request_total [OF assms(2,3) rel, of be rs he out meth] g rel by auto
  obtain r2 out2 where 2: "http_add_header_field oe out1 ''Date'' ?date = (r2, out2)"
      "content out2 = content out1 @ headers_text (wire_fields [(''Date'', ?date)])" using fw by blast
  obtain r3 out3 where 3: "http_add_header_field oe out2 ''Host'' (h @ '':'' @ p) = (r3, out3)"
      "content out3 = content out2 @ headers_text (wire_fields [(''Host'', h @ '':'' @ p)])" using fw by blast
  obtain r4 out4 where 4: "http_add_header_field oe out3 ''User-Agent'' version = (r4, out4)"
      "content out4 = content out3 @ headers_text (wire_fields [(''User-Agent'', version)])" using fw by blast
  obtain out5 where 5: "write_fields be oe out4 (hash_items he (o_headers (request req))) = Some out5"
      "content out5 = content out4 @ headers_text (wire_fields hs)" using write_fields_text [OF assms(2,3), of be _ hs out4] g by blast
  obtain r6 out6 where 6: "bytestream_cat oe out5 2 crlf = (r6, out6)" by (rule prod.exhaust)
  have "0 \<le> r6" using assms(3) 6 unfolding out_total_def by (metis fst_conv)
  then have c6: "content out6 = content out5 @ crlf" using out_lawD(2) [OF assms(2) _ 6] by simp
  have e6: "snd (http_end_of_header oe out5) = out6" by (simp add: http_end_of_header_def 6)
  obtain n out7 u where 7: "f out6 (r_user req) = (n, out7, u)" by (cases "f out6 (r_user req)")
  have "content out7 = content out6 @ bdy" using assms(8) [of out6] 7 by simp
  moreover have "finalize_write be he oe version now req out = Some (Inr (out7, u))"
    using g 1(1) 2(1) 3(1) 4(1) 5(1) e6 7 assms(5,6,7) hb pb bh bd nb strftime_date [OF assms(5)]
    by (simp add: finalize_write_def http_field_addt_def http_field_addf_def Let_def)
  moreover have "headers_text (wire_fields (client_fields ?date h p version hs)) =
      headers_text (wire_fields [(''Date'', ?date)]) @ headers_text (wire_fields [(''Host'', h @ '':'' @ p)]) @
      headers_text (wire_fields [(''User-Agent'', version)]) @ headers_text (wire_fields hs)"
    by (simp add: client_fields_def headers_text_def wire_fields_def)
  ultimately show ?thesis using 1(2) 2(2) 3(2) 4(2) 5(2) c6 by simp
qed

section \<open>Claims\<close>

text \<open>
  C18. A request for a usable URI gets a connection to the right place: to the URI's host and port through the given proxy.
  It is the one the client already has for that address, if there is one, and otherwise a new one added to the
  table; no two connections of the table have the same hash. The address's hash must not be that of
  another address, since only hashes are compared; a request whose address collides with one for another host or port
  fails an assertion.
\<close>

theorem new_request_connection:
  assumes "bytes_law be" and "client_ok bh fh cli" and "content_hash be bh"
    and "BCDATA be uri = Some s" and "mnhttp_uri_parse be (mnhttp_uri_init he) s = Some puri" and "usable be puri h p"
    and "\<forall>c \<in> set cli. key_hash bh fh (conn_key c) = key_hash bh fh (ph, pp, Some h, Some p) \<longrightarrow>
      same_key be (conn_key c) (ph, pp, Some h, Some p)"
  shows "\<exists>req cli' i. mnhttpc_new be he net bh fh cli ph pp uri meth ob u ib = Some (Some req, cli') \<and> connection req = Some i \<and>
    i < length cli' \<and> same_key be (conn_key (cli' ! i)) (ph, pp, Some h, Some p) \<and> client_ok bh fh cli' \<and>
    (if \<exists>c \<in> set cli. same_key be (conn_key c) (ph, pp, Some h, Some p) then cli' = cli
     else cli' = cli @ [mnhttpc_connection_new net ph pp h p (scheme puri)])"
proof (cases "\<exists>c \<in> set cli. same_key be (conn_key c) (ph, pp, Some h, Some p)")
  case True
  then obtain c where c: "c \<in> set cli" "same_key be (conn_key c) (ph, pp, Some h, Some p)" by blast
  obtain i where i: "place net bh fh cli ph pp h p (scheme puri) = (i, cli)" "i < length cli" "cli ! i = c"
    using place_found [OF assms(2,3) c, of net "scheme puri"] by blast
  show ?thesis using mnhttpc_new_eq [OF assms(1,4,5,6) i(1), of meth ob u ib] i(2,3) c(2) assms(2) True by auto
next
  case False
  then have "\<forall>c \<in> set cli. key_hash bh fh (conn_key c) \<noteq> key_hash bh fh (ph, pp, Some h, Some p)" using assms(7) by blast
  note n = place_new [OF assms(2) this, of net "scheme puri"]
  have "same_key be (conn_key ((cli @ [mnhttpc_connection_new net ph pp h p (scheme puri)]) ! length cli)) (ph, pp, Some h, Some p)" by simp
  then show ?thesis
    using mnhttpc_new_eq [OF assms(1,4,5,6) n(1), of meth ob u ib] n(2) False by auto
qed

text \<open>A hash that tells the addresses of the example apart.\<close>

definition sum_hash :: "string \<Rightarrow> 64 word" where
  "sum_hash s = of_nat (sum_list (map byte_of s))"

abbreviation sample_new ::
  "(string, string, nat) mnhttpc \<Rightarrow> string \<Rightarrow>
   ((string, (string \<times> string) list, string, unit) mnhttpc_request option \<times> (string, string, nat) mnhttpc) option" where
  "sample_new cli uri \<equiv> mnhttpc_get_new list_bytes list_hash easy_net sum_hash (\<lambda>s x. 31 * s + x) cli None None (uri @ [NUL]) () None"

lemma sample_uri_parsed:
  "\<exists>puri. mnhttp_uri_parse list_bytes (mnhttp_uri_init list_hash) ''http://h:443/x'' = Some puri \<and>
     usable list_bytes puri (''h'' @ [NUL]) (''443'' @ [NUL]) \<and> scheme puri = 0"
  "\<exists>puri. mnhttp_uri_parse list_bytes (mnhttp_uri_init list_hash) ''https://h:443/y'' = Some puri \<and>
     usable list_bytes puri (''h'' @ [NUL]) (''443'' @ [NUL]) \<and> scheme puri = 1"
proof -
  have "map_option (\<lambda>u. (scheme u, host u, port u, relative u, path u))
      (mnhttp_uri_parse list_bytes (mnhttp_uri_init list_hash) ''http://h:443/x'') =
      Some (0, Some (''h'' @ [NUL]), Some (''443'' @ [NUL]), Some (''/x'' @ [NUL]), Some (''/x'' @ [NUL]))" by code_simp
  then show "\<exists>puri. mnhttp_uri_parse list_bytes (mnhttp_uri_init list_hash) ''http://h:443/x'' = Some puri \<and>
     usable list_bytes puri (''h'' @ [NUL]) (''443'' @ [NUL]) \<and> scheme puri = 0"
    by (auto simp: usable_def list_bytes_def)
  have "map_option (\<lambda>u. (scheme u, host u, port u, relative u, path u))
      (mnhttp_uri_parse list_bytes (mnhttp_uri_init list_hash) ''https://h:443/y'') =
      Some (1, Some (''h'' @ [NUL]), Some (''443'' @ [NUL]), Some (''/y'' @ [NUL]), Some (''/y'' @ [NUL]))" by code_simp
  then show "\<exists>puri. mnhttp_uri_parse list_bytes (mnhttp_uri_init list_hash) ''https://h:443/y'' = Some puri \<and>
     usable list_bytes puri (''h'' @ [NUL]) (''443'' @ [NUL]) \<and> scheme puri = 1"
    by (auto simp: usable_def list_bytes_def)
qed

lemma sample_laws: "content_hash list_bytes sum_hash" "client_ok bh fh []" "NUL \<notin> set s \<Longrightarrow> BCDATA list_bytes (s @ [NUL]) = Some s"
  by (simp_all add: content_hash_def list_bytes_def client_ok_def BCDATA_def cstring_append)

theorem new_request_connection_witness:
  "\<exists>req cli'. sample_new [] ''http://h:443/x'' = Some (Some req, cli') \<and> connection req = Some 0 \<and> length cli' = 1"
proof -
  obtain puri where p: "mnhttp_uri_parse list_bytes (mnhttp_uri_init list_hash) ''http://h:443/x'' = Some puri"
      "usable list_bytes puri (''h'' @ [NUL]) (''443'' @ [NUL])" using sample_uri_parsed(1) by blast
  have b: "BCDATA list_bytes (''http://h:443/x'' @ [NUL]) = Some ''http://h:443/x''" by (rule sample_laws(3)) simp
  show ?thesis
    using new_request_connection [where cli = "[] :: (string, string, nat) mnhttpc", OF list_bytes_law sample_laws(2,1) b p,
        of "\<lambda>s x. 31 * s + x" None None easy_net "''GET''" None "()" None]
    by (auto simp: mnhttpc_get_new_def)
qed

text \<open>
  C36. The table does not tell schemes apart: when the client has a plain connection to a host and port, a request for
  an \<open>https\<close> URI at that host and port is given that connection, and would be sent in clear text.
\<close>

theorem https_over_plain_connection:
  assumes "bytes_law be" and "client_ok bh fh cli" and "content_hash be bh"
    and "BCDATA be uri = Some s" and "mnhttp_uri_parse be (mnhttp_uri_init he) s = Some puri" and "usable be puri h p"
    and "scheme puri = MNHTTPC_MESSAGE_SCHEME_HTTPS"
    and "c \<in> set cli" and "same_key be (conn_key c) (ph, pp, Some h, Some p)" and "\<not> c_sslctx c"
  shows "\<exists>req i. mnhttpc_new be he net bh fh cli ph pp uri meth ob u ib = Some (Some req, cli) \<and> connection req = Some i \<and>
    i < length cli \<and> \<not> c_sslctx (cli ! i)"
proof -
  obtain i where i: "place net bh fh cli ph pp h p (scheme puri) = (i, cli)" "i < length cli" "cli ! i = c"
    using place_found [OF assms(2,3,8,9), of net "scheme puri"] by blast
  show ?thesis using mnhttpc_new_eq [OF assms(1,4,5,6) i(1), of meth ob u ib] i(2,3) assms(9,10) by auto
qed

theorem https_over_plain_connection_witness:
  "\<exists>req i. sample_new [easy_conn 0] ''https://h:443/y'' = Some (Some req, [easy_conn 0]) \<and> connection req = Some i \<and> \<not> c_sslctx ([easy_conn 0] ! i)"
proof -
  obtain puri where p: "mnhttp_uri_parse list_bytes (mnhttp_uri_init list_hash) ''https://h:443/y'' = Some puri"
      "usable list_bytes puri (''h'' @ [NUL]) (''443'' @ [NUL])" "scheme puri = 1" using sample_uri_parsed(2) by blast
  have b: "BCDATA list_bytes (''https://h:443/y'' @ [NUL]) = Some ''https://h:443/y''" by (rule sample_laws(3)) simp
  have c: "client_ok sum_hash (\<lambda>s x. 31 * s + x) [easy_conn 0]" "easy_conn 0 \<in> set [easy_conn 0]" "\<not> c_sslctx (easy_conn 0)"
      "same_key list_bytes (conn_key (easy_conn 0)) (None, None, Some (''h'' @ [NUL]), Some (''443'' @ [NUL]))"
    by (simp_all add: client_ok_def)
  show ?thesis
    using https_over_plain_connection [OF list_bytes_law c(1) sample_laws(1) b p c(2,4,3), of easy_net "''GET''" None "()" None] unfolding mnhttpc_get_new_def by blast
qed

end
