(* ===== verification/Spec2Isabelle.thy ===== *)
theory Spec2Isabelle
  imports UrlCodec HttpEnds HttpArrive HttpRoundtrip HttpKvp HttpUriWrite Command Servers SslHelper Daemonize HttpcWorker HttpcClient
begin

text \<open>
  \<^bold>\<open>The program.\<close> mnapp is a C library for network applications: an HTTP message parser and writers with URIs and the
  URL codec (src/src/mnhttp.c), an HTTP client that keeps connections and matches responses with requests
  (src/src/mnhttpc.c), a registry of command line options (src/src/mncommand.c), a local and a TCP server
  (src/src/local_server.c), byte stream functions for TLS (src/src/bytestream_ssl_helper.c) and \<open>daemonize\<close>
  (src/src/daemonize.c). The client writes requests with the writers of mnhttp.c to a stream that its send thread
  empties, and its receive thread reads responses with the parser of mnhttp.c; everything else is independent.

  \<^bold>\<open>How C is modelled\<close> (theories Prelude and CLib). Memory objects are lists with checked accesses; undefined
  behaviour (an access outside its object, a null dereference, a failed \<open>assert\<close>) is \<open>None\<close>, or \<open>Undefined\<close> for loops.
  Conversions to \<open>int\<close> wrap explicitly (\<open>c_int\<close>), the counters and hashes of the code that rely on their width are words. Result codes are
  \<open>RC n\<close>, diagnostics \<open>ERR base k\<close> with the bases of src/src/diag.txt. A loop that need not end is a step function run
  by \<open>run_steps n\<close>: at most \<open>n\<close> rounds, then \<open>Running\<close>. The fuel is no bound of the program: claims that
  a loop returns say that there is an \<open>n\<close> for which it does, by a measure that each round decreases
  (\<open>run_steps_total\<close>, \<open>run_steps_ends\<close>), and \<open>run_steps_more\<close> says that more fuel changes nothing. CLib holds the C
  library functions the program calls (\<open>strtol\<close>, the comparisons, \<open>printf\<close>'s \<open>%d\<close>).

  \<^bold>\<open>Code that is not part of the program\<close> (the libraries mncommon and mnthr, OpenSSL, the operating system, \<open>getopt_long\<close>)
  is an argument of the definitions that call it: records of operations \<open>bs_env\<close> (HttpCtx), \<open>bytes_env\<close> and \<open>out_env\<close> (Bytes),
  \<open>hash_env\<close> (HttpUri), \<open>os_env\<close> (Servers), \<open>ssl_env\<close> (SslHelper), \<open>dm_env\<close> (Daemonize), \<open>net_env\<close> (HttpcConn) and
  \<open>sync_env\<close> (HttpcClient). What the program relies on is stated as laws (\<open>bytes_law\<close>, \<open>out_law\<close>, \<open>needmore_law\<close>,
  \<open>recycle_law\<close>, \<open>arrival_law\<close>) or as locales (\<open>getopt_law\<close>, \<open>socket_law\<close> with \<open>tcp_law\<close> and \<open>conn_law\<close>, \<open>ssl_law\<close>, \<open>send_law\<close>, \<open>url_encoder\<close>, \<open>header_hash\<close>), each
  interpreted on an executable instance; operations that may let other threads run may change the whole state they are
  given.

  \<^bold>\<open>The theories.\<close>
  \<^item> UrlCodec: \<open>charflags\<close>, \<open>http_urlencode_reserved\<close>, \<open>http_urldecode\<close>. The encoder stays inside its buffer and writes the
    percent-encoding, the in-place decoder computes the decoding, and decoding undoes encoding.
  \<^item> HttpScan: \<open>findcrlf\<close>, \<open>findsp\<close>, \<open>findnosp\<close> as instances of the locale \<open>scanner\<close>.
  \<^item> HttpCtx, HttpParse: \<open>mnhttp_ctx_t\<close> and the parser, from \<open>process_header\<close> to \<open>http_parse_response\<close>; one round of
    the loop of \<open>_http_parse_message\<close> is \<open>message_step\<close>, one definition per state of the automaton.
  \<^item> HttpLine, HttpHeader, HttpBody, HttpMessage: the parser's behaviour, line by line, field by field, chunk by chunk, and
    for whole messages: a message whose text is in the stream is parsed completely and the stream is left at its
    end. Two deviations from that are claims of their own: negative body sizes and a line end split between reads.
  \<^item> HttpWait, HttpPieces, HttpChunks, HttpArrive: messages that arrive in pieces. What the source of the data does is \<open>arrival_law\<close>; a line
    is looked at from its start again until it is complete (\<open>line_arrives\<close>, the locale \<open>waiting_line_parser\<close>), a body or a
    chunk is collected, and the result is the one for the whole text, unless a read ends inside one of the line ends that the code skips
    without looking (\<open>message_cuts\<close>).
  \<^item> HttpEnds: the parser on arbitrary input, in arbitrary pieces: it stops when the input does, by a lexicographic measure on
    the rounds of its loop, with a result or in undefined behaviour; its position stays between 0 and the end of the data, or, in
    the body, up to two bytes past that.
  \<^item> Bytes, HttpDate, HttpWrite, HttpRoundtrip: the functions that write messages; what they write is what the parser reads back. A
    date header is the date of its instant in the Gregorian calendar (\<open>gmtime\<close> and \<open>strftime\<close> on the program's format).
  \<^item> HttpUri, HttpUriWrite, HttpKvp: \<open>mnhttp_uri_parse\<close> finds the components of a URI's text,
    \<open>mnhttp_uri_start_request\<close> writes them with the query terms, encoded one after the other in two buffers that the code
    sets back to their size each time, and the index loops of the two key-value parsers agree
    with splitting at the delimiters.
  \<^item> HttpcRequest, HttpcWorker: requests of the client, the callbacks that fill them in, and the receive thread: a response
    is delivered to the request that has waited longest; one that nobody asked for dereferences \<open>NULL\<close>.
  \<^item> HttpcConn: connections, TLS set-up, the send thread and the collector, with the invariant of a connection over
    all sequences of its operations from making it on (\<open>conn_step\<close>, and \<open>conn_reach\<close> with \<open>mnhttpc_connection_gc\<close>, after which the
    streams of a TLS connection have the wrong functions). The send thread loses nothing that is written while it sleeps.
  \<^item> HttpcClient: the table of connections, \<open>mnhttpc_new\<close> and \<open>mnhttpc_request_finalize\<close>.
  \<^item> CommandHelp, Command: the help text and the option registry; parsing a command line refines running the commands
    named on it in order (\<open>names_command\<close>); the long name of a command that is added after a first parse is never found.
  \<^item> Servers: \<open>local_server\<close> and \<open>mnapp_tcp_server_*\<close>; \<open>os_view\<close> has every open socket with how far it has got (made, bound,
    listening). SslHelper: the two TLS loops. Daemonize: \<open>daemonize\<close>.
  This theory joins the client and the parser.

  \<^bold>\<open>Not modelled.\<close> Reference counts and \<open>free\<close> (memory is never used after it in the model; the fini functions are modelled
  by what they reset), trace and dump output (\<open>http_ctx_dump\<close>, \<open>CTRACE\<close>, \<open>TRRET\<close>'s messages), the macros
  \<open>MNHTTP_PRINTF_HEADER\<close> that no code uses, \<open>foo.c\<close> and \<open>mnapp.c\<close>, which hold no behaviour, and the test drivers. Threads
  interleave only where the code calls the thread library, which is cooperative.
\<close>

section \<open>From the client to the server\<close>

text \<open>
  C8. What \<open>mnhttpc_request_finalize\<close> writes, any server that uses \<open>http_parse_request\<close> understands.
  Once the client's connection is up, the request is written to its stream behind what is already there, the request
  is put last in the queue of those that wait for a response, and the sender is woken; when those bytes arrive at
  the server, followed by anything, the parser returns 0, hands out the method, the URI, the version, the fields \<open>Date\<close>, \<open>Host\<close> and
  \<open>User-Agent\<close> and those of the request, in that order, and the body, and stops at its end. The URI has no query terms,
  the fields announce the body's length, and each has a value.
\<close>

theorem client_request_understood:
  assumes "bytes_law be" and "out_law oe content" and "out_total oe" and "good_request be he req meth rs h p hs"
    and "gmtime now = Some tv" and "NUL \<notin> set version" and "out_body_cb req = Some f"
    and "\<And>x. content (fst (snd (f x (r_user req)))) = content x @ bdy"
    and "sema_acquire sync conn w = (0, conn1, w1)"
    and "mnhttpc_connection_ensure_connected n be net conn1 w1 = Returned (RC 0, conn2, w2)"
    and "flds = client_fields (http_date tv) h p version hs"
    and "message = request_text meth '' '' rs '' '' 1 1 @ crlf @ headers_text (wire_fields flds) @ crlf @ bdy"
    and "token meth" and "token rs" and "list_all good_field (wire_fields flds)"
    and "announced (Whole bdy) (fold header_effect flds http_ctx_init)"
    and "needmore_law env" and "recycle_law env"
  shows "\<exists>out' u. mnhttpc_request_finalize n be he oe net sync version now req conn w =
      (case signal_send sync (conn2\<lparr>c_out := out', c_requests := c_requests conn2 @ [req\<lparr>r_user := u\<rparr>]\<rparr>) w2 of (conn3, w3) \<Rightarrow>
         case signal_subscribe sync conn3 w3 of (r4, conn4, w4) \<Rightarrow> released sync (RC r4) conn4 w4) \<and>
    content out' = content (c_out conn2) @ message \<and>
      (\<forall>st rest. m_ctx st = http_ctx_init \<longrightarrow> pos_ok (m_in st) \<longrightarrow> errno_ok (m_errno st) \<longrightarrow> unread (m_in st) = message @ rest \<longrightarrow>
        (\<exists>m st'. http_parse_request m env (Some (line_reader k)) (Some (header_reader g)) (Some (body_reader b)) st = Returned (RC 0, st') \<and>
          unread (m_in st') = rest \<and> code (m_ctx st') = method_of meth \<and> request_uri (m_ctx st') = Some rs \<and>
          m_udata st' = b bdy (fold (read_field g) (wire_fields flds) (k (method_of meth) (Some rs) 1 1 (m_udata st)))))"
proof -
  obtain out' u where fw: "finalize_write be he oe version now req (c_out conn2) = Some (Inr (out', u))"
      "content out' = content (c_out conn2) @ message"
    using finalize_write_text [OF assms(1-8), of "c_out conn2"] unfolding assms(11,12) by blast
  have bl: "blanks '' ''" by (simp add: blanks_def ISSPACE_def)
  have "\<exists>m st'. http_parse_request m env (Some (line_reader k)) (Some (header_reader g)) (Some (body_reader b)) st = Returned (RC 0, st') \<and>
      unread (m_in st') = rest \<and> code (m_ctx st') = method_of meth \<and> request_uri (m_ctx st') = Some rs \<and>
      m_udata st' = b bdy (fold (read_field g) (wire_fields flds) (k (method_of meth) (Some rs) 1 1 (m_udata st)))"
    if st: "m_ctx st = http_ctx_init" "pos_ok (m_in st)" "errno_ok (m_errno st)" "unread (m_in st) = message @ rest" for st rest
  proof -
    have u: "unread (m_in st) = request_text meth '' '' rs '' '' 1 1 @ crlf @ headers_text (wire_fields flds) @ crlf @
        frame_text (Whole bdy) @ rest" using st(4) by (simp add: assms(12))
    show ?thesis
      using request_parsed [OF assms(17,18) st(1-3) u assms(13) bl assms(14) bl _ _ assms(15), of k g b] assms(16)
      unfolding left_over_def by fastforce
  qed
  then show ?thesis
    using fw by (intro exI [of _ out'] exI [of _ u] conjI) (simp_all add: mnhttpc_request_finalize_def assms(9,10))
qed

text \<open>An output stream without bound, a connected client, and threads that only wait.\<close>

definition free_out :: "string out_env" where
  "free_out = \<lparr>bytestream_nprintf = (\<lambda>x sz s. (0, x @ take (sz - 1) s)), bytestream_cat = (\<lambda>x sz s. (0, x @ take sz s))\<rparr>"

lemma free_out_laws: "out_law free_out id" "out_total free_out"
  by (simp_all add: out_law_def out_total_def free_out_def)

definition sample_client_request :: "(string, (string \<times> string) list, string, string list) mnhttpc_request" where
  "sample_client_request = (mnhttpc_request_init list_hash [])\<lparr>out_body_cb := Some (\<lambda>x u. (0, x @ ''abc'', u)),
     request := \<lparr>o_method = Some ''POST'',
       o_uri = (mnhttp_uri_init list_hash)\<lparr>host := Some (''h'' @ [NUL]), port := Some (''80'' @ [NUL]), relative := Some (''/a'' @ [NUL])\<rparr>,
       o_headers = [(''Content-Length'' @ [NUL], ''3'' @ [NUL])], o_content_type = None, o_content_length = 0, o_keepalive = -1\<rparr>\<rparr>"

definition sample_client_connection ::
  "(string, string, (string, (string \<times> string) list, string, string list) mnhttpc_request) mnhttpc_connection" where
  "sample_client_connection = (mnhttpc_connection_new easy_net None None (''h'' @ [NUL]) (''80'' @ [NUL]) 0)\<lparr>send_thread := Some 1, recv_thread := Some 2\<rparr>"

definition idle_sync :: "('c, 'w) sync_env" where
  "idle_sync = \<lparr>sema_acquire = (\<lambda>c w. (0, c, w)), sema_release = (\<lambda>c w. (c, w)), signal_send = (\<lambda>c w. (c, w)),
     signal_subscribe = (\<lambda>c w. (0, c, w))\<rparr>"

lemma sample_client_facts:
  shows sample_good: "good_request list_bytes list_hash sample_client_request ''POST'' ''/a'' ''h'' ''80'' [(''Content-Length'', ''3'')]"
    and sample_body: "out_body_cb sample_client_request = Some (\<lambda>x u. (0, x @ ''abc'', u))"
    and sample_connected: "mnhttpc_connection_ensure_connected 0 list_bytes easy_net sample_client_connection () =
      Returned (RC 0, sample_client_connection, ())"
    and sample_out: "c_out sample_client_connection = []" and sample_queue: "c_requests sample_client_connection = []"
    and sample_acquire: "sema_acquire idle_sync sample_client_connection () = (0, sample_client_connection, ())"
  by (simp_all add: good_request_def sample_client_request_def holds_def list_bytes_def list_hash_def mnhttp_uri_init_def item_texts_def
      BCDATA_def cstring_def mnhttpc_request_init_def mnhttpc_connection_ensure_connected_def sample_client_connection_def
      mnhttpc_connection_new_def mnhttpc_connection_init_def easy_net_def Let_def idle_sync_def)

theorem client_request_understood_witness:
  "\<exists>c m st'. mnhttpc_request_finalize 0 list_bytes list_hash free_out easy_net idle_sync ''mnapp/1'' 784111777 sample_client_request
        sample_client_connection () = Returned (RC 0, c, ()) \<and> length (c_requests c) = 1 \<and>
     http_parse_request m fragment_env (Some (line_reader note_line)) (Some (header_reader note_field))
       (Some (body_reader note_body)) (fragment_state (c_out c) [] []) = Returned (RC 0, st') \<and>
     m_udata st' = [''4'', ''/a'', ''Date'', ''Sun, 06 Nov 1994 08:49:37 GMT'', ''Host'', ''h:80'', ''User-Agent'', ''mnapp/1'',
       ''Content-Length'', ''3'', ''abc'']"
proof -
  let ?fs = "client_fields ''Sun, 06 Nov 1994 08:49:37 GMT'' ''h'' ''80'' ''mnapp/1'' [(''Content-Length'', ''3'')]"
  have "map_option http_date (gmtime 784111777) = Some ''Sun, 06 Nov 1994 08:49:37 GMT''" by code_simp
  then obtain tv where tv: "gmtime 784111777 = Some tv" "http_date tv = ''Sun, 06 Nov 1994 08:49:37 GMT''" by auto
  have *: "NUL \<notin> set ''mnapp/1''" "token ''POST''" "token ''/a''" "list_all good_field (wire_fields ?fs)"
    "announced (Whole ''abc'') (fold header_effect ?fs http_ctx_init)" "method_of ''POST'' = 4"
    "note_body ''abc'' (fold (read_field note_field) (wire_fields ?fs) (note_line 4 (Some ''/a'') 1 1 [])) =
      [''4'', ''/a'', ''Date'', ''Sun, 06 Nov 1994 08:49:37 GMT'', ''Host'', ''h:80'', ''User-Agent'', ''mnapp/1'', ''Content-Length'', ''3'', ''abc'']"
    by code_simp+
  let ?msg = "request_text ''POST'' '' '' ''/a'' '' '' 1 1 @ crlf @ headers_text (wire_fields ?fs) @ crlf @ ''abc''"
  have fl: "?fs = client_fields (http_date tv) ''h'' ''80'' ''mnapp/1'' [(''Content-Length'', ''3'')]" by (simp only: tv(2))
  have b: "id (fst (snd ((\<lambda>x u. (0 :: int, x @ ''abc'', u)) x (r_user sample_client_request)))) = id x @ ''abc''" for x by simp
  obtain out' u where r: "mnhttpc_request_finalize 0 list_bytes list_hash free_out easy_net idle_sync ''mnapp/1'' 784111777
      sample_client_request sample_client_connection () =
      (case signal_send idle_sync (sample_client_connection\<lparr>c_out := out',
          c_requests := c_requests sample_client_connection @ [sample_client_request\<lparr>r_user := u\<rparr>]\<rparr>) () of (conn3, w3) \<Rightarrow>
         case signal_subscribe idle_sync conn3 w3 of (r4, conn4, w4) \<Rightarrow> released idle_sync (RC r4) conn4 w4)"
      "id out' = id (c_out sample_client_connection) @ ?msg"
    and p: "\<forall>st rest. m_ctx st = http_ctx_init \<longrightarrow> pos_ok (m_in st) \<longrightarrow> errno_ok (m_errno st) \<longrightarrow> unread (m_in st) = ?msg @ rest \<longrightarrow>
      (\<exists>m st'. http_parse_request m fragment_env (Some (line_reader note_line)) (Some (header_reader note_field)) (Some (body_reader note_body)) st =
          Returned (RC 0, st') \<and> unread (m_in st') = rest \<and> code (m_ctx st') = method_of ''POST'' \<and> request_uri (m_ctx st') = Some ''/a'' \<and>
          m_udata st' = note_body ''abc'' (fold (read_field note_field) (wire_fields ?fs) (note_line (method_of ''POST'') (Some ''/a'') 1 1 (m_udata st))))"
    using client_request_understood [OF list_bytes_law free_out_laws sample_good tv(1) *(1) sample_body b sample_acquire sample_connected fl refl *(2-5) fragment_needmore
        fragment_recycle_law, of note_line note_field note_body] by blast
  have q: "mnhttpc_request_finalize 0 list_bytes list_hash free_out easy_net idle_sync ''mnapp/1'' 784111777
      sample_client_request sample_client_connection () =
      Returned (RC 0, sample_client_connection\<lparr>c_out := ?msg, c_requests := [sample_client_request\<lparr>r_user := u\<rparr>]\<rparr>, ())"
    using r by (simp only: sample_out sample_queue append_Nil id_apply) (simp add: idle_sync_def released_def)
  have "length ?msg < 200" by code_simp
  then have l: "length ?msg < 2 ^ 31" by simp
  obtain m st' where "http_parse_request m fragment_env (Some (line_reader note_line)) (Some (header_reader note_field)) (Some (body_reader note_body))
      (fragment_state ?msg [] []) = Returned (RC 0, st')"
      "m_udata st' = note_body ''abc'' (fold (read_field note_field) (wire_fields ?fs) (note_line 4 (Some ''/a'') 1 1 []))"
    using p [rule_format, of "fragment_state ?msg [] []" "[]"] l *(6) by auto
  then show ?thesis using q *(7) by (intro exI conjI) (assumption | simp)+
qed

end
